(* ===== verification/Prelude.thy ===== *)
theory Prelude
  imports Main "HOL-Library.Word" "HOL-Library.Multiset" "HOL-Library.List_Lexorder"
    "HOL-Library.Char_ord"
begin

text \<open>
  Shared vocabulary of the development: Go's error values with \<open>errors.Is\<close>, the result type of a
  call that may return an error or panic, 64-bit wrap-around, the parts of the packages
  \<open>strings\<close> and \<open>strconv\<close> the service uses, and the generic lemmas on lists the components
  share. Go strings are byte strings, so \<^typ>\<open>string\<close> (a list of 8-bit characters) is used for
  them and \<open>len(s)\<close> is \<^term>\<open>length s\<close>.
\<close>

named_theorems table_simps \<open>how the statements change the orders table\<close>
named_theorems telemetry_simps \<open>counting calls in a telemetry trace\<close>

type_synonym time = int \<comment> \<open>nanoseconds since the epoch\<close>
type_synonym duration = int \<comment> \<open>\<open>time.Duration\<close>, nanoseconds, an \<open>int64\<close>\<close>
type_synonym uuid = "128 word" \<comment> \<open>\<open>[16]byte\<close>\<close>

abbreviation Microsecond :: duration where "Microsecond \<equiv> 1000"
abbreviation Millisecond :: duration where "Millisecond \<equiv> 1000000"
abbreviation Second :: duration where "Second \<equiv> 1000000000"

section \<open>Definitions\<close>

subsection \<open>Errors and results\<close>

datatype goerr =
    ErrNotFound
  | ErrConflict
  | Canceled
  | DeadlineExceeded
  | ErrNoRows
  | ErrAbortHandler
  | PgError string string \<comment> \<open>\<open>Code\<close> (SQLSTATE) and \<open>Severity\<close>\<close>
  | ValidationError string string \<comment> \<open>\<open>Field\<close> and \<open>Reason\<close>\<close>
  | Plain string
  | Wrap string goerr \<comment> \<open>\<open>fmt.Errorf("...: %w", err)\<close>\<close>
  | Join "goerr list" \<comment> \<open>\<open>errors.Join\<close> of non-nil errors\<close>

fun errors_is :: "goerr \<Rightarrow> goerr \<Rightarrow> bool" where
  "errors_is (Wrap m e) t = (Wrap m e = t \<or> errors_is e t)"
| "errors_is (Join es) t = (Join es = t \<or> (\<exists>e \<in> set es. errors_is e t))"
| "errors_is e t = (e = t)"

fun errors_as_pg :: "goerr \<Rightarrow> (string \<times> string) option" where
  "errors_as_pg (PgError c s) = Some (c, s)"
| "errors_as_pg (Wrap m e) = errors_as_pg e"
| "errors_as_pg (Join []) = None"
| "errors_as_pg (Join (e # es)) =
     (case errors_as_pg e of Some p \<Rightarrow> Some p | None \<Rightarrow> errors_as_pg (Join es))"
| "errors_as_pg _ = None"

datatype 'a res = Ok 'a | Err goerr | Panicked string

fun res_bind :: "'a res \<Rightarrow> ('a \<Rightarrow> 'b res) \<Rightarrow> 'b res" where
  "res_bind (Ok x) f = f x"
| "res_bind (Err e) f = Err e"
| "res_bind (Panicked m) f = Panicked m"

fun res_wrap :: "string \<Rightarrow> 'a res \<Rightarrow> 'a res" where
  "res_wrap m (Ok x) = Ok x"
| "res_wrap m (Err e) = Err (Wrap m e)"
| "res_wrap m (Panicked p) = Panicked p"

subsection \<open>Machine integers\<close>

definition wrap64 :: "int \<Rightarrow> int" where
  "wrap64 x = (x + 2 ^ 63) mod 2 ^ 64 - 2 ^ 63"

definition int64_ok :: "int \<Rightarrow> bool" where
  "int64_ok x \<longleftrightarrow> - (2 ^ 63) \<le> x \<and> x < 2 ^ 63"

text \<open>\<open>Time.Sub\<close> saturates.\<close>

definition time_sub :: "time \<Rightarrow> time \<Rightarrow> duration" where
  "time_sub a b = max (- (2 ^ 63)) (min (2 ^ 63 - 1) (a - b))"

text \<open>\<open>Duration.Round\<close>: to the nearest multiple of \<open>m\<close>, halves away from zero, saturating.\<close>

definition duration_round :: "duration \<Rightarrow> duration \<Rightarrow> duration" where
  "duration_round d m =
     (if m \<le> 0 then d
      else if d < 0 then
        (let r = (- d) mod m; d1 = wrap64 (d - m + r)
         in if 2 * r < m then d + r else if d1 < d then d1 else - (2 ^ 63))
      else
        (let r = d mod m; d1 = wrap64 (d + m - r)
         in if 2 * r < m then d - r else if d < d1 then d1 else 2 ^ 63 - 1))"

subsection \<open>Strings\<close>

fun last_index :: "char \<Rightarrow> string \<Rightarrow> nat option" where
  "last_index c [] = None"
| "last_index c (x # xs) =
     (case last_index c xs of
        Some i \<Rightarrow> Some (Suc i)
      | None \<Rightarrow> if x = c then Some 0 else None)"

fun index_byte :: "char \<Rightarrow> string \<Rightarrow> nat option" where
  "index_byte c [] = None"
| "index_byte c (x # xs) = (if x = c then Some 0 else map_option Suc (index_byte c xs))"

fun has_prefix :: "string \<Rightarrow> string \<Rightarrow> bool" where
  "has_prefix [] s = True"
| "has_prefix (p # ps) [] = False"
| "has_prefix (p # ps) (c # s) = (p = c \<and> has_prefix ps s)"

text \<open>
  Unicode white space in UTF-8, as \<open>unicode.IsSpace\<close> has it. Every encoding starts with a lead
  byte, which never occurs inside another rune, so \<open>strings.TrimSpace\<close> and
  \<open>strings.Fields\<close> can match the encodings byte by byte, on malformed strings too.
\<close>

definition bytes :: "nat list \<Rightarrow> string" where
  "bytes = map char_of"

definition space_runes :: "string list" where
  "space_runes = map bytes
     ([[9], [10], [11], [12], [13], [32], [194, 133], [194, 160], [225, 154, 128]] @
      map (\<lambda>n. [226, 128, n]) [128, 129, 130, 131, 132, 133, 134, 135, 136, 137, 138, 168, 169, 175] @
      [[226, 129, 159], [227, 128, 128]])"

definition lead_space :: "string list \<Rightarrow> string \<Rightarrow> nat" where
  "lead_space rs s = (case find (\<lambda>r. has_prefix r s) rs of None \<Rightarrow> 0 | Some r \<Rightarrow> length r)"

fun trim_left :: "string list \<Rightarrow> nat \<Rightarrow> string \<Rightarrow> string" where
  "trim_left rs k [] = []"
| "trim_left rs (Suc k) (c # s) = trim_left rs k s"
| "trim_left rs 0 (c # s) =
     (case lead_space rs (c # s) of 0 \<Rightarrow> c # s | Suc k \<Rightarrow> trim_left rs k s)"

definition trim_space :: "string \<Rightarrow> string" where
  "trim_space s = rev (trim_left (map rev space_runes) 0 (rev (trim_left space_runes 0 s)))"

definition flush :: "string \<Rightarrow> string list" where
  "flush cur = (if cur = [] then [] else [cur])"

fun fields_from :: "nat \<Rightarrow> string \<Rightarrow> string \<Rightarrow> string list" where
  "fields_from k cur [] = flush cur"
| "fields_from (Suc k) cur (c # s) = fields_from k cur s"
| "fields_from 0 cur (c # s) =
     (case lead_space space_runes (c # s) of
        0 \<Rightarrow> fields_from 0 (cur @ [c]) s
      | Suc k \<Rightarrow> flush cur @ fields_from k [] s)"

definition fields :: "string \<Rightarrow> string list" where
  "fields s = fields_from 0 [] s"

text \<open>The segments between slashes.\<close>

fun split_slash :: "string \<Rightarrow> string \<Rightarrow> string list" where
  "split_slash cur [] = [cur]"
| "split_slash cur (c # s) = (if c = CHR ''/'' then cur # split_slash [] s else split_slash (cur @ [c]) s)"

fun join :: "string \<Rightarrow> string list \<Rightarrow> string" where
  "join sep [] = []"
| "join sep [x] = x"
| "join sep (x # y # ys) = x @ sep @ join sep (y # ys)"

text \<open>
  \<open>strings.ToLower\<close> and \<open>strings.ToUpper\<close>. The results are only compared with ASCII
  constants, so of the runes outside ASCII only those whose other case is an ASCII letter are
  changed (dotted capital I and the Kelvin sign, dotless i and long s).
\<close>

fun replace_runes :: "(string \<times> char) list \<Rightarrow> nat \<Rightarrow> string \<Rightarrow> string" where
  "replace_runes tbl k [] = []"
| "replace_runes tbl (Suc k) (c # s) = replace_runes tbl k s"
| "replace_runes tbl 0 (c # s) =
     (case find (\<lambda>x. has_prefix (fst x) (c # s)) tbl of
        None \<Rightarrow> c # replace_runes tbl 0 s
      | Some (r, x) \<Rightarrow> x # replace_runes tbl (length r - 1) s)"

definition byte_lower :: "char \<Rightarrow> char" where
  "byte_lower c = (let n = of_char c :: nat in if 65 \<le> n \<and> n \<le> 90 then char_of (n + 32) else c)"

definition to_lower :: "string \<Rightarrow> string" where
  "to_lower s = map byte_lower
     (replace_runes [([CHR 0xC4, CHR 0xB0], CHR ''i''), ([CHR 0xE2, CHR 0x84, CHR 0xAA], CHR ''k'')] 0 s)"

fun contains :: "string \<Rightarrow> string \<Rightarrow> bool" where
  "contains [] sub = (sub = [])"
| "contains (c # s) sub = (has_prefix sub (c # s) \<or> contains s sub)"

subsection \<open>Decimal numbers\<close>

definition byte_upper :: "char \<Rightarrow> char" where
  "byte_upper c = (let n = of_char c :: nat in if 97 \<le> n \<and> n \<le> 122 then char_of (n - 32) else c)"

definition to_upper :: "string \<Rightarrow> string" where
  "to_upper s = map byte_upper
     (replace_runes [([CHR 0xC4, CHR 0xB1], CHR ''I''), ([CHR 0xC5, CHR 0xBF], CHR ''S'')] 0 s)"

definition digit_char :: "nat \<Rightarrow> char" where
  "digit_char d = char_of (48 + d)"

fun decimal :: "nat \<Rightarrow> string" where
  "decimal n = (if n < 10 then [digit_char n] else decimal (n div 10) @ [digit_char (n mod 10)])"

declare decimal.simps [simp del]

text \<open>\<open>strconv.Itoa\<close>.\<close>

definition itoa :: "int \<Rightarrow> string" where
  "itoa x = (if x < 0 then CHR ''-'' # decimal (nat (- x)) else decimal (nat x))"

definition digit_value :: "char \<Rightarrow> nat option" where
  "digit_value c = (let n = of_char c :: nat in if 48 \<le> n \<and> n \<le> 57 then Some (n - 48) else None)"

fun decimal_value :: "nat \<Rightarrow> string \<Rightarrow> nat option" where
  "decimal_value acc [] = Some acc"
| "decimal_value acc (c # s) =
     (case digit_value c of None \<Rightarrow> None | Some d \<Rightarrow> decimal_value (10 * acc + d) s)"

text \<open>\<open>strconv.Atoi\<close>: an optional sign, at least one digit, a value that fits 64 bits.\<close>

definition atoi :: "string \<Rightarrow> int option" where
  "atoi s =
     (let neg = (case s of [] \<Rightarrow> False | c # _ \<Rightarrow> c = CHR ''-'');
          ds = (case s of [] \<Rightarrow> [] | c # r \<Rightarrow> if c = CHR ''-'' \<or> c = CHR ''+'' then r else s)
      in if ds = [] then None
         else case decimal_value 0 ds of
                None \<Rightarrow> None
              | Some n \<Rightarrow> (let x = (if neg then - int n else int n) in if int64_ok x then Some x else None))"

section \<open>Lemmas\<close>

subsection \<open>Decimal numbers\<close>

lemma digit_value_char: "d < 10 \<Longrightarrow> digit_value (digit_char d) = Some d"
  by (simp add: digit_value_def digit_char_def of_char_of)

lemma decimal_value_append:
  "decimal_value a (xs @ ys) = (case decimal_value a xs of None \<Rightarrow> None | Some b \<Rightarrow> decimal_value b ys)"
  by (induction a xs rule: decimal_value.induct) (auto split: option.splits)

lemma decimal_value_decimal: "decimal_value 0 (decimal n) = Some n"
proof (induction n rule: decimal.induct)
  case (1 n)
  show ?case
    using 1 by (subst decimal.simps) (auto simp: decimal_value_append digit_value_char)
qed

lemma decimal_inj: "decimal m = decimal n \<longleftrightarrow> m = n"
  by (metis decimal_value_decimal option.inject)

lemma decimal_digits: "c \<in> set (decimal n) \<Longrightarrow> \<exists>d < 10. c = digit_char d"
proof (induction n rule: decimal.induct)
  case (1 n)
  from 1(2) show ?case
    by (subst (asm) decimal.simps) (use 1(1) in \<open>auto split: if_splits intro: exI [of _ "n mod 10"]\<close>)
qed

lemma decimal_nonempty [simp]: "decimal n \<noteq> []"
  by (subst decimal.simps) simp

lemma digit_char_sign: "d < 10 \<Longrightarrow> digit_char d \<noteq> CHR ''-'' \<and> digit_char d \<noteq> CHR ''+''"
proof -
  assume "d < 10"
  then have "digit_value (digit_char d) = Some d" by (rule digit_value_char)
  moreover have "digit_value (CHR ''-'') = None" "digit_value (CHR ''+'') = None" by (simp_all add: digit_value_def)
  ultimately show ?thesis by (metis option.distinct(1))
qed

lemma atoi_itoa: "int64_ok x \<Longrightarrow> atoi (itoa x) = Some x"
proof (cases "x < 0")
  case False
  assume x: "int64_ok x"
  obtain c s where cs: "decimal (nat x) = c # s" by (cases "decimal (nat x)") auto
  then have "c \<noteq> CHR ''-'' \<and> c \<noteq> CHR ''+''"
    using decimal_digits [of c "nat x"] digit_char_sign by auto
  with cs x False decimal_value_decimal [of "nat x"] show ?thesis by (simp add: atoi_def itoa_def)
next
  case True
  assume "int64_ok x"
  with True decimal_value_decimal [of "nat (- x)"] show ?thesis by (simp add: atoi_def itoa_def)
qed

lemma itoa_inj: "int64_ok x \<Longrightarrow> int64_ok y \<Longrightarrow> itoa x = itoa y \<longleftrightarrow> x = y"
  by (metis atoi_itoa option.inject)

lemma atoi_ok: "atoi s = Some x \<Longrightarrow> int64_ok x"
  by (auto simp: atoi_def Let_def split: option.splits if_splits)

subsection \<open>Errors and results\<close>

lemma errors_is_refl [simp]: "errors_is e e"
  by (cases e) auto

lemma res_bind_Ok [simp]: "res_bind x f = Ok y \<longleftrightarrow> (\<exists>a. x = Ok a \<and> f a = Ok y)"
  by (cases x) auto

lemma res_wrap_Ok [simp]: "res_wrap m x = Ok y \<longleftrightarrow> x = Ok y"
  by (cases x) auto

lemma wrap64_id [simp]: "int64_ok x \<Longrightarrow> wrap64 x = x"
  by (simp add: wrap64_def int64_ok_def)

lemma wrap64_ok [simp]: "int64_ok (wrap64 x)"
proof -
  have "0 \<le> (x + 2 ^ 63) mod 2 ^ 64" and "(x + 2 ^ 63) mod 2 ^ 64 < (2 :: int) ^ 64"
    by simp_all
  then show ?thesis by (simp add: wrap64_def int64_ok_def)
qed

lemma has_prefix_iff: "has_prefix p s \<longleftrightarrow> (\<exists>r. s = p @ r)"
  by (induction p s rule: has_prefix.induct) auto

lemma contains_iff: "contains s sub \<longleftrightarrow> (\<exists>a b. s = a @ sub @ b)"
proof (induction s)
  case Nil
  then show ?case by auto
next
  case (Cons c s)
  have "(\<exists>a b. c # s = a @ sub @ b) \<longleftrightarrow> (\<exists>b. c # s = sub @ b) \<or> (\<exists>a b. s = a @ sub @ b)"
    by (metis append_Cons append_Nil list.sel(3) neq_Nil_conv)
  then show ?case using Cons by (simp add: has_prefix_iff)
qed

lemma index_byte_Some:
  "index_byte c s = Some i \<Longrightarrow> i < length s \<and> s ! i = c \<and> c \<notin> set (take i s)"
  by (induction s arbitrary: i) (auto split: if_splits)

lemma index_byte_None: "index_byte c s = None \<longleftrightarrow> c \<notin> set s"
  by (induction s) auto

lemma last_index_None: "last_index c s = None \<longleftrightarrow> c \<notin> set s"
  by (induction s) (auto split: option.splits)

lemma last_index_Some:
  "last_index c s = Some i \<Longrightarrow> i < length s \<and> s ! i = c \<and> c \<notin> set (drop (Suc i) s)"
proof (induction s arbitrary: i)
  case (Cons x s)
  then show ?case
    by (cases "last_index c s") (auto simp: last_index_None split: if_splits)
qed simp

lemma last_index_append_notin:
  "c \<notin> set ys \<Longrightarrow> last_index c (xs @ c # ys) = Some (length xs)"
  by (induction xs) (simp_all add: last_index_None [THEN iffD2])

subsection \<open>White space\<close>

lemma space_runes_chars: "space_runes =
    [[CHR 0x09], [CHR 0x0A], [CHR 0x0B], [CHR 0x0C], [CHR 0x0D], [CHR '' ''], [CHR 0xC2, CHR 0x85], [CHR 0xC2, CHR 0xA0], [CHR 0xE1, CHR 0x9A, CHR 0x80],
     [CHR 0xE2, CHR 0x80, CHR 0x80], [CHR 0xE2, CHR 0x80, CHR 0x81], [CHR 0xE2, CHR 0x80, CHR 0x82], [CHR 0xE2, CHR 0x80, CHR 0x83],
     [CHR 0xE2, CHR 0x80, CHR 0x84], [CHR 0xE2, CHR 0x80, CHR 0x85], [CHR 0xE2, CHR 0x80, CHR 0x86], [CHR 0xE2, CHR 0x80, CHR 0x87],
     [CHR 0xE2, CHR 0x80, CHR 0x88], [CHR 0xE2, CHR 0x80, CHR 0x89], [CHR 0xE2, CHR 0x80, CHR 0x8A], [CHR 0xE2, CHR 0x80, CHR 0xA8], [CHR 0xE2, CHR 0x80, CHR 0xA9],
     [CHR 0xE2, CHR 0x80, CHR 0xAF], [CHR 0xE2, CHR 0x81, CHR 0x9F], [CHR 0xE3, CHR 0x80, CHR 0x80]]"
  by (simp add: space_runes_def bytes_def char_of_def bit_numeral_rec bit_Suc_0_iff)

end
