(* ===== verification/Telemetry.thy ===== *)
theory Telemetry
  imports Prelude
begin

text \<open>
  What the service tells its three pillars. The Prometheus client, the OpenTelemetry SDK and the
  final \<open>slog\<close> sink are libraries outside the repository, so the model records the calls made to
  them, in order, as a list of \<open>effect\<close> values: a metric call names the metric it was made
  on (its subsystem, name, kind and label names as given to the constructor) and its label values,
  a span call names the span, a log call its level, the span carried by the context it was given
  (\<^term>\<open>None\<close> for the variants without a context), its message and its attributes. The
  second half counts such calls: \<open>ctr\<close> is the amount a trace adds to one counter series.
  \<open>traceExemplar\<close> and its two users are internal/metrics/exemplar.go.
\<close>

section \<open>Definitions\<close>

subsection \<open>Levels and log attributes\<close>

datatype level = Level (level_int: int)

abbreviation LevelDebug :: level where "LevelDebug \<equiv> Level (- 4)"
abbreviation LevelInfo :: level where "LevelInfo \<equiv> Level 0"
abbreviation LevelWarn :: level where "LevelWarn \<equiv> Level 4"
abbreviation LevelError :: level where "LevelError \<equiv> Level 8"

instantiation level :: linorder
begin

definition less_eq_level :: "level \<Rightarrow> level \<Rightarrow> bool" where
  "less_eq_level a b \<longleftrightarrow> level_int a \<le> level_int b"

definition less_level :: "level \<Rightarrow> level \<Rightarrow> bool" where
  "less_level a b \<longleftrightarrow> level_int a < level_int b"

instance
  by standard (auto simp: less_eq_level_def less_level_def level.expand)

end

datatype attr_val =
    AStr string
  | AInt int
  | AErr goerr
  | ADur duration
  | ABool bool
  | AMillis duration \<comment> \<open>\<open>float64(d.Microseconds())/1000\<close>\<close>
  | AStack \<comment> \<open>\<open>string(debug.Stack())\<close>\<close>
  | AStrs "string list"
  | ASource string int \<comment> \<open>\<open>slog.Source\<close>: file and line\<close>
  | AGroup "(string \<times> attr_val) list" \<comment> \<open>a group of attributes\<close>

type_synonym attr = "string \<times> attr_val"

subsection \<open>Metrics\<close>

datatype metric_kind = CounterKind | GaugeKind | HistogramKind

record mdesc =
  Subsystem :: string
  Name :: string
  Kind :: metric_kind
  LabelNames :: "string list"

datatype mval = VNum int | VSeconds duration

datatype mcall =
    WithLabels mdesc "string list" \<comment> \<open>\<open>v.WithLabelValues(...)\<close> alone: creates the series\<close>
  | Inc mdesc "string list"
  | Add mdesc "string list" int "string option" \<comment> \<open>amount and exemplar trace id\<close>
  | Observe mdesc "string list" mval "string option" \<comment> \<open>value and exemplar trace id\<close>
  | GaugeSet mdesc "string list" mval
  | GaugeInc mdesc
  | GaugeDec mdesc

subsection \<open>Spans\<close>

datatype span_code = CodeOk | CodeError

record span_context =
  TraceID :: string
  SpanID :: string
  IsSampled :: bool

datatype effect =
    Metric mcall
  | Log level "nat option" string "attr list"
  | SpanStart nat "nat option" string "attr list" \<comment> \<open>span, parent, name, attributes\<close>
  | SpanAttrs nat "attr list"
  | SpanError nat goerr
  | SpanStatus nat span_code string
  | SpanName nat string
  | SpanEvent nat string "attr list"
  | SpanEnd nat

subsection \<open>Exemplars\<close>

text \<open>
  \<open>SpanContextFromContext\<close> returns the zero span context, which is not sampled, when the context
  carries no span: \<^term>\<open>None\<close> here.
\<close>

definition traceExemplar :: "span_context option \<Rightarrow> string option" where
  "traceExemplar sc =
     (case sc of
        None \<Rightarrow> None
      | Some c \<Rightarrow> if \<not> IsSampled c then None else Some (TraceID c))"

definition observeExemplar :: "span_context option \<Rightarrow> mdesc \<Rightarrow> string list \<Rightarrow> mval \<Rightarrow> mcall" where
  "observeExemplar sc d ls v =
     (case traceExemplar sc of
        Some t \<Rightarrow>
          (if Kind d = HistogramKind \<comment> \<open>implements \<open>ExemplarObserver\<close>\<close>
           then Observe d ls v (Some t) else Observe d ls v None)
      | None \<Rightarrow> Observe d ls v None)"

definition addExemplar :: "span_context option \<Rightarrow> mdesc \<Rightarrow> string list \<Rightarrow> int \<Rightarrow> mcall" where
  "addExemplar sc d ls n =
     (case traceExemplar sc of
        Some t \<Rightarrow>
          (if Kind d = CounterKind \<comment> \<open>implements \<open>ExemplarAdder\<close>\<close>
           then Add d ls n (Some t) else Add d ls n None)
      | None \<Rightarrow> Add d ls n None)"

subsection \<open>Reading a trace\<close>

fun call_desc :: "mcall \<Rightarrow> mdesc" where
  "call_desc (WithLabels d ls) = d"
| "call_desc (Inc d ls) = d"
| "call_desc (Add d ls n ex) = d"
| "call_desc (Observe d ls v ex) = d"
| "call_desc (GaugeSet d ls v) = d"
| "call_desc (GaugeInc d) = d"
| "call_desc (GaugeDec d) = d"

fun call_labels :: "mcall \<Rightarrow> string list" where
  "call_labels (WithLabels d ls) = ls"
| "call_labels (Inc d ls) = ls"
| "call_labels (Add d ls n ex) = ls"
| "call_labels (Observe d ls v ex) = ls"
| "call_labels (GaugeSet d ls v) = ls"
| "call_labels (GaugeInc d) = []"
| "call_labels (GaugeDec d) = []"

fun call_delta :: "mcall \<Rightarrow> int" where
  "call_delta (Inc d ls) = 1"
| "call_delta (Add d ls n ex) = n"
| "call_delta _ = 0"

definition delta :: "mdesc \<Rightarrow> string list \<Rightarrow> effect \<Rightarrow> int" where
  "delta d ls e =
     (case e of
        Metric c \<Rightarrow> if call_desc c = d \<and> call_labels c = ls then call_delta c else 0
      | _ \<Rightarrow> 0)"

definition ctr :: "mdesc \<Rightarrow> string list \<Rightarrow> effect list \<Rightarrow> int" where
  "ctr d ls es = sum_list (map (delta d ls) es)"

text \<open>
  The client panics on a wrong number of label values, and a counter on a negative amount; a call
  that does neither is well formed for the metrics \<open>ds\<close>.
\<close>

fun call_fits :: "mcall \<Rightarrow> bool" where
  "call_fits (WithLabels d ls) = True"
| "call_fits (Inc d ls) = (Kind d = CounterKind)"
| "call_fits (Add d ls n ex) = (Kind d = CounterKind \<and> 0 \<le> n)"
| "call_fits (Observe d ls v ex) = (Kind d = HistogramKind)"
| "call_fits (GaugeSet d ls v) = (Kind d = GaugeKind)"
| "call_fits (GaugeInc d) = (Kind d = GaugeKind)"
| "call_fits (GaugeDec d) = (Kind d = GaugeKind)"

definition call_ok :: "mdesc list \<Rightarrow> mcall \<Rightarrow> bool" where
  "call_ok ds c \<longleftrightarrow> call_desc c \<in> set ds \<and> length (call_labels c) = length (LabelNames (call_desc c))
     \<and> call_fits c"

fun metric_calls :: "effect list \<Rightarrow> mcall list" where
  "metric_calls [] = []"
| "metric_calls (Metric c # es) = c # metric_calls es"
| "metric_calls (_ # es) = metric_calls es"

section \<open>Lemmas\<close>

lemma Level_le [simp]: "Level a \<le> Level b \<longleftrightarrow> a \<le> b"
  by (simp add: less_eq_level_def)

lemma Level_less [simp]: "Level a < Level b \<longleftrightarrow> a < b"
  by (simp add: less_level_def)

lemma ctr_Nil [simp, telemetry_simps]: "ctr d ls [] = 0"
  by (simp add: ctr_def)

lemma ctr_Cons [simp, telemetry_simps]: "ctr d ls (e # es) = delta d ls e + ctr d ls es"
  by (simp add: ctr_def)

lemma ctr_append [simp, telemetry_simps]: "ctr d ls (es @ fs) = ctr d ls es + ctr d ls fs"
  by (simp add: ctr_def)

lemma ctr_replicate [simp, telemetry_simps]:
  "ctr d ls (replicate n e) = int n * delta d ls e"
  by (induction n) (auto simp: algebra_simps)

lemma ctr_concat_replicate [telemetry_simps]:
  "ctr d ls (concat (replicate n es)) = int n * ctr d ls es"
  by (induction n) (auto simp: algebra_simps)

lemma ctr_concat: "ctr d ls (concat ess) = sum_list (map (ctr d ls) ess)"
  by (induction ess) auto

lemma delta_simps [simp, telemetry_simps]:
  "delta d ls (Log l c m as) = 0"
  "delta d ls (SpanStart s p n as) = 0"
  "delta d ls (SpanAttrs s as) = 0"
  "delta d ls (SpanError s e) = 0"
  "delta d ls (SpanStatus s k m) = 0"
  "delta d ls (SpanName s n) = 0"
  "delta d ls (SpanEvent s n as) = 0"
  "delta d ls (SpanEnd s) = 0"
  by (simp_all add: delta_def)

lemma delta_Metric [telemetry_simps]:
  "delta d ls (Metric c) = (if call_desc c = d \<and> call_labels c = ls then call_delta c else 0)"
  by (simp add: delta_def)

lemma metric_calls_append [simp]: "metric_calls (es @ fs) = metric_calls es @ metric_calls fs"
  by (induction es rule: metric_calls.induct) auto

lemma set_metric_calls: "c \<in> set (metric_calls es) \<longleftrightarrow> Metric c \<in> set es"
  by (induction es rule: metric_calls.induct) auto

lemma observeExemplar_sel [simp, telemetry_simps]:
  "call_desc (observeExemplar sc d ls v) = d"
  "call_labels (observeExemplar sc d ls v) = ls"
  "call_delta (observeExemplar sc d ls v) = 0"
  "call_fits (observeExemplar sc d ls v) = (Kind d = HistogramKind)"
  by (simp_all add: observeExemplar_def split: option.split)

lemma addExemplar_sel [simp, telemetry_simps]:
  "call_desc (addExemplar sc d ls n) = d"
  "call_labels (addExemplar sc d ls n) = ls"
  "call_delta (addExemplar sc d ls n) = n"
  "call_fits (addExemplar sc d ls n) = (Kind d = CounterKind \<and> 0 \<le> n)"
  by (simp_all add: addExemplar_def split: option.split)

end
