(* ===== verification/Domain.thy ===== *)
theory Domain
  imports Telemetry
begin

text \<open>
  internal/domain/order.go: the statuses and legal transitions, the currency allowlist, the order
  and new-order structs, validation and \<open>Build\<close>. A \<open>Status\<close> is a Go string type, so
  a value outside the five constants is representable and \<open>Valid\<close> is what rules it out.
  The clock and the fresh id that \<open>Build\<close> reads are arguments.
\<close>

section \<open>Definitions\<close>

type_synonym status = string

definition StatusPending :: status where "StatusPending = ''pending''"
definition StatusProcessing :: status where "StatusProcessing = ''processing''"
definition StatusPaid :: status where "StatusPaid = ''paid''"
definition StatusFailed :: status where "StatusFailed = ''failed''"
definition StatusCancelled :: status where "StatusCancelled = ''cancelled''"

definition AllStatuses :: "status list" where
  "AllStatuses = [StatusPending, StatusProcessing, StatusPaid, StatusFailed, StatusCancelled]"

definition AllTransitions :: "(string \<times> string) list" where
  "AllTransitions =
     [(''new'', StatusPending),
      (StatusPending, StatusProcessing),
      (StatusProcessing, StatusPaid),
      (StatusProcessing, StatusFailed),
      (StatusPending, StatusCancelled),
      (StatusProcessing, StatusPending)]"

definition SupportedCurrencies :: "string list" where
  "SupportedCurrencies = [''USD'', ''EUR'', ''GBP'', ''INR'', ''JPY'']"

fun currency_loop :: "string list \<Rightarrow> string \<Rightarrow> bool" where
  "currency_loop [] c = False"
| "currency_loop (s # ss) c = (if s = c then True else currency_loop ss c)"

definition CurrencySupported :: "string \<Rightarrow> bool" where
  "CurrencySupported c = currency_loop SupportedCurrencies c"

definition Valid :: "status \<Rightarrow> bool" where
  "Valid s =
     (if s = StatusPending \<or> s = StatusProcessing \<or> s = StatusPaid \<or> s = StatusFailed
         \<or> s = StatusCancelled
      then True else False)"

record Order =
  ID :: uuid
  CustomerID :: string
  Status :: status
  AmountCents :: int \<comment> \<open>\<open>int64\<close>\<close>
  Currency :: string
  CreatedAt :: time
  UpdatedAt :: time

record NewOrder =
  NewCustomerID :: string
  NewAmountCents :: int \<comment> \<open>\<open>int64\<close>\<close>
  NewCurrency :: string

definition Validate :: "NewOrder \<Rightarrow> goerr option" where
  "Validate n =
     (if NewCustomerID n = '''' then Some (ValidationError ''customer_id'' ''required'')
      else if length (NewCustomerID n) > 64 then Some (ValidationError ''customer_id'' ''too_long'')
      else if NewAmountCents n \<le> 0 then Some (ValidationError ''amount_cents'' ''must_be_positive'')
      else if NewAmountCents n > 10000000 then Some (ValidationError ''amount_cents'' ''exceeds_limit'')
      else if length (NewCurrency n) \<noteq> 3 then Some (ValidationError ''currency'' ''must_be_iso4217'')
      else if \<not> CurrencySupported (NewCurrency n)
        then Some (ValidationError ''currency'' ''unsupported_currency'')
      else None)"

text \<open>\<open>ValidationError.Error\<close>, of the field and the reason.\<close>

definition ValidationError_Error :: "string \<Rightarrow> string \<Rightarrow> string" where
  "ValidationError_Error field reason = field @ '': '' @ reason"

definition Build :: "uuid \<Rightarrow> time \<Rightarrow> NewOrder \<Rightarrow> Order" where
  "Build fresh now n =
     \<lparr>ID = fresh, CustomerID = NewCustomerID n, Status = StatusPending,
      AmountCents = NewAmountCents n, Currency = NewCurrency n,
      CreatedAt = now, UpdatedAt = now\<rparr>"

section \<open>Lemmas\<close>

lemmas status_defs =
  StatusPending_def StatusProcessing_def StatusPaid_def StatusFailed_def StatusCancelled_def

lemma status_distinct [simp]:
  "StatusPending \<noteq> StatusProcessing"
  "StatusPending \<noteq> StatusPaid"
  "StatusPending \<noteq> StatusFailed"
  "StatusPending \<noteq> StatusCancelled"
  "StatusProcessing \<noteq> StatusPending"
  "StatusProcessing \<noteq> StatusPaid"
  "StatusProcessing \<noteq> StatusFailed"
  "StatusProcessing \<noteq> StatusCancelled"
  "StatusPaid \<noteq> StatusPending"
  "StatusPaid \<noteq> StatusProcessing"
  "StatusPaid \<noteq> StatusFailed"
  "StatusPaid \<noteq> StatusCancelled"
  "StatusFailed \<noteq> StatusPending"
  "StatusFailed \<noteq> StatusProcessing"
  "StatusFailed \<noteq> StatusPaid"
  "StatusFailed \<noteq> StatusCancelled"
  "StatusCancelled \<noteq> StatusPending"
  "StatusCancelled \<noteq> StatusProcessing"
  "StatusCancelled \<noteq> StatusPaid"
  "StatusCancelled \<noteq> StatusFailed"
  "''new'' \<noteq> StatusPending" "StatusPending \<noteq> ''new''"
  "''new'' \<noteq> StatusProcessing" "StatusProcessing \<noteq> ''new''"
  "''new'' \<noteq> StatusPaid" "StatusPaid \<noteq> ''new''"
  "''new'' \<noteq> StatusFailed" "StatusFailed \<noteq> ''new''"
  "''new'' \<noteq> StatusCancelled" "StatusCancelled \<noteq> ''new''"
  "StatusPending \<noteq> []" "[] \<noteq> StatusPending"
  "StatusProcessing \<noteq> []" "[] \<noteq> StatusProcessing"
  "StatusPaid \<noteq> []" "[] \<noteq> StatusPaid"
  "StatusFailed \<noteq> []" "[] \<noteq> StatusFailed"
  "StatusCancelled \<noteq> []" "[] \<noteq> StatusCancelled"
  by (simp_all add: status_defs)

lemma currency_loop_iff: "currency_loop ss c \<longleftrightarrow> c \<in> set ss"
  by (induction ss) auto

lemma CurrencySupported_iff: "CurrencySupported c \<longleftrightarrow> c \<in> set SupportedCurrencies"
  by (simp add: CurrencySupported_def currency_loop_iff)

lemma Valid_iff: "Valid s \<longleftrightarrow> s \<in> set AllStatuses"
  by (auto simp: Valid_def AllStatuses_def)

lemma AllStatuses_in [simp]:
  "StatusPending \<in> set AllStatuses" "StatusProcessing \<in> set AllStatuses" "StatusPaid \<in> set AllStatuses"
  "StatusFailed \<in> set AllStatuses" "StatusCancelled \<in> set AllStatuses"
  by (simp_all add: AllStatuses_def)

lemma Valid_consts [simp]:
  "Valid StatusPending" "Valid StatusProcessing" "Valid StatusPaid" "Valid StatusFailed"
  "Valid StatusCancelled"
  by (simp_all add: Valid_def)

lemma Build_sel [simp]:
  "ID (Build i t n) = i" "CustomerID (Build i t n) = NewCustomerID n"
  "Status (Build i t n) = StatusPending" "AmountCents (Build i t n) = NewAmountCents n"
  "Currency (Build i t n) = NewCurrency n" "CreatedAt (Build i t n) = t" "UpdatedAt (Build i t n) = t"
  by (simp_all add: Build_def)

lemma Build_ID [simp]: "(Build i t n)\<lparr>ID := i\<rparr> = Build i t n"
  by (simp add: Build_def)

lemma Validate_None_iff:
  "Validate n = None \<longleftrightarrow>
     0 < length (NewCustomerID n) \<and> length (NewCustomerID n) \<le> 64 \<and>
     0 < NewAmountCents n \<and> NewAmountCents n \<le> 10000000 \<and>
     NewCurrency n \<in> set SupportedCurrencies"
  by (auto simp: Validate_def CurrencySupported_iff SupportedCurrencies_def)

end
