(* ===== verification/Orders_Store.thy ===== *)
theory Orders_Store
  imports Domain
begin

text \<open>
  internal/store/orders.go over the schema of migrations/0001_init.sql. The orders table is the
  list of its rows; each SQL constant is one \<open>sql_\<close> function on it, with the constraints of the
  schema as SQL errors, and each method of \<open>Store\<close> runs its statement through the pool and
  turns the answer into Go values.

  What the database decides freely is an argument: \<open>pg_reply\<close> says whether the round trip
  succeeds, fails before the statement is executed, or is lost after it committed (the connection
  dies, the context is cancelled while the answer is in flight); a rank of the ids gives the order in
  which \<open>scan\<close> reads the rows (any order of a table with distinct ids has such a rank), which
  decides the ties of \<open>ORDER BY\<close> and the order of \<open>RETURNING\<close>; \<open>locked\<close> are the
  rows that \<open>SKIP LOCKED\<close> skips. The UUID
  library, the casts of the server and the stored precision of a timestamp are the arguments
  collected in \<open>uuid_lib\<close> and \<open>pgtime\<close>.
\<close>

section \<open>Definitions\<close>

subsection \<open>The table, the server and the driver\<close>

type_synonym table = "Order list"

record uuid_lib =
  uparse :: "string \<Rightarrow> uuid option" \<comment> \<open>\<open>uuid.Parse\<close>\<close>
  ustring :: "uuid \<Rightarrow> string" \<comment> \<open>\<open>UUID.String\<close>\<close>
  pgtext :: "uuid \<Rightarrow> string" \<comment> \<open>\<open>id::text\<close>\<close>
  pgcast :: "string \<Rightarrow> uuid option" \<comment> \<open>\<open>$1::uuid\<close>\<close>

definition uuid_lib_ok :: "uuid_lib \<Rightarrow> bool" where
  "uuid_lib_ok U \<longleftrightarrow>
     (\<forall>u. pgcast U (ustring U u) = Some u) \<and> (\<forall>u. uparse U (pgtext U u) = Some u)"

datatype pg_reply =
    ReplyOk
  | ReplyFail goerr \<comment> \<open>no connection, or the statement could not be sent\<close>
  | ReplyRefused goerr \<comment> \<open>sent, not executed; the error is found when the answer is read\<close>
  | ReplyLost nat goerr \<comment> \<open>committed; so many rows arrived and then the error\<close>
  | ReplyPanic string \<comment> \<open>the driver panicked before executing it\<close>

definition pg_table :: "pg_reply \<Rightarrow> ('s \<Rightarrow> goerr + ('s \<times> 'a)) \<Rightarrow> 's \<Rightarrow> 's" where
  "pg_table r stmt t =
     (let executed = (case stmt t of Inl e \<Rightarrow> t | Inr (t', x) \<Rightarrow> t') in
      case r of ReplyOk \<Rightarrow> executed | ReplyLost n e \<Rightarrow> executed | _ \<Rightarrow> t)"

text \<open>\<open>pool.Exec\<close> and \<open>pool.QueryRow(...).Scan\<close>: one answer, with the table afterwards.\<close>

definition pg_run :: "pg_reply \<Rightarrow> ('s \<Rightarrow> goerr + ('s \<times> 'a)) \<Rightarrow> 's \<Rightarrow> 'a res \<times> 's" where
  "pg_run r stmt t =
     (case r of
        ReplyFail e \<Rightarrow> Err e
      | ReplyRefused e \<Rightarrow> Err e
      | ReplyPanic m \<Rightarrow> Panicked m
      | ReplyOk \<Rightarrow> (case stmt t of Inl e \<Rightarrow> Err e | Inr (t', x) \<Rightarrow> Ok x)
      | ReplyLost n e \<Rightarrow> (case stmt t of Inl e' \<Rightarrow> Err e' | Inr (t', x) \<Rightarrow> Err e), pg_table r stmt t)"

text \<open>
  \<open>pool.Query\<close>: the error it returns, or the rows that \<open>rows.Next\<close> delivers and the
  error that \<open>rows.Err\<close> reports after them, with the table afterwards.
\<close>

definition pg_query :: "pg_reply \<Rightarrow> ('s \<Rightarrow> goerr + ('s \<times> 'a list)) \<Rightarrow> 's
    \<Rightarrow> ('a list \<times> goerr option) res \<times> 's" where
  "pg_query r stmt t =
     (case r of
        ReplyFail e \<Rightarrow> Err e
      | ReplyRefused e \<Rightarrow> Ok ([], Some e)
      | ReplyPanic m \<Rightarrow> Panicked m
      | ReplyOk \<Rightarrow> (case stmt t of Inl e \<Rightarrow> Ok ([], Some e) | Inr (t', rows) \<Rightarrow> Ok (rows, None))
      | ReplyLost n e \<Rightarrow>
          (case stmt t of Inl e' \<Rightarrow> Ok ([], Some e') | Inr (t', rows) \<Rightarrow> Ok (take n rows, Some e)),
      pg_table r stmt t)"

text \<open>A round trip whose statement committed although the client saw an error.\<close>

definition lost :: "pg_reply \<Rightarrow> bool" where
  "lost r = (case r of ReplyLost n e \<Rightarrow> True | _ \<Rightarrow> False)"

abbreviation pg_error :: "string \<Rightarrow> goerr" where
  "pg_error code \<equiv> PgError code ''ERROR''"

subsection \<open>The schema\<close>

definition cont_byte :: "char \<Rightarrow> bool" where
  "cont_byte c \<longleftrightarrow> (let n = of_char c :: nat in 128 \<le> n \<and> n < 192)"

definition char_length :: "string \<Rightarrow> nat" where
  "char_length s = length (filter (\<lambda>c. \<not> cont_byte c) s)"

definition row_check :: "Order \<Rightarrow> bool" where
  "row_check r \<longleftrightarrow>
     Status r \<in> {StatusPending, StatusProcessing, StatusPaid, StatusFailed, StatusCancelled} \<and>
     0 < AmountCents r \<and> char_length (Currency r) = 3"

text \<open>
  A \<open>TEXT\<close> value cannot hold the byte zero. (It must also be valid UTF-8, which every string
  that the JSON decoder produces is: \<open>decode_order_ok\<close> in Order_Json.)
\<close>

definition text_ok :: "string \<Rightarrow> bool" where
  "text_ok s \<longleftrightarrow> CHR 0x00 \<notin> set s"

definition table_ok :: "table \<Rightarrow> bool" where
  "table_ok t \<longleftrightarrow> distinct (map ID t) \<and> (\<forall>r \<in> set t. row_check r)"

subsection \<open>The statements\<close>

definition sql_insert :: "uuid_lib \<Rightarrow> (time \<Rightarrow> time) \<Rightarrow> string \<Rightarrow> Order \<Rightarrow> table \<Rightarrow> goerr + (table \<times> unit)" where
  "sql_insert U pgtime idtext r t =
     (case pgcast U idtext of
        None \<Rightarrow> Inl (pg_error ''22P02'')
      | Some i \<Rightarrow>
          (let row = r\<lparr>ID := i, CreatedAt := pgtime (CreatedAt r), UpdatedAt := pgtime (UpdatedAt r)\<rparr> in
           if \<not> text_ok (CustomerID r) \<or> \<not> text_ok (Status r) \<or> \<not> text_ok (Currency r)
             then Inl (pg_error ''22021'')
           else if \<not> row_check row then Inl (pg_error ''23514'')
           else if i \<in> set (map ID t) then Inl (pg_error ''23505'')
           else Inr (t @ [row], ())))"

definition sql_get :: "uuid_lib \<Rightarrow> string \<Rightarrow> table \<Rightarrow> goerr + (table \<times> (string \<times> Order) list)" where
  "sql_get U idtext t =
     (case pgcast U idtext of
        None \<Rightarrow> Inl (pg_error ''22P02'')
      | Some i \<Rightarrow> Inr (t, map (\<lambda>r. (pgtext U (ID r), r)) (filter (\<lambda>r. ID r = i) t)))"

definition scan :: "(uuid \<Rightarrow> nat) \<Rightarrow> table \<Rightarrow> table" where
  "scan rank t = sort_key (rank \<circ> ID) t"

definition sql_list :: "uuid_lib \<Rightarrow> (uuid \<Rightarrow> nat) \<Rightarrow> string option \<Rightarrow> int \<Rightarrow> int \<Rightarrow> table
    \<Rightarrow> goerr + (table \<times> (string \<times> Order) list)" where
  "sql_list U rank st limit off t =
     (if limit < 0 then Inl (pg_error ''2201W'')
      else if off < 0 then Inl (pg_error ''2201X'')
      else
        let hits = filter (\<lambda>r. case st of None \<Rightarrow> True | Some s \<Rightarrow> Status r = s) (scan rank t);
            sorted_hits = sort_key (\<lambda>r. - CreatedAt r) hits
        in Inr (t, map (\<lambda>r. (pgtext U (ID r), r)) (take (nat limit) (drop (nat off) sorted_hits))))"

definition sql_count :: "table \<Rightarrow> goerr + (table \<times> (string \<times> int) list)" where
  "sql_count t =
     Inr (t, map (\<lambda>s. (s, int (length (filter (\<lambda>r. Status r = s) t)))) (remdups (map Status t)))"

record claim_env =
  locked :: "uuid list"
  scan_rank :: "uuid \<Rightarrow> nat"
  returning_rank :: "uuid \<Rightarrow> nat"
  claim_now :: time

definition claimable :: "claim_env \<Rightarrow> Order \<Rightarrow> bool" where
  "claimable e r \<longleftrightarrow> Status r = StatusPending \<and> ID r \<notin> set (locked e)"

definition claim_picks :: "claim_env \<Rightarrow> int \<Rightarrow> table \<Rightarrow> Order list" where
  "claim_picks e limit t =
     take (nat limit) (sort_key CreatedAt (filter (claimable e) (scan (scan_rank e) t)))"

definition update_rows :: "(Order \<Rightarrow> bool) \<Rightarrow> status \<Rightarrow> time \<Rightarrow> table \<Rightarrow> table" where
  "update_rows P st now t = map (\<lambda>r. if P r then r\<lparr>Status := st, UpdatedAt := now\<rparr> else r) t"

definition claim_ids :: "claim_env \<Rightarrow> int \<Rightarrow> table \<Rightarrow> uuid list" where
  "claim_ids e limit t = map ID (claim_picks e limit t)"

definition claim_table :: "claim_env \<Rightarrow> int \<Rightarrow> table \<Rightarrow> table" where
  "claim_table e limit t =
     update_rows (\<lambda>r. ID r \<in> set (claim_ids e limit t)) StatusProcessing (claim_now e) t"

definition claim_rows :: "claim_env \<Rightarrow> int \<Rightarrow> table \<Rightarrow> Order list" where
  "claim_rows e limit t =
     scan (returning_rank e) (filter (\<lambda>r. ID r \<in> set (claim_ids e limit t)) (claim_table e limit t))"

definition sql_claim :: "uuid_lib \<Rightarrow> claim_env \<Rightarrow> int \<Rightarrow> table
    \<Rightarrow> goerr + (table \<times> (string \<times> Order) list)" where
  "sql_claim U e limit t =
     (if limit < 0 then Inl (pg_error ''2201W'')
      else Inr (claim_table e limit t, map (\<lambda>r. (pgtext U (ID r), r)) (claim_rows e limit t)))"

definition sql_mark :: "uuid_lib \<Rightarrow> string \<Rightarrow> string \<Rightarrow> time \<Rightarrow> table \<Rightarrow> goerr + (table \<times> nat)" where
  "sql_mark U idtext st now t =
     (case pgcast U idtext of
        None \<Rightarrow> Inl (pg_error ''22P02'')
      | Some i \<Rightarrow>
          (let hit = (\<lambda>r. ID r = i \<and> Status r = StatusProcessing);
               t' = update_rows hit st now t
           in if \<not> text_ok st then Inl (pg_error ''22021'')
              else if \<exists>r \<in> set t. hit r \<and> \<not> row_check (r\<lparr>Status := st, UpdatedAt := now\<rparr>)
                then Inl (pg_error ''23514'')
              else Inr (t', length (filter hit t))))"

subsection \<open>The methods of Store\<close>

definition scanOrder :: "uuid_lib \<Rightarrow> string \<times> Order \<Rightarrow> Order res" where
  "scanOrder U row =
     (case uparse U (fst row) of
        None \<Rightarrow> Err (Wrap ''parse id'' (Plain ''invalid UUID''))
      | Some i \<Rightarrow> Ok ((snd row)\<lparr>ID := i\<rparr>))"

fun scan_rows :: "uuid_lib \<Rightarrow> string \<Rightarrow> (string \<times> Order) list \<Rightarrow> Order list res" where
  "scan_rows U m [] = Ok []"
| "scan_rows U m (row # rows) =
     res_bind (res_wrap m (scanOrder U row))
       (\<lambda>x. res_bind (scan_rows U m rows) (\<lambda>xs. Ok (x # xs)))"

text \<open>\<open>make([]T, 0, limit)\<close> panics when the capacity is negative.\<close>

definition make_slice :: "int \<Rightarrow> unit res" where
  "make_slice limit = (if limit < 0 then Panicked ''makeslice: cap out of range'' else Ok ())"

definition ClaimPendingOrders :: "uuid_lib \<Rightarrow> pg_reply \<Rightarrow> claim_env \<Rightarrow> int \<Rightarrow> table
    \<Rightarrow> Order list res \<times> table" where
  "ClaimPendingOrders U r e limit t =
     (case pg_query r (sql_claim U e limit) t of (q, t') \<Rightarrow>
       (res_bind (res_wrap ''store: claim pending'' q)
          (\<lambda>(rows, err). res_bind (make_slice limit)
            (\<lambda>_. res_bind (scan_rows U ''store: scan claimed order'' rows)
              (\<lambda>out. case err of None \<Rightarrow> Ok out | Some er \<Rightarrow> Err er))), t'))"

definition MarkOrder :: "uuid_lib \<Rightarrow> pg_reply \<Rightarrow> time \<Rightarrow> uuid \<Rightarrow> status \<Rightarrow> table
    \<Rightarrow> unit res \<times> table" where
  "MarkOrder U r now i st t =
     (case pg_run r (sql_mark U (ustring U i) st now) t of (tag, t') \<Rightarrow>
       (res_bind (res_wrap ''store: mark order'' tag)
          (\<lambda>affected. if affected = 0 then Err ErrConflict else Ok ()), t'))"

definition CreateOrder :: "uuid_lib \<Rightarrow> (time \<Rightarrow> time) \<Rightarrow> pg_reply \<Rightarrow> Order \<Rightarrow> table \<Rightarrow> unit res \<times> table" where
  "CreateOrder U pgtime r x t =
     (case pg_run r (sql_insert U pgtime (ustring U (ID x)) x) t of (tag, t') \<Rightarrow>
       (res_wrap ''store: create order'' tag, t'))"

definition GetOrder :: "uuid_lib \<Rightarrow> pg_reply \<Rightarrow> uuid \<Rightarrow> table \<Rightarrow> Order res" where
  "GetOrder U r i t =
     (let row = res_bind (fst (pg_run r (sql_get U (ustring U i)) t))
                  (\<lambda>rows. case rows of [] \<Rightarrow> Err ErrNoRows | x # _ \<Rightarrow> scanOrder U x)
      in case row of
           Err e \<Rightarrow> if errors_is e ErrNoRows then Err ErrNotFound
                     else Err (Wrap ''store: get order'' e)
         | Ok x \<Rightarrow> Ok x
         | Panicked m \<Rightarrow> Panicked m)"

definition ListOrders :: "uuid_lib \<Rightarrow> (uuid \<Rightarrow> nat) \<Rightarrow> pg_reply \<Rightarrow> status \<Rightarrow> int \<Rightarrow> int \<Rightarrow> table
    \<Rightarrow> Order list res" where
  "ListOrders U rank r st limit off t =
     (let statusArg = (if st \<noteq> '''' then Some st else None)
      in res_bind (res_wrap ''store: list orders'' (fst (pg_query r (sql_list U rank statusArg limit off) t)))
           (\<lambda>(rows, err). res_bind (make_slice limit)
             (\<lambda>_. res_bind (scan_rows U ''store: scan order'' rows)
               (\<lambda>out. case err of None \<Rightarrow> Ok out | Some er \<Rightarrow> Err (Wrap ''store: list orders'' er)))))"

fun count_loop :: "(status \<rightharpoonup> int) \<Rightarrow> (string \<times> int) list \<Rightarrow> (status \<rightharpoonup> int)" where
  "count_loop m [] = m"
| "count_loop m ((s, n) # rows) = count_loop (m(s \<mapsto> n)) rows"

definition CountOrdersByStatus :: "pg_reply \<Rightarrow> table \<Rightarrow> (status \<rightharpoonup> int) res" where
  "CountOrdersByStatus r t =
     res_bind (res_wrap ''store: count orders'' (fst (pg_query r sql_count t)))
       (\<lambda>(rows, err). case err of None \<Rightarrow> Ok (count_loop Map.empty rows) | Some er \<Rightarrow> Err er)"

text \<open>\<open>Sleep\<close> reads nothing from the table; the duration only decides how long the round trip takes.\<close>

definition Sleep :: "pg_reply \<Rightarrow> table \<Rightarrow> unit res" where
  "Sleep r t = res_wrap ''store: sleep'' (fst (pg_run r (\<lambda>t. Inr (t, ())) t))"

subsection \<open>Observing the table\<close>

definition status_of :: "table \<Rightarrow> uuid \<Rightarrow> status option" where
  "status_of t i = map_option Status (find (\<lambda>r. ID r = i) t)"

definition in_status :: "status \<Rightarrow> table \<Rightarrow> int" where
  "in_status s t = int (length (filter (\<lambda>r. Status r = s) t))"

text \<open>
  The abstract life cycle: one row may appear as \<open>pending\<close> or move along a transition of
  \<open>AllTransitions\<close>, no row disappears.
\<close>

definition life_step :: "status option \<Rightarrow> status option \<Rightarrow> bool" where
  "life_step a b \<longleftrightarrow>
     a = b \<or>
     (case b of
        None \<Rightarrow> False
      | Some s \<Rightarrow> ((case a of None \<Rightarrow> ''new'' | Some q \<Rightarrow> q), s) \<in> set AllTransitions)"

definition life_cycle :: "table \<Rightarrow> table \<Rightarrow> bool" where
  "life_cycle t t' \<longleftrightarrow> (\<forall>i. life_step (status_of t i) (status_of t' i))"

text \<open>What the server keeps of an inserted order, and the rows a listing selects, newest first.\<close>

definition stored :: "(time \<Rightarrow> time) \<Rightarrow> Order \<Rightarrow> Order" where
  "stored pgtime x = x\<lparr>CreatedAt := pgtime (CreatedAt x), UpdatedAt := pgtime (UpdatedAt x)\<rparr>"

definition hits :: "(uuid \<Rightarrow> nat) \<Rightarrow> status \<Rightarrow> table \<Rightarrow> Order list" where
  "hits rank st t =
     sort_key (\<lambda>r. - CreatedAt r) (filter (\<lambda>r. st = [] \<or> Status r = st) (scan rank t))"

definition matching :: "status \<Rightarrow> table \<Rightarrow> Order list" where
  "matching st t = filter (\<lambda>r. st = [] \<or> Status r = st) t"

section \<open>Lemmas\<close>

subsection \<open>Rows and updates\<close>

lemma scan_mset [simp]: "mset (scan rank t) = mset t"
  by (simp add: scan_def)

lemma scan_set [simp]: "set (scan rank t) = set t"
  by (simp add: scan_def)

lemma scan_filter: "scan rank (filter P t) = filter P (scan rank t)"
  by (simp add: scan_def filter_sort)

lemma update_rows_ID [simp, table_simps]: "map ID (update_rows P st now t) = map ID t"
  by (simp add: update_rows_def)

lemma update_rows_ID_set [simp, table_simps]: "ID ` set (update_rows P st now t) = ID ` set t"
  by (metis list.set_map update_rows_ID)

lemma update_rows_simps [simp, table_simps]:
  "update_rows P st now [] = []"
  "update_rows P st now (r # t) =
     (if P r then r\<lparr>Status := st, UpdatedAt := now\<rparr> else r) # update_rows P st now t"
  by (simp_all add: update_rows_def)

lemma length_update_rows [simp]: "length (update_rows P st now t) = length t"
  by (simp add: update_rows_def)

lemma update_rows_none: "(\<And>r. r \<in> set t \<Longrightarrow> \<not> P r) \<Longrightarrow> update_rows P st now t = t"
  by (induction t) auto

lemma in_update_rows:
  "x \<in> set (update_rows P st now t) \<longleftrightarrow>
     (\<exists>r \<in> set t. x = (if P r then r\<lparr>Status := st, UpdatedAt := now\<rparr> else r))"
  by (auto simp: update_rows_def)

lemma row_check_status [simp]:
  "row_check (r\<lparr>Status := st, UpdatedAt := now\<rparr>) \<longleftrightarrow>
     Valid st \<and> 0 < AmountCents r \<and> char_length (Currency r) = 3"
  by (auto simp: row_check_def Valid_def)

lemma row_checkD: "row_check r \<Longrightarrow> 0 < AmountCents r \<and> char_length (Currency r) = 3"
  by (simp add: row_check_def)

lemma row_check_Valid: "row_check r \<Longrightarrow> Valid (Status r)"
  by (auto simp: row_check_def Valid_def)

lemma update_rows_ok [intro]:
  assumes "table_ok t" "Valid st"
  shows "table_ok (update_rows P st now t)"
  using assms by (auto simp: table_ok_def in_update_rows) (auto simp: row_check_def)

lemma status_of_Nil [simp]: "status_of [] i = None"
  by (simp add: status_of_def)

lemma status_of_Cons [simp]:
  "status_of (r # t) i = (if ID r = i then Some (Status r) else status_of t i)"
  by (simp add: status_of_def)

lemma status_of_append [simp]:
  "status_of (t @ u) i = (case status_of t i of None \<Rightarrow> status_of u i | s \<Rightarrow> s)"
  by (induction t) auto

lemma status_of_None: "status_of t i = None \<longleftrightarrow> i \<notin> set (map ID t)"
  by (induction t) auto

lemma status_of_row: "distinct (map ID t) \<Longrightarrow> r \<in> set t \<Longrightarrow> status_of t (ID r) = Some (Status r)"
  by (induction t) (auto simp: rev_image_eqI)

lemma status_of_SomeD: "status_of t i = Some s \<Longrightarrow> \<exists>r \<in> set t. ID r = i \<and> Status r = s"
  by (induction t) (auto split: if_splits)

lemma status_of_update_ids:
  "status_of (update_rows (\<lambda>r. ID r \<in> I) st now t) i =
     (if i \<in> I \<and> i \<in> set (map ID t) then Some st else status_of t i)"
  by (induction t) auto

lemma status_of_update_one:
  assumes "distinct (map ID t)"
  shows "status_of (update_rows (\<lambda>r. ID r = k \<and> Status r = s) st now t) i =
     (if i = k \<and> status_of t k = Some s then Some st else status_of t i)"
  using assms by (induction t) (auto simp: status_of_None dest: status_of_SomeD)

subsection \<open>Counting rows by status\<close>

lemma in_status_Nil [simp]: "in_status s [] = 0"
  by (simp add: in_status_def)

lemma in_status_Cons [simp]: "in_status s (r # t) = of_bool (Status r = s) + in_status s t"
  by (simp add: in_status_def)

lemma in_status_append [simp]: "in_status s (t @ u) = in_status s t + in_status s u"
  by (simp add: in_status_def)

lemma in_status_update:
  assumes "\<And>r. r \<in> set t \<Longrightarrow> P r \<Longrightarrow> Status r = q"
  shows "in_status s (update_rows P st now t) =
     in_status s t + (of_bool (s = st) - of_bool (s = q)) * int (length (filter P t))"
  using assms
proof (induction t)
  case (Cons r t)
  then have "in_status s (update_rows P st now t) =
     in_status s t + (of_bool (s = st) - of_bool (s = q)) * int (length (filter P t))" by simp
  moreover have "P r \<Longrightarrow> Status r = q" using Cons.prems by simp
  ultimately show ?case
    by (cases "P r") (simp_all add: algebra_simps eq_commute [of s])
qed simp

subsection \<open>The abstract life cycle\<close>

lemma life_step_refl [simp]: "life_step a a"
  by (simp add: life_step_def)

lemma life_cycle_refl [simp, intro]: "life_cycle t t"
  by (simp add: life_cycle_def)

lemma life_step_keeps: "life_step (Some s) b \<Longrightarrow> \<exists>s'. b = Some s'"
  by (auto simp: life_step_def split: option.splits)

lemma life_step_terminal:
  "life_step (Some s) b \<Longrightarrow> s = StatusPaid \<or> s = StatusFailed \<or> s = StatusCancelled \<Longrightarrow> b = Some s"
  by (auto simp: life_step_def AllTransitions_def split: option.splits)

subsection \<open>The contract of a statement run through the pool\<close>

lemma pg_table_cases: "pg_table r stmt t = t \<or> (\<exists>y. stmt t = Inr (pg_table r stmt t, y))"
  by (auto simp: pg_table_def split: pg_reply.splits sum.splits)

lemma pg_table_simps [simp]:
  "pg_table (ReplyFail e) stmt t = t"
  "pg_table (ReplyRefused e) stmt t = t"
  "pg_table (ReplyPanic m) stmt t = t"
  "pg_table ReplyOk stmt t = (case stmt t of Inl e' \<Rightarrow> t | Inr (t', x) \<Rightarrow> t')"
  "pg_table (ReplyLost n e) stmt t = (case stmt t of Inl e' \<Rightarrow> t | Inr (t', x) \<Rightarrow> t')"
  by (simp_all add: pg_table_def)

lemma pg_snd [simp]: "snd (pg_run r stmt t) = pg_table r stmt t" "snd (pg_query r qry t) = pg_table r qry t"
  by (simp_all add: pg_run_def pg_query_def)

lemma pg_run_Ok: "pg_run r stmt t = (Ok x, t') \<Longrightarrow> r = ReplyOk \<and> stmt t = Inr (t', x)"
  by (auto simp: pg_run_def split: pg_reply.splits sum.splits)

lemma pg_query_Ok: "pg_query r stmt t = (Ok (rows, None), t') \<Longrightarrow> r = ReplyOk \<and> stmt t = Inr (t', rows)"
  by (auto simp: pg_query_def split: pg_reply.splits sum.splits)

locale table_statement =
  fixes stmt :: "table \<Rightarrow> goerr + (table \<times> 'a)"
  assumes stmt_ok: "table_ok t \<Longrightarrow> stmt t = Inr (t', x) \<Longrightarrow> table_ok t'"
begin

lemma run_ok: "table_ok t \<Longrightarrow> table_ok (pg_table r stmt t)"
  using pg_table_cases [of r stmt t] by (metis stmt_ok)

end

locale life_statement = table_statement +
  assumes stmt_life: "table_ok t \<Longrightarrow> stmt t = Inr (t', x) \<Longrightarrow> life_cycle t t'"
begin

lemma run_life: "table_ok t \<Longrightarrow> life_cycle t (pg_table r stmt t)"
  using pg_table_cases [of r stmt t] by (metis stmt_life life_cycle_refl)

end

subsection \<open>Insert\<close>

lemma sql_insert_Inr:
  "sql_insert U pgtime idt x t = Inr (t', y) \<Longrightarrow>
     \<exists>i row. pgcast U idt = Some i \<and> i \<notin> set (map ID t) \<and> t' = t @ [row] \<and> row_check row \<and> ID row = i \<and>
       Status row = Status x"
  by (auto simp: sql_insert_def Let_def split: option.splits if_splits)

lemma snoc_ok: "table_ok t \<Longrightarrow> row_check r \<Longrightarrow> ID r \<notin> set (map ID t) \<Longrightarrow> table_ok (t @ [r])"
  by (auto simp: table_ok_def)

lemma snoc_life: "Status r = StatusPending \<Longrightarrow> ID r \<notin> set (map ID t) \<Longrightarrow> life_cycle t (t @ [r])"
  by (auto simp: life_cycle_def life_step_def AllTransitions_def status_of_None [symmetric]
      split: option.splits)

interpretation insert: table_statement "sql_insert U pgtime idt x" for U pgtime idt x
  by unfold_locales (auto dest!: sql_insert_Inr intro!: snoc_ok)

interpretation insert_new: life_statement "sql_insert U pgtime idt (Build i now n)"
  for U pgtime idt i now n
  by unfold_locales (auto dest!: sql_insert_Inr intro!: snoc_life)

subsection \<open>Claim\<close>

lemma sort_key_take_le:
  assumes "x \<in> set (take n (sort_key f xs))" "y \<in> set (drop n (sort_key f xs))"
  shows "f x \<le> (f y :: 'b :: linorder)"
proof -
  have "sorted (map f (take n (sort_key f xs) @ drop n (sort_key f xs)))" by simp
  with assms show ?thesis by (auto simp: sorted_append simp del: append_take_drop_id)
qed

lemma claim_picks_in: "r \<in> set (claim_picks e limit t) \<Longrightarrow> r \<in> set t \<and> claimable e r"
  by (auto simp: claim_picks_def dest: in_set_takeD)

lemma claim_picks_length:
  "length (claim_picks e limit t) = min (nat limit) (length (filter (claimable e) t))"
proof -
  have "length (filter (claimable e) (scan (scan_rank e) t)) = length (filter (claimable e) t)"
    by (metis mset_filter scan_mset size_mset)
  then show ?thesis by (simp add: claim_picks_def)
qed

lemma distinct_map_mset: "mset xs = mset ys \<Longrightarrow> distinct (map f xs) = distinct (map f ys)"
  by (metis mset_eq_imp_distinct_iff mset_map)

lemma claim_ids_distinct: "distinct (map ID t) \<Longrightarrow> distinct (claim_ids e limit t)"
proof -
  assume "distinct (map ID t)"
  then have "distinct (map ID (scan (scan_rank e) t))"
    by (simp add: distinct_map_mset [OF scan_mset])
  then have "distinct (map ID (filter (claimable e) (scan (scan_rank e) t)))"
    by (rule distinct_map_filter)
  then have "distinct (map ID (sort_key CreatedAt (filter (claimable e) (scan (scan_rank e) t))))"
    by (simp add: distinct_map_mset [OF mset_sort])
  then show ?thesis by (simp add: claim_ids_def claim_picks_def take_map [symmetric])
qed

lemma claim_ids_status:
  "distinct (map ID t) \<Longrightarrow> i \<in> set (claim_ids e limit t) \<Longrightarrow> status_of t i = Some StatusPending"
  by (auto simp: claim_ids_def claimable_def dest!: claim_picks_in status_of_row)

lemma filter_ID_set: "ID ` set (filter (\<lambda>r. ID r \<in> I) t) = I \<inter> ID ` set t"
  by auto

lemma claim_ids_sub: "set (claim_ids e limit t) \<subseteq> set (map ID t)"
  by (auto simp: claim_ids_def dest: claim_picks_in)

lemma claim_rows_ids: "set (map ID (claim_rows e limit t)) = set (claim_ids e limit t)"
proof -
  have "set (map ID (claim_rows e limit t)) = set (claim_ids e limit t) \<inter> ID ` set (claim_table e limit t)"
    unfolding claim_rows_def set_map scan_set by (rule filter_ID_set)
  then show ?thesis using claim_ids_sub [of e limit t] by (auto simp: claim_table_def)
qed

lemma claim_row_status:
  "r \<in> set (claim_rows e limit t) \<Longrightarrow> r \<in> set (claim_table e limit t) \<and> Status r = StatusProcessing"
  by (auto simp: claim_rows_def claim_table_def in_update_rows)

lemma claim_rows_distinct: "distinct (map ID t) \<Longrightarrow> distinct (map ID (claim_rows e limit t))"
  by (simp add: claim_rows_def distinct_map_mset [OF scan_mset] distinct_map_filter claim_table_def)

lemma claim_rows_length: "distinct (map ID t) \<Longrightarrow> length (claim_rows e limit t) = length (claim_ids e limit t)"
  by (metis claim_ids_distinct claim_rows_distinct claim_rows_ids distinct_card length_map)

lemma claim_status_of:
  "status_of (claim_table e limit t) i =
     (if i \<in> set (claim_ids e limit t) then Some StatusProcessing else status_of t i)"
  using claim_ids_sub [of e limit t] by (auto simp: claim_table_def status_of_update_ids)

lemma claim_table_ok: "table_ok t \<Longrightarrow> table_ok (claim_table e limit t)"
  by (auto simp: claim_table_def)

interpretation claim: life_statement "sql_claim U e limit" for U e limit
proof unfold_locales
  fix t t' x
  assume t: "table_ok t" and run: "sql_claim U e limit t = Inr (t', x)"
  then have t': "t' = claim_table e limit t" by (auto simp: sql_claim_def split: if_splits)
  show "table_ok t'" using t by (simp add: t' claim_table_ok)
  have "status_of t i = Some StatusPending" if "i \<in> set (claim_ids e limit t)" for i
    using t that by (auto simp: table_ok_def intro: claim_ids_status)
  then show "life_cycle t t'"
    by (auto simp: t' life_cycle_def claim_status_of life_step_def AllTransitions_def)
qed

lemma scan_rows_text:
  "uuid_lib_ok U \<Longrightarrow> scan_rows U m (map (\<lambda>r. (pgtext U (ID r), r)) rs) = Ok rs"
  by (induction rs) (auto simp: scanOrder_def uuid_lib_ok_def)

lemma ClaimPendingOrders_ok:
  "uuid_lib_ok U \<Longrightarrow> 0 \<le> limit \<Longrightarrow>
     ClaimPendingOrders U ReplyOk e limit t = (Ok (claim_rows e limit t), claim_table e limit t)"
  by (simp add: ClaimPendingOrders_def pg_query_def sql_claim_def scan_rows_text make_slice_def)

lemma ClaimPendingOrders_snd: "snd (ClaimPendingOrders U r e limit t) = pg_table r (sql_claim U e limit) t"
  by (simp add: ClaimPendingOrders_def pg_query_def split: prod.splits)

lemma ClaimPendingOrders_Ok:
  assumes "uuid_lib_ok U" "ClaimPendingOrders U r e limit t = (Ok xs, t')"
  shows "r = ReplyOk \<and> xs = claim_rows e limit t \<and> t' = claim_table e limit t"
proof -
  obtain rows where "pg_query r (sql_claim U e limit) t = (Ok (rows, None), t')"
    using assms(2) by (auto simp: ClaimPendingOrders_def split: prod.splits option.splits)
  then have "r = ReplyOk" and "0 \<le> limit"
    by (auto dest!: pg_query_Ok simp: sql_claim_def split: if_splits)
  with assms show ?thesis by (simp add: ClaimPendingOrders_ok)
qed

subsection \<open>Mark\<close>

abbreviation mark_table :: "uuid \<Rightarrow> status \<Rightarrow> time \<Rightarrow> table \<Rightarrow> table" where
  "mark_table i st now t \<equiv> update_rows (\<lambda>r. ID r = i \<and> Status r = StatusProcessing) st now t"

lemma sql_mark_Inr:
  assumes "sql_mark U idt st now t = Inr (t', n)"
  shows "\<exists>i. pgcast U idt = Some i \<and> t' = mark_table i st now t \<and>
    n = length (filter (\<lambda>r. ID r = i \<and> Status r = StatusProcessing) t) \<and>
    (\<forall>r \<in> set t. ID r = i \<and> Status r = StatusProcessing \<longrightarrow> row_check (r\<lparr>Status := st, UpdatedAt := now\<rparr>))"
  using assms by (auto simp: sql_mark_def Let_def split: option.splits if_splits)

lemma mark_table_ok:
  assumes "table_ok t"
    and "\<And>r. r \<in> set t \<Longrightarrow> ID r = i \<Longrightarrow> Status r = StatusProcessing \<Longrightarrow>
      row_check (r\<lparr>Status := st, UpdatedAt := now\<rparr>)"
  shows "table_ok (mark_table i st now t)"
  unfolding table_ok_def
proof
  show "distinct (map ID (mark_table i st now t))" using assms(1) by (simp add: table_ok_def)
  show "\<forall>r \<in> set (mark_table i st now t). row_check r"
  proof
    fix x
    assume "x \<in> set (mark_table i st now t)"
    then obtain r where r: "r \<in> set t" and
      x: "x = (if ID r = i \<and> Status r = StatusProcessing then r\<lparr>Status := st, UpdatedAt := now\<rparr> else r)"
      by (auto simp: in_update_rows)
    have "row_check r" using assms(1) r by (simp add: table_ok_def)
    with x assms(2) [OF r] show "row_check x" by (simp del: row_check_status)
  qed
qed

interpretation mark: table_statement "sql_mark U idt st now" for U idt st now
  by unfold_locales (auto dest!: sql_mark_Inr intro!: mark_table_ok simp del: row_check_status)

lemma mark_life:
  assumes "table_ok t" "(StatusProcessing, st) \<in> set AllTransitions"
  shows "life_cycle t (mark_table i st now t)"
  using assms by (auto simp: life_cycle_def life_step_def status_of_update_one table_ok_def)

lemma mark_statement_life:
  assumes "(StatusProcessing, st) \<in> set AllTransitions"
  shows "life_statement (sql_mark U idt st now)"
  by unfold_locales (auto dest!: sql_mark_Inr intro!: mark_life assms)

interpretation mark_paid: life_statement "sql_mark U idt StatusPaid now" for U idt now
  by (rule mark_statement_life) (simp add: AllTransitions_def)

interpretation mark_failed: life_statement "sql_mark U idt StatusFailed now" for U idt now
  by (rule mark_statement_life) (simp add: AllTransitions_def)

interpretation mark_pending: life_statement "sql_mark U idt StatusPending now" for U idt now
  by (rule mark_statement_life) (simp add: AllTransitions_def)

lemma count_hits:
  "distinct (map ID t) \<Longrightarrow>
     length (filter (\<lambda>r. ID r = i \<and> Status r = s) t) = (if status_of t i = Some s then 1 else 0)"
  by (induction t) (auto simp: status_of_None filter_empty_conv rev_image_eqI dest: status_of_SomeD)

lemma text_ok_Valid: "Valid st \<Longrightarrow> text_ok st"
  by (auto simp: Valid_def text_ok_def status_defs split: if_splits)

lemma sql_mark_valid:
  assumes "table_ok t" "uuid_lib_ok U" "Valid st"
  shows "sql_mark U (ustring U i) st now t =
    Inr (mark_table i st now t, if status_of t i = Some StatusProcessing then 1 else 0)"
proof -
  have "row_check (r\<lparr>Status := st, UpdatedAt := now\<rparr>)" if "r \<in> set t" for r
    using assms that by (auto simp: table_ok_def dest: row_checkD)
  then show ?thesis
    using assms
    by (auto simp: sql_mark_def uuid_lib_ok_def Let_def count_hits table_ok_def text_ok_Valid
        simp del: row_check_status)
qed

lemma mark_table_miss:
  "distinct (map ID t) \<Longrightarrow> status_of t i \<noteq> Some StatusProcessing \<Longrightarrow> mark_table i st now t = t"
  by (rule update_rows_none) (auto dest: status_of_row)

lemma MarkOrder_ok:
  assumes "table_ok t" "uuid_lib_ok U" "Valid st"
  shows "MarkOrder U ReplyOk now i st t =
    (if status_of t i = Some StatusProcessing then (Ok (), mark_table i st now t) else (Err ErrConflict, t))"
  using assms by (simp add: MarkOrder_def pg_run_def sql_mark_valid mark_table_miss table_ok_def)

lemma MarkOrder_snd: "snd (MarkOrder U r now i st t) = pg_table r (sql_mark U (ustring U i) st now) t"
  by (simp add: MarkOrder_def pg_run_def)

lemma MarkOrder_fail:
  "MarkOrder U (ReplyFail e) now i st t = (Err (Wrap ''store: mark order'' e), t)"
  "MarkOrder U (ReplyRefused e) now i st t = (Err (Wrap ''store: mark order'' e), t)"
  "MarkOrder U (ReplyPanic m) now i st t = (Panicked m, t)"
  by (simp_all add: MarkOrder_def pg_run_def)

subsection \<open>Create and get\<close>

lemma CreateOrder_snd:
  "snd (CreateOrder U pgtime r x t) = pg_table r (sql_insert U pgtime (ustring U (ID x)) x) t"
  by (simp add: CreateOrder_def pg_run_def)

lemma stored_sel [simp]:
  "ID (stored p x) = ID x" "Status (stored p x) = Status x" "AmountCents (stored p x) = AmountCents x"
  "Currency (stored p x) = Currency x" "CustomerID (stored p x) = CustomerID x"
  by (simp_all add: stored_def)

lemma char_length_currency: "c \<in> set SupportedCurrencies \<Longrightarrow> char_length c = 3"
  by (auto simp: SupportedCurrencies_def char_length_def cont_byte_def)

lemma text_ok_currency: "c \<in> set SupportedCurrencies \<Longrightarrow> text_ok c"
  by (auto simp: SupportedCurrencies_def text_ok_def)

lemma Build_row_check: "Validate n = None \<Longrightarrow> row_check (stored p (Build i now n))"
  by (simp add: Validate_None_iff row_check_def char_length_currency)

lemma sql_insert_build:
  assumes "uuid_lib_ok U" "Validate n = None" "i \<notin> set (map ID t)"
  shows "sql_insert U pgtime (ustring U i) (Build i now n) t =
    (if text_ok (NewCustomerID n) then Inr (t @ [stored pgtime (Build i now n)], ())
     else Inl (pg_error ''22021''))"
proof -
  have "text_ok (NewCurrency n)" and "text_ok StatusPending"
    using assms(2) by (auto simp: Validate_None_iff text_ok_currency text_ok_Valid)
  moreover have "row_check (stored pgtime (Build i now n))" using assms(2) by (rule Build_row_check)
  ultimately show ?thesis
    using assms by (auto simp: sql_insert_def uuid_lib_ok_def Let_def stored_def)
qed

lemma CreateOrder_build:
  assumes "uuid_lib_ok U" "Validate n = None" "i \<notin> set (map ID t)"
  shows "CreateOrder U pgtime ReplyOk (Build i now n) t =
    (if text_ok (NewCustomerID n) then (Ok (), t @ [stored pgtime (Build i now n)])
     else (Err (Wrap ''store: create order'' (pg_error ''22021'')), t))"
  using assms by (simp add: CreateOrder_def pg_run_def sql_insert_build)

lemma CreateOrder_Ok:
  assumes "CreateOrder U pgtime r x t = (Ok y, t')"
  shows "r = ReplyOk \<and> sql_insert U pgtime (ustring U (ID x)) x t = Inr (t', ())"
  using assms by (auto simp: CreateOrder_def split: prod.splits dest: pg_run_Ok)

lemma filter_find: "(case filter P t of [] \<Rightarrow> None | r # _ \<Rightarrow> Some r) = find P t"
  by (induction t) auto

lemma GetOrder_ok:
  assumes "uuid_lib_ok U"
  shows "GetOrder U ReplyOk i t = (case find (\<lambda>r. ID r = i) t of None \<Rightarrow> Err ErrNotFound | Some r \<Rightarrow> Ok r)"
  using assms unfolding filter_find [symmetric]
  by (cases "filter (\<lambda>r. ID r = i) t")
    (auto simp: GetOrder_def pg_run_def sql_get_def uuid_lib_ok_def scanOrder_def split: option.splits)

subsection \<open>Counting and listing\<close>

lemma count_loop_notin: "s \<notin> fst ` set rows \<Longrightarrow> count_loop m rows s = m s"
  by (induction m rows rule: count_loop.induct) auto

lemma count_loop_map:
  "distinct ss \<Longrightarrow> count_loop m (map (\<lambda>s. (s, f s)) ss) s = (if s \<in> set ss then Some (f s) else m s)"
  by (induction ss arbitrary: m) (auto simp: count_loop_notin image_image)

lemma CountOrdersByStatus_ok:
  "\<exists>m. CountOrdersByStatus ReplyOk t = Ok m \<and>
     (\<forall>s. m s = (if s \<in> Status ` set t then Some (in_status s t) else None))"
  by (simp add: CountOrdersByStatus_def pg_query_def sql_count_def count_loop_map in_status_def)

lemma mset_hits: "mset (hits rank st t) = filter_mset (\<lambda>r. st = [] \<or> Status r = st) (mset t)"
  by (simp add: hits_def mset_filter)

lemma sorted_hits: "sorted_wrt (\<lambda>x y. CreatedAt x \<ge> CreatedAt y) (hits rank st t)"
proof -
  have "sorted (map (\<lambda>r. - CreatedAt r) (hits rank st t))" by (simp add: hits_def)
  then show ?thesis by (simp add: sorted_wrt_map)
qed

lemma hits_set: "set (hits rank st t) = set (matching st t)"
  by (simp add: hits_def matching_def)

lemma hits_length: "length (hits rank st t) \<le> length t"
  using mset_hits [of rank st t] by (metis multiset_filter_subset size_mset size_mset_mono)

lemma hits_distinct: "table_ok t \<Longrightarrow> distinct (hits rank st t)"
  by (simp add: hits_def scan_def table_ok_def distinct_map)

text \<open>Whatever the order in which rows are read, a listing shows the same creation times.\<close>

lemma hits_times: "map CreatedAt (hits rank st t) = rev (sort (map CreatedAt (matching st t)))"
proof -
  have "sorted (rev (map CreatedAt (hits rank st t)))"
    using sorted_hits [of rank st t] by (simp add: sorted_wrt_rev sorted_wrt_map)
  moreover have "mset (rev (map CreatedAt (hits rank st t))) = mset (map CreatedAt (matching st t))"
    by (simp add: mset_hits matching_def)
  ultimately have "sort (map CreatedAt (matching st t)) = rev (map CreatedAt (hits rank st t))"
    by (intro properties_for_sort)
  then show ?thesis by simp
qed

lemma hits_unique:
  assumes "distinct (map CreatedAt (matching st t))"
  shows "hits rank st t = hits rank' st t"
proof (rule map_inj_on [where f = CreatedAt])
  show "map CreatedAt (hits rank st t) = map CreatedAt (hits rank' st t)" by (simp add: hits_times)
  show "inj_on CreatedAt (set (hits rank st t) \<union> set (hits rank' st t))"
    using assms by (simp add: hits_set distinct_map)
qed

lemma ListOrders_ok:
  assumes "uuid_lib_ok U" "0 \<le> limit" "0 \<le> off"
  shows "ListOrders U rank ReplyOk st limit off t = Ok (take (nat limit) (drop (nat off) (hits rank st t)))"
  using assms by (simp add: ListOrders_def pg_query_def make_slice_def sql_list_def Let_def hits_def scan_rows_text)

lemma pages_take: "concat (map (\<lambda>k. take n (drop (k * n) xs)) [0..<K]) = take (K * n) xs"
proof (induction K)
  case (Suc K)
  have "take (Suc K * n) xs = take (K * n + n) xs" by (simp add: add.commute)
  also have "\<dots> = take (K * n) xs @ take n (drop (K * n) xs)" by (rule take_add)
  finally show ?case using Suc by simp
qed simp

end
