(* ===== verification/Uuid_Text.thy ===== *)
theory Uuid_Text
  imports Orders_Store
begin

text \<open>
  The canonical text form of a UUID (8-4-4-4-12 lower-case hexadecimal digits), as a concrete
  instance of the UUID library and server casts that the store takes as an argument: printing and
  parsing it round-trips, so the assumption \<open>uuid_lib_ok\<close> is satisfiable by the format that
  \<open>UUID.String\<close> and \<open>id::text\<close> produce.
\<close>

section \<open>Definitions\<close>

fun digits16 :: "nat \<Rightarrow> nat \<Rightarrow> nat list" where
  "digits16 0 n = []"
| "digits16 (Suc k) n = digits16 k (n div 16) @ [n mod 16]"

definition value16 :: "nat list \<Rightarrow> nat" where
  "value16 ds = foldl (\<lambda>a d. 16 * a + d) 0 ds"

definition hex_char :: "nat \<Rightarrow> char" where
  "hex_char d = (if d < 10 then char_of (48 + d) else char_of (87 + d))"

definition hex_value :: "char \<Rightarrow> nat option" where
  "hex_value c =
     (let n = of_char c :: nat in
      if 48 \<le> n \<and> n \<le> 57 then Some (n - 48)
      else if 97 \<le> n \<and> n \<le> 102 then Some (n - 87)
      else None)"

fun hex_values :: "string \<Rightarrow> nat list option" where
  "hex_values [] = Some []"
| "hex_values (c # s) =
     (case (hex_value c, hex_values s) of (Some d, Some ds) \<Rightarrow> Some (d # ds) | _ \<Rightarrow> None)"

definition dashes :: "string \<Rightarrow> string" where
  "dashes h =
     take 8 h @ ''-'' @ take 4 (drop 8 h) @ ''-'' @ take 4 (drop 12 h) @ ''-'' @
     take 4 (drop 16 h) @ ''-'' @ drop 20 h"

definition undash :: "string \<Rightarrow> string" where
  "undash s = take 8 s @ take 4 (drop 9 s) @ take 4 (drop 14 s) @ take 4 (drop 19 s) @ drop 24 s"

definition canonical :: "uuid \<Rightarrow> string" where
  "canonical u = dashes (map hex_char (digits16 32 (unat u)))"

definition parse_canonical :: "string \<Rightarrow> uuid option" where
  "parse_canonical s =
     (if length s = 36 \<and> dashes (undash s) = s
      then map_option (word_of_nat \<circ> value16) (hex_values (undash s))
      else None)"

definition canonical_lib :: uuid_lib where
  "canonical_lib =
     \<lparr>uparse = parse_canonical, ustring = canonical, pgtext = canonical, pgcast = parse_canonical\<rparr>"

section \<open>Lemmas\<close>

lemma length_digits16 [simp]: "length (digits16 k n) = k"
  by (induction k n rule: digits16.induct) auto

lemma digits16_less: "d \<in> set (digits16 k n) \<Longrightarrow> d < 16"
  by (induction k n rule: digits16.induct) auto

lemma value16_digits16: "n < 16 ^ k \<Longrightarrow> value16 (digits16 k n) = n"
proof (induction k n rule: digits16.induct)
  case (2 k n)
  then have "n div 16 < 16 ^ k" by (simp add: less_mult_imp_div_less mult.commute)
  with 2 show ?case by (simp add: value16_def)
qed (simp add: value16_def)

lemma hex_value_hex_char: "d < 16 \<Longrightarrow> hex_value (hex_char d) = Some d"
  by (auto simp: hex_value_def hex_char_def Let_def)

lemma hex_values_hex_chars: "(\<And>d. d \<in> set ds \<Longrightarrow> d < 16) \<Longrightarrow> hex_values (map hex_char ds) = Some ds"
  by (induction ds) (auto simp: hex_value_hex_char)

lemma undash_dashes: "length h = 32 \<Longrightarrow> undash (dashes h) = h \<and> length (dashes h) = 36"
proof -
  assume h: "length h = 32"
  have 1: "drop 8 h = take 4 (drop 8 h) @ drop 12 h" using append_take_drop_id [of 4 "drop 8 h"] by simp
  have 2: "drop 12 h = take 4 (drop 12 h) @ drop 16 h" using append_take_drop_id [of 4 "drop 12 h"] by simp
  have 3: "drop 16 h = take 4 (drop 16 h) @ drop 20 h" using append_take_drop_id [of 4 "drop 16 h"] by simp
  have "take 8 h @ take 4 (drop 8 h) @ take 4 (drop 12 h) @ take 4 (drop 16 h) @ drop 20 h = h"
    by (simp flip: 1 2 3)
  with h show ?thesis by (simp add: undash_def dashes_def)
qed

lemma parse_canonical_canonical: "parse_canonical (canonical u) = Some u"
proof -
  let ?h = "map hex_char (digits16 32 (unat u))"
  have "undash (dashes ?h) = ?h" and "length (dashes ?h) = 36"
    using undash_dashes [of ?h] by simp_all
  moreover have "hex_values ?h = Some (digits16 32 (unat u))"
    by (rule hex_values_hex_chars) (rule digits16_less)
  moreover have "unat u < 16 ^ 32" using unsigned_less [of u, where ?'a = nat] by simp
  ultimately show ?thesis
    by (simp add: parse_canonical_def canonical_def value16_digits16)
qed

lemma canonical_lib_ok: "uuid_lib_ok canonical_lib"
  by (simp add: uuid_lib_ok_def canonical_lib_def parse_canonical_canonical)

end
