(* ===== verification/File_Paths.thy ===== *)
theory File_Paths
  imports Prelude
begin

text \<open>
  The functions of package \<open>path/filepath\<close> that the logger uses on source locations, on a system
  whose separator is the slash: \<open>Clean\<close>, \<open>Base\<close>, \<open>Dir\<close> and \<open>Join\<close>.
\<close>

section \<open>Definitions\<close>

definition clean_step :: "bool \<Rightarrow> string list \<Rightarrow> string \<Rightarrow> string list" where
  "clean_step rooted acc c =
     (if c = [] \<or> c = ''.'' then acc
      else if c = ''..'' then
        (if acc \<noteq> [] \<and> last acc \<noteq> ''..'' then butlast acc else if rooted then acc else acc @ [c])
      else acc @ [c])"

definition path_clean :: "string \<Rightarrow> string" where
  "path_clean p =
     (if p = [] then ''.''
      else let rooted = (hd p = CHR ''/'');
               out = (if rooted then ''/'' else []) @ join ''/'' (foldl (clean_step rooted) [] (split_slash [] p))
           in if out = [] then ''.'' else out)"

definition path_base :: "string \<Rightarrow> string" where
  "path_base p =
     (if p = [] then ''.''
      else let q = rev (dropWhile (\<lambda>c. c = CHR ''/'') (rev p));
               b = rev (takeWhile (\<lambda>c. c \<noteq> CHR ''/'') (rev q))
           in if b = [] then ''/'' else b)"

definition path_dir :: "string \<Rightarrow> string" where
  "path_dir p = path_clean (rev (dropWhile (\<lambda>c. c \<noteq> CHR ''/'') (rev p)))"

definition path_join :: "string list \<Rightarrow> string" where
  "path_join es = (case dropWhile (\<lambda>e. e = []) es of [] \<Rightarrow> [] | e # es' \<Rightarrow> path_clean (join ''/'' (e # es')))"

text \<open>An element of a path that \<open>Clean\<close> keeps.\<close>

definition path_elem :: "string \<Rightarrow> bool" where
  "path_elem e \<longleftrightarrow> CHR ''/'' \<notin> set e \<and> e \<notin> {[], ''.'', ''..''}"

section \<open>Lemmas\<close>

lemma split_slash_plain: "CHR ''/'' \<notin> set s \<Longrightarrow> split_slash cur s = [cur @ s]"
  by (induction cur s rule: split_slash.induct) auto

lemma split_slash_append: "split_slash cur (s @ CHR ''/'' # t) = split_slash cur s @ split_slash [] t"
  by (induction cur s rule: split_slash.induct) auto

lemma path_base_last:
  assumes "path_elem e"
  shows "path_base (d @ CHR ''/'' # e) = e" "path_base e = e"
proof -
  have e: "rev e \<noteq> []" "hd (rev e) \<noteq> CHR ''/''" "CHR ''/'' \<notin> set (rev e)"
    using assms by (auto simp: path_elem_def) (metis hd_in_set rev_is_Nil_conv set_rev)
  then obtain c r where r: "rev e = c # r" "c \<noteq> CHR ''/''" "CHR ''/'' \<notin> set r" by (cases "rev e") auto
  then have "takeWhile (\<lambda>c. c \<noteq> CHR ''/'') (rev e @ x) = rev e @ takeWhile (\<lambda>c. c \<noteq> CHR ''/'') x" for x
    using e(3) by (intro takeWhile_append2) auto
  then show "path_base (d @ CHR ''/'' # e) = e" "path_base e = e"
    using r e by (auto simp: path_base_def Let_def dest: arg_cong [of _ _ rev])
qed

lemma join_last: "join sep (xs @ [x]) = (if xs = [] then x else join sep xs @ sep @ x)"
  by (induction sep xs rule: join.induct) auto

lemma path_clean_last:
  assumes "path_elem e"
  shows "path_base (path_clean (d @ CHR ''/'' # e @ ''/'')) = e"
proof -
  define p where "p = d @ CHR ''/'' # e @ ''/''"
  define rooted where "rooted = (hd p = CHR ''/'')"
  define A where "A = foldl (clean_step rooted) [] (split_slash [] d)"
  have "split_slash [] p = split_slash [] d @ [e, []]"
    using assms split_slash_append [of "[]" e "[]"] split_slash_append [of "[]" d "e @ ''/''"]
    by (simp add: p_def path_elem_def split_slash_plain)
  then have "foldl (clean_step rooted) [] (split_slash [] p) = A @ [e]"
    using assms by (simp add: A_def clean_step_def path_elem_def)
  moreover have "p \<noteq> []" by (simp add: p_def)
  ultimately have "path_clean p = (if rooted then ''/'' else []) @ join ''/'' (A @ [e])"
    using assms by (simp add: path_clean_def rooted_def [symmetric] Let_def join_last path_elem_def)
  then show ?thesis using path_base_last [OF assms] path_base_last(1) [OF assms, of "(if rooted then ''/'' else []) @ join ''/'' A"]
      path_base_last(1) [OF assms, of "[]"]
    by (auto simp: p_def join_last split: if_splits)
qed

text \<open>A source location keeps the file and its directory, and nothing of the path before them.\<close>

lemma path_trim:
  assumes "path_elem e" "path_elem f"
  shows "path_join [path_base (path_dir (d @ CHR ''/'' # e @ CHR ''/'' # f)), path_base (d @ CHR ''/'' # e @ CHR ''/'' # f)] =
    e @ CHR ''/'' # f"
proof -
  have "dropWhile (\<lambda>c. c \<noteq> CHR ''/'') (rev f @ x) = dropWhile (\<lambda>c. c \<noteq> CHR ''/'') x" for x
    using assms(2) by (intro dropWhile_append2) (auto simp: path_elem_def)
  then have "dropWhile (\<lambda>c. c \<noteq> CHR ''/'') (rev (d @ CHR ''/'' # e @ CHR ''/'' # f)) = CHR ''/'' # rev (d @ CHR ''/'' # e)"
    by simp
  then have "path_dir (d @ CHR ''/'' # e @ CHR ''/'' # f) = path_clean (d @ CHR ''/'' # e @ ''/'')"
    by (simp add: path_dir_def)
  then have dir: "path_base (path_dir (d @ CHR ''/'' # e @ CHR ''/'' # f)) = e" using path_clean_last [OF assms(1)] by simp
  have base: "path_base (d @ CHR ''/'' # e @ CHR ''/'' # f) = f" using path_base_last(1) [OF assms(2), of "d @ CHR ''/'' # e"] by simp
  have "e \<noteq> []" "f \<noteq> []" "hd (e @ CHR ''/'' # f) \<noteq> CHR ''/''" using assms by (auto simp: path_elem_def hd_append dest: hd_in_set)
  moreover have "split_slash [] (e @ CHR ''/'' # f) = [e, f]"
    using assms by (simp add: path_elem_def split_slash_append split_slash_plain)
  ultimately show ?thesis
    using assms unfolding dir base by (simp add: path_join_def path_clean_def clean_step_def path_elem_def Let_def)
qed

end
