(* ===== verification/Logging.thy ===== *)
theory Logging
  imports Uuid_Text File_Paths "HOL-Library.AList"
begin

text \<open>
  internal/logging: the request context's attributes and request ids (context.go), levels,
  redaction, pseudonyms and the construction of the logger (logging.go), and the handler chain that
  every record passes: counting, sampling, context enrichment, base handler (handler.go), with the
  two counters of internal/metrics/logs.go.

  A context is represented by the attributes it carries. A handler is the stack of wrappers around its
  base handler; a \<open>SamplingHandler\<close> holds a pointer to its \<open>sampleState\<close>, so these states live in
  a store and the handler carries an address of it. The store is threaded through the construction and
  the derivation of loggers, which may allocate, and through the records in the order in which the mutex
  admits them. What reaches
  the base handler is a line: the attributes of the logger, those of the record, and what the
  wrappers added, each passed through \<open>replaceAttr\<close>.
\<close>

section \<open>Definitions\<close>

subsection \<open>The context\<close>

type_synonym log_ctx = "attr list"

definition Attrs :: "log_ctx \<Rightarrow> attr list" where
  "Attrs ctx = ctx"

definition WithAttrs :: "log_ctx \<Rightarrow> attr list \<Rightarrow> log_ctx" where
  "WithAttrs ctx attrs = (if attrs = [] then ctx else Attrs ctx @ attrs)"

definition RequestIDKey :: string where "RequestIDKey = ''request_id''"
definition RequestIDHeader :: string where "RequestIDHeader = ''X-Request-Id''"

definition WithRequestID :: "log_ctx \<Rightarrow> string \<Rightarrow> log_ctx" where
  "WithRequestID ctx i = WithAttrs ctx [(RequestIDKey, AStr i)]"

text \<open>The argument is what \<open>rand.Read\<close> filled in, \<^term>\<open>None\<close> when it failed.\<close>

definition NewRequestID :: "(8 word) list option \<Rightarrow> string" where
  "NewRequestID b =
     (case b of
        None \<Rightarrow> ''unknown''
      | Some bs \<Rightarrow> concat (map (\<lambda>w. [hex_char (unat w div 16), hex_char (unat w mod 16)]) bs))"

definition rid_char :: "char \<Rightarrow> bool" where
  "rid_char c =
     (if (CHR ''a'' \<le> c \<and> c \<le> CHR ''z'') \<or> (CHR ''A'' \<le> c \<and> c \<le> CHR ''Z'') \<or>
         (CHR ''0'' \<le> c \<and> c \<le> CHR ''9'') then True
      else c = CHR ''-'' \<or> c = CHR ''_'' \<or> c = CHR ''.'')"

fun rid_loop :: "string \<Rightarrow> bool" where
  "rid_loop [] = True"
| "rid_loop (c # s) = (if rid_char c then rid_loop s else False)"

definition SanitizeRequestID :: "string \<Rightarrow> string \<times> bool" where
  "SanitizeRequestID v =
     (if v = [] \<or> length v > 128 then ([], False)
      else if rid_loop v then (v, True) else ([], False))"

subsection \<open>Levels\<close>

text \<open>\<open>slog.Level.String\<close> and \<open>UnmarshalText\<close>.\<close>

definition level_string :: "level \<Rightarrow> string" where
  "level_string l =
     (let str = (\<lambda>base v. if v = 0 then base else base @ (if v < 0 then itoa v else CHR ''+'' # itoa v));
          n = level_int l
      in if l < LevelInfo then str ''DEBUG'' (n + 4)
         else if l < LevelWarn then str ''INFO'' n
         else if l < LevelError then str ''WARN'' (n - 4)
         else str ''ERROR'' (n - 8))"

definition level_name :: "string \<Rightarrow> level option" where
  "level_name s =
     (let u = to_upper s in
      if u = ''DEBUG'' then Some LevelDebug
      else if u = ''INFO'' then Some LevelInfo
      else if u = ''WARN'' then Some LevelWarn
      else if u = ''ERROR'' then Some LevelError
      else None)"

definition UnmarshalText :: "string \<Rightarrow> level option" where
  "UnmarshalText s =
     (let name = takeWhile (\<lambda>c. c \<noteq> CHR ''+'' \<and> c \<noteq> CHR ''-'') s;
          rest = drop (length name) s
      in if rest = [] then level_name name
         else case atoi rest of
                None \<Rightarrow> None
              | Some off \<Rightarrow> map_option (\<lambda>l. Level (wrap64 (level_int l + off))) (level_name name))"

definition parseLevel :: "string \<Rightarrow> level" where
  "parseLevel s = (case UnmarshalText (to_lower s) of None \<Rightarrow> LevelInfo | Some l \<Rightarrow> l)"

subsection \<open>Redaction and pseudonyms\<close>

definition sensitiveKeys :: "string list" where
  "sensitiveKeys =
     [''password'', ''passwd'', ''secret'', ''token'', ''authorization'', ''auth'',
      ''api_key'', ''apikey'', ''credential'', ''cookie'', ''session'', ''private_key'',
      ''card_number'', ''cvv'', ''ssn'']"

fun sensitive_loop :: "string list \<Rightarrow> string \<Rightarrow> bool" where
  "sensitive_loop [] k = False"
| "sensitive_loop (s # ss) k = (if contains k s then True else sensitive_loop ss k)"

definition isSensitive :: "string \<Rightarrow> bool" where
  "isSensitive key = sensitive_loop sensitiveKeys (to_lower key)"

text \<open>
  \<open>replaceAttr\<close>: the directory of a source location is cut to its last element, a sensitive value is
  redacted and an error becomes its text; \<open>etext\<close> is \<open>err.Error()\<close>.
\<close>

definition replaceAttr :: "(goerr \<Rightarrow> string) \<Rightarrow> attr \<Rightarrow> attr" where
  "replaceAttr etext a =
     (if fst a = ''source'' then
        (case snd a of
           ASource file line \<Rightarrow> (fst a, ASource (path_join [path_base (path_dir file), path_base file]) line)
         | _ \<Rightarrow> a)
      else if isSensitive (fst a) then (fst a, AStr ''[REDACTED]'')
      else case snd a of AErr e \<Rightarrow> (fst a, AStr (etext e)) | _ \<Rightarrow> a)"

unbundle bit_operations_syntax

definition fnv_step :: "char \<Rightarrow> 64 word \<Rightarrow> 64 word" where
  "fnv_step c h = (h XOR of_nat (of_char c)) * 1099511628211"

definition PII :: "string \<Rightarrow> string \<Rightarrow> attr" where
  "PII key v =
     (if v = [] then (key, AStr [])
      else let h = fold fnv_step v 14695981039346656037 AND 0xffffffffffff
           in (key, AStr (''px_'' @ map hex_char (digits16 12 (unat h)))))"

subsection \<open>Records and the sampler\<close>

record log_rec =
  RLevel :: level
  RMessage :: string
  RTime :: time
  RAttrs :: "attr list"
  RSource :: "string \<times> int"

record bucket =
  windowStart :: time
  seen :: int
  dropped :: int

record sample_state =
  perInterval :: int
  window :: duration
  has_rec :: bool \<comment> \<open>whether \<open>rec\<close> is not nil\<close>
  buckets :: "(string \<times> bucket) list"

definition maxSampleKeys :: nat where "maxSampleKeys = 1024"

definition new_sampleState :: "int \<Rightarrow> duration \<Rightarrow> bool \<Rightarrow> sample_state" where
  "new_sampleState n i rec =
     \<lparr>perInterval = (if n \<le> 0 then 10 else n), window = (if i \<le> 0 then Second else i), has_rec = rec, buckets = []\<rparr>"

text \<open>The store of the sampler states, addressed by the pointers to them.\<close>

type_synonym sample_ref = nat
type_synonym sample_store = "sample_state list"

definition alloc_state :: "sample_state \<Rightarrow> sample_store \<Rightarrow> sample_ref \<times> sample_store" where
  "alloc_state s hp = (length hp, hp @ [s])"

text \<open>
  The critical section of \<open>SamplingHandler.Handle\<close> for a record below \<open>WARN\<close>: the map
  after the bound is enforced, the record's bucket, the decision on it (the record to pass on, or
  \<^term>\<open>None\<close> when it is dropped, and the bucket afterwards), and the new state.
\<close>

definition live_buckets :: "sample_state \<Rightarrow> (string \<times> bucket) list" where
  "live_buckets s = (if length (buckets s) > maxSampleKeys then [] else buckets s)"

definition bucket_for :: "log_rec \<Rightarrow> (string \<times> bucket) list \<Rightarrow> bucket" where
  "bucket_for r bs =
     (case map_of bs (RMessage r) of
        None \<Rightarrow> \<lparr>windowStart = RTime r, seen = 0, dropped = 0\<rparr>
      | Some b \<Rightarrow> b)"

definition sample_bucket :: "int \<Rightarrow> duration \<Rightarrow> log_rec \<Rightarrow> bucket \<Rightarrow> log_rec option \<times> bucket" where
  "sample_bucket n w r b =
     (if w \<le> time_sub (RTime r) (windowStart b) then
        (Some (if 0 < dropped b then r\<lparr>RAttrs := RAttrs r @ [(''sampled_dropped'', AInt (dropped b))]\<rparr> else r),
         \<lparr>windowStart = RTime r, seen = 1, dropped = 0\<rparr>)
      else if n \<le> seen b then (None, b\<lparr>dropped := dropped b + 1\<rparr>)
      else (Some r, b\<lparr>seen := seen b + 1\<rparr>))"

definition sample :: "log_rec \<Rightarrow> sample_state \<Rightarrow> log_rec option \<times> sample_state" where
  "sample r s =
     (let bs = live_buckets s;
          (x, b) = sample_bucket (perInterval s) (window s) r (bucket_for r bs)
      in (x, s\<lparr>buckets := AList.update (RMessage r) b bs\<rparr>))"

subsection \<open>The handler chain\<close>

definition log_records :: mdesc where
  "log_records = \<lparr>Subsystem = ''log'', Name = ''records_total'', Kind = CounterKind, LabelNames = [''level'']\<rparr>"

definition log_dropped :: mdesc where
  "log_dropped = \<lparr>Subsystem = ''log'', Name = ''records_dropped_total'', Kind = CounterKind, LabelNames = [''level'']\<rparr>"

definition logLevels :: "string list" where
  "logLevels = [''DEBUG'', ''INFO'', ''WARN'', ''ERROR'']"

definition NewLogs :: "effect list" where
  "NewLogs = concat (map (\<lambda>l. [Metric (WithLabels log_records [l]), Metric (WithLabels log_dropped [l])]) logLevels)"

definition LogRecord :: "string \<Rightarrow> effect list" where
  "LogRecord l = [Metric (Inc log_records [l])]"

definition LogRecordDropped :: "string \<Rightarrow> effect list" where
  "LogRecordDropped l = [Metric (Inc log_dropped [l])]"

text \<open>
  The handlers of package \<open>slog\<close>: the attributes added before any group was opened, and the open
  groups, outermost first, with the attributes added inside each.
\<close>

datatype encoder = JSONHandler | TextHandler

record base_handler =
  encoder_of :: encoder
  AddSource :: bool
  top_attrs :: "attr list"
  open_groups :: "(string \<times> attr list) list"

definition base_WithAttrs :: "attr list \<Rightarrow> base_handler \<Rightarrow> base_handler" where
  "base_WithAttrs as b =
     (if open_groups b = [] then b\<lparr>top_attrs := top_attrs b @ as\<rparr>
      else b\<lparr>open_groups := butlast (open_groups b) @ [(fst (last (open_groups b)), snd (last (open_groups b)) @ as)]\<rparr>)"

definition base_WithGroup :: "string \<Rightarrow> base_handler \<Rightarrow> base_handler" where
  "base_WithGroup g b = b\<lparr>open_groups := open_groups b @ [(g, [])]\<rparr>"

text \<open>
  What is written of an attribute: \<open>ReplaceAttr\<close> is called for everything but groups, whose members
  are written one by one; an empty group is omitted, one without a name is dissolved.
\<close>

primrec out_val :: "(goerr \<Rightarrow> string) \<Rightarrow> attr_val \<Rightarrow> string \<Rightarrow> attr list" where
  "out_val etext (AStr x) k = [replaceAttr etext (k, AStr x)]"
| "out_val etext (AInt x) k = [replaceAttr etext (k, AInt x)]"
| "out_val etext (AErr x) k = [replaceAttr etext (k, AErr x)]"
| "out_val etext (ADur x) k = [replaceAttr etext (k, ADur x)]"
| "out_val etext (ABool x) k = [replaceAttr etext (k, ABool x)]"
| "out_val etext (AMillis x) k = [replaceAttr etext (k, AMillis x)]"
| "out_val etext AStack k = [replaceAttr etext (k, AStack)]"
| "out_val etext (AStrs x) k = [replaceAttr etext (k, AStrs x)]"
| "out_val etext (ASource x y) k = [replaceAttr etext (k, ASource x y)]"
| "out_val etext (AGroup as) k =
     (let inner = concat (map (\<lambda>(key, write_val). write_val key) (map (map_prod id (out_val etext)) as))
      in if inner = [] then [] else if k = [] then inner else [(k, AGroup inner)])"

definition line_attrs :: "(goerr \<Rightarrow> string) \<Rightarrow> attr list \<Rightarrow> attr list" where
  "line_attrs etext as = concat (map (\<lambda>(k, v). out_val etext v k) as)"

fun nest :: "(string \<times> attr list) list \<Rightarrow> attr list \<Rightarrow> attr list" where
  "nest [] as = as"
| "nest ((g, bs) # gs) as = [(g, AGroup (bs @ nest gs as))]"

definition source_attrs :: "bool \<Rightarrow> log_rec \<Rightarrow> attr list" where
  "source_attrs on r = (if on then [(''source'', ASource (fst (RSource r)) (snd (RSource r)))] else [])"

definition base_line :: "(goerr \<Rightarrow> string) \<Rightarrow> base_handler \<Rightarrow> log_rec \<Rightarrow> attr list" where
  "base_line etext b r =
     line_attrs etext (source_attrs (AddSource b) r @ top_attrs b @ nest (open_groups b) (RAttrs r))"

datatype handler =
    BaseHandler base_handler
  | ContextHandler handler
  | SamplingHandler sample_ref handler
  | CountingHandler handler

definition NewSamplingHandler :: "handler \<Rightarrow> int \<Rightarrow> duration \<Rightarrow> bool \<Rightarrow> sample_store \<Rightarrow> handler \<times> sample_store" where
  "NewSamplingHandler h n i rec hp =
     (let (p, hp') = alloc_state (new_sampleState n i rec) hp in (SamplingHandler p h, hp'))"

text \<open>
  \<open>WithAttrs\<close> and \<open>WithGroup\<close> of each wrapper derive the handler inside and wrap it again; the
  sampler passes its pointer on.
\<close>

fun handler_WithAttrs :: "attr list \<Rightarrow> handler \<Rightarrow> sample_store \<Rightarrow> handler \<times> sample_store" where
  "handler_WithAttrs as (BaseHandler b) hp = (BaseHandler (base_WithAttrs as b), hp)"
| "handler_WithAttrs as (ContextHandler h) hp =
     (let (h', hp') = handler_WithAttrs as h hp in (ContextHandler h', hp'))"
| "handler_WithAttrs as (SamplingHandler p h) hp =
     (let (h', hp') = handler_WithAttrs as h hp in (SamplingHandler p h', hp'))"
| "handler_WithAttrs as (CountingHandler h) hp =
     (let (h', hp') = handler_WithAttrs as h hp in (CountingHandler h', hp'))"

fun handler_WithGroup :: "string \<Rightarrow> handler \<Rightarrow> sample_store \<Rightarrow> handler \<times> sample_store" where
  "handler_WithGroup g (BaseHandler b) hp = (BaseHandler (base_WithGroup g b), hp)"
| "handler_WithGroup g (ContextHandler h) hp =
     (let (h', hp') = handler_WithGroup g h hp in (ContextHandler h', hp'))"
| "handler_WithGroup g (SamplingHandler p h) hp =
     (let (h', hp') = handler_WithGroup g h hp in (SamplingHandler p h', hp'))"
| "handler_WithGroup g (CountingHandler h) hp =
     (let (h', hp') = handler_WithGroup g h hp in (CountingHandler h', hp'))"

text \<open>The loggers derived from one: \<open>Logger.With\<close> and \<open>Logger.WithGroup\<close>.\<close>

datatype logger_op = With "attr list" | WithGroup string

fun derive :: "logger_op list \<Rightarrow> handler \<Rightarrow> sample_store \<Rightarrow> handler \<times> sample_store" where
  "derive [] h hp = (h, hp)"
| "derive (With as # ops) h hp =
     (let (h', hp') = (if as = [] then (h, hp) else handler_WithAttrs as h hp) in derive ops h' hp')"
| "derive (WithGroup g # ops) h hp =
     (let (h', hp') = (if g = [] then (h, hp) else handler_WithGroup g h hp) in derive ops h' hp')"

text \<open>A line written to standard output: level, message, attributes.\<close>

datatype log_out = Out level string "attr list" | Counted effect

text \<open>\<open>ContextHandler.Handle\<close> adds the attributes of the context to the record.\<close>

definition enrich :: "log_ctx \<Rightarrow> log_rec \<Rightarrow> log_rec" where
  "enrich ctx r = (if Attrs ctx \<noteq> [] then r\<lparr>RAttrs := RAttrs r @ Attrs ctx\<rparr> else r)"

text \<open>\<open>countingHandler.Handle\<close> counts the record before passing it on.\<close>

definition count_record :: "log_rec \<Rightarrow> log_out list" where
  "count_record r = map Counted (LogRecord (level_string (RLevel r)))"

fun Handle :: "(goerr \<Rightarrow> string) \<Rightarrow> handler \<Rightarrow> log_ctx \<Rightarrow> log_rec \<Rightarrow> sample_store \<Rightarrow> log_out list \<times> sample_store" where
  "Handle etext (BaseHandler b) ctx r hp = ([Out (RLevel r) (RMessage r) (base_line etext b r)], hp)"
| "Handle etext (ContextHandler h) ctx r hp =
     Handle etext h ctx (enrich ctx r) hp"
| "Handle etext (SamplingHandler p h) ctx r hp =
     (if LevelWarn \<le> RLevel r then Handle etext h ctx r hp
      else case sample r (hp ! p) of
             (None, s') \<Rightarrow>
               (if has_rec s' then map Counted (LogRecordDropped (level_string (RLevel r))) else [], hp[p := s'])
           | (Some r', s') \<Rightarrow> Handle etext h ctx r' (hp[p := s']))"
| "Handle etext (CountingHandler h) ctx r hp =
     (case Handle etext h ctx r hp of (out, hp') \<Rightarrow>
       (count_record r @ out, hp'))"

record log_config =
  CLevel :: string
  CFormat :: string
  CSource :: bool
  SampleN :: int
  SampleInterval :: duration
  HasRecorder :: bool
  Service :: string
  Version :: string
  LEnv :: string

text \<open>\<open>New\<close>: the handler behind the logger, the store with its sampler's state and the initial level.\<close>

definition new_base :: "log_config \<Rightarrow> base_handler" where
  "new_base cfg =
     \<lparr>encoder_of = (if CFormat cfg = ''text'' then TextHandler else JSONHandler), AddSource = CSource cfg,
      top_attrs = [], open_groups = []\<rparr>"

definition logging_New :: "log_config \<Rightarrow> sample_store \<Rightarrow> handler \<times> sample_store \<times> level" where
  "logging_New cfg hp =
     (let h1 = ContextHandler (BaseHandler (new_base cfg));
          (h2, hp2) = (if 0 < SampleN cfg
                       then NewSamplingHandler h1 (SampleN cfg) (SampleInterval cfg) (HasRecorder cfg) hp else (h1, hp));
          h3 = (if HasRecorder cfg then CountingHandler h2 else h2);
          (h4, hp4) = handler_WithAttrs
            [(''service'', AStr (Service cfg)), (''version'', AStr (Version cfg)), (''env'', AStr (LEnv cfg))] h3 hp2
      in (h4, hp4, parseLevel (CLevel cfg)))"

text \<open>
  The warning that \<open>New\<close> defers for a format it does not know: straight to the base handler, if the
  level admits it; \<open>src\<close> is the call site.
\<close>

definition New_warning :: "(goerr \<Rightarrow> string) \<Rightarrow> time \<Rightarrow> string \<times> int \<Rightarrow> log_config \<Rightarrow> log_out list" where
  "New_warning etext now src cfg =
     (if CFormat cfg \<noteq> ''text'' \<and> CFormat cfg \<noteq> ''json'' \<and> CFormat cfg \<noteq> [] \<and> parseLevel (CLevel cfg) \<le> LevelWarn
      then [Out LevelWarn ''unknown log format, defaulting to json''
              (base_line etext (new_base cfg)
                \<lparr>RLevel = LevelWarn, RMessage = ''unknown log format, defaulting to json'', RTime = now,
                 RAttrs = [(''got'', AStr (CFormat cfg)), (''want'', AStrs [''json'', ''text''])], RSource = src\<rparr>)]
      else [])"

text \<open>
  A call of the logger: \<open>Enabled\<close> of every wrapper is that of the base handler, which compares
  with the level variable.
\<close>

definition log_call :: "(goerr \<Rightarrow> string) \<Rightarrow> handler \<Rightarrow> level \<Rightarrow> log_ctx \<times> log_rec \<Rightarrow> sample_store
    \<Rightarrow> log_out list \<times> sample_store" where
  "log_call etext h lv c hp = (if lv \<le> RLevel (snd c) then Handle etext h (fst c) (snd c) hp else ([], hp))"

fun log_calls :: "(goerr \<Rightarrow> string) \<Rightarrow> handler \<Rightarrow> level \<Rightarrow> (log_ctx \<times> log_rec) list \<Rightarrow> sample_store
    \<Rightarrow> log_out list \<times> sample_store" where
  "log_calls etext h lv [] hp = ([], hp)"
| "log_calls etext h lv (c # cs) hp =
     (let (o1, hp1) = log_call etext h lv c hp; (o2, hp2) = log_calls etext h lv cs hp1 in (o1 @ o2, hp2))"

subsection \<open>Observing the output and the sampler\<close>

fun lines :: "log_out list \<Rightarrow> (level \<times> string \<times> attr list) list" where
  "lines [] = []"
| "lines (Out l m as # os) = (l, m, as) # lines os"
| "lines (Counted e # os) = lines os"

fun counted :: "log_out list \<Rightarrow> effect list" where
  "counted [] = []"
| "counted (Out l m as # os) = counted os"
| "counted (Counted e # os) = e # counted os"

definition passes :: "log_config \<Rightarrow> log_rec \<Rightarrow> sample_state \<Rightarrow> log_rec option" where
  "passes cfg r s = (if LevelWarn \<le> RLevel r \<or> SampleN cfg \<le> 0 then Some r else fst (sample r s))"

definition service_attrs :: "log_config \<Rightarrow> attr list" where
  "service_attrs cfg =
     [(''service'', AStr (Service cfg)), (''version'', AStr (Version cfg)), (''env'', AStr (LEnv cfg))]"

fun sample_run :: "log_rec list \<Rightarrow> sample_state \<Rightarrow> (log_rec \<times> log_rec option) list \<times> sample_state" where
  "sample_run [] s = ([], s)"
| "sample_run (r # rs) s =
     (let (x, s1) = sample r s; (xs, s2) = sample_run rs s1 in ((r, x) # xs, s2))"

definition bucket_ok :: "int \<Rightarrow> bucket \<Rightarrow> bool" where
  "bucket_ok n b \<longleftrightarrow> 0 \<le> seen b \<and> seen b \<le> n \<and> 0 \<le> dropped b"

definition sampler_ok :: "sample_state \<Rightarrow> bool" where
  "sampler_ok s \<longleftrightarrow> 0 < perInterval s \<and> 0 < window s \<and> distinct (map fst (buckets s)) \<and>
     length (buckets s) \<le> Suc maxSampleKeys \<and> (\<forall>b \<in> snd ` set (buckets s). bucket_ok (perInterval s) b)"

definition pending :: "string \<Rightarrow> sample_state \<Rightarrow> int" where
  "pending m s = (case map_of (buckets s) m of None \<Rightarrow> 0 | Some b \<Rightarrow> dropped b)"

definition reported :: "log_rec \<times> log_rec option \<Rightarrow> int" where
  "reported x =
     (case snd x of
        None \<Rightarrow> 0
      | Some r' \<Rightarrow> (case drop (length (RAttrs (fst x))) (RAttrs r') of [(k, AInt n)] \<Rightarrow> n | _ \<Rightarrow> 0))"

definition of_message :: "string \<Rightarrow> (log_rec \<times> log_rec option) list \<Rightarrow> (log_rec \<times> log_rec option) list" where
  "of_message m xs = filter (\<lambda>x. RMessage (fst x) = m) xs"

definition allowance :: "time \<Rightarrow> string \<Rightarrow> sample_state \<Rightarrow> int" where
  "allowance T m s =
     (case map_of (buckets s) m of
        None \<Rightarrow> perInterval s
      | Some b \<Rightarrow> (if T \<le> windowStart b then perInterval s - seen b else 2 * perInterval s - seen b))"

subsection \<open>Derived loggers\<close>

text \<open>
  What a derived logger puts around the attributes of a record: every group holds all that was added
  after it.
\<close>

fun scope :: "logger_op list \<Rightarrow> attr list \<Rightarrow> attr list" where
  "scope [] as = as"
| "scope (With bs # ops) as = bs @ scope ops as"
| "scope (WithGroup g # ops) as = (if g = [] then scope ops as else [(g, AGroup (scope ops as))])"

text \<open>The attributes that a value holds at any depth of groups.\<close>

primrec val_leaves :: "attr_val \<Rightarrow> string \<Rightarrow> attr list" where
  "val_leaves (AStr x) k = [(k, AStr x)]"
| "val_leaves (AInt x) k = [(k, AInt x)]"
| "val_leaves (AErr x) k = [(k, AErr x)]"
| "val_leaves (ADur x) k = [(k, ADur x)]"
| "val_leaves (ABool x) k = [(k, ABool x)]"
| "val_leaves (AMillis x) k = [(k, AMillis x)]"
| "val_leaves AStack k = [(k, AStack)]"
| "val_leaves (AStrs x) k = [(k, AStrs x)]"
| "val_leaves (ASource x y) k = [(k, ASource x y)]"
| "val_leaves (AGroup as) k = concat (map (\<lambda>(key, f). f key) (map (map_prod id val_leaves) as))"

definition leaves :: "attr list \<Rightarrow> attr list" where
  "leaves as = concat (map (\<lambda>(k, v). val_leaves v k) as)"

text \<open>The names of the groups in it.\<close>

primrec val_groups :: "attr_val \<Rightarrow> string \<Rightarrow> string list" where
  "val_groups (AStr x) k = []"
| "val_groups (AInt x) k = []"
| "val_groups (AErr x) k = []"
| "val_groups (ADur x) k = []"
| "val_groups (ABool x) k = []"
| "val_groups (AMillis x) k = []"
| "val_groups AStack k = []"
| "val_groups (AStrs x) k = []"
| "val_groups (ASource x y) k = []"
| "val_groups (AGroup as) k = k # concat (map (\<lambda>(key, f). f key) (map (map_prod id val_groups) as))"

definition group_names :: "attr list \<Rightarrow> string list" where
  "group_names as = concat (map (\<lambda>(k, v). val_groups v k) as)"

definition wrap :: "log_config \<Rightarrow> sample_ref \<Rightarrow> base_handler \<Rightarrow> handler" where
  "wrap cfg p b =
     (let h1 = ContextHandler (BaseHandler b);
          h2 = (if 0 < SampleN cfg then SamplingHandler p h1 else h1)
      in if HasRecorder cfg then CountingHandler h2 else h2)"

fun base_derive :: "logger_op list \<Rightarrow> base_handler \<Rightarrow> base_handler" where
  "base_derive [] b = b"
| "base_derive (With as # ops) b = base_derive ops (if as = [] then b else base_WithAttrs as b)"
| "base_derive (WithGroup g # ops) b = base_derive ops (if g = [] then b else base_WithGroup g b)"

text \<open>
  Calls of loggers derived from one, \<open>log.With(...).WithGroup(...).InfoContext(...)\<close>, each given by
  its derivation, in the order of the sampler's lock; and the records among them that the sampler decides on.
\<close>

fun shared_calls :: "(goerr \<Rightarrow> string) \<Rightarrow> handler \<Rightarrow> level \<Rightarrow> (logger_op list \<times> log_ctx \<times> log_rec) list \<Rightarrow> sample_store
    \<Rightarrow> log_out list \<times> sample_store" where
  "shared_calls etext h lv [] hp = ([], hp)"
| "shared_calls etext h lv ((ops, c) # cs) hp =
     (let (h', hp') = derive ops h hp; (o1, hp1) = log_call etext h' lv c hp';
          (o2, hp2) = shared_calls etext h lv cs hp1 in (o1 @ o2, hp2))"

definition sampled :: "level \<Rightarrow> (logger_op list \<times> log_ctx \<times> log_rec) list \<Rightarrow> log_rec list" where
  "sampled lv cs = filter (\<lambda>r. lv \<le> RLevel r \<and> \<not> LevelWarn \<le> RLevel r) (map (snd \<circ> snd) cs)"

subsection \<open>Concrete records\<close>

definition sample_records :: "log_rec list" where
  "sample_records =
     map (\<lambda>t. \<lparr>RLevel = LevelInfo, RMessage = ''tick'', RTime = t, RAttrs = [], RSource = ([], 0)\<rparr>) [0, 1, 2, 2000]"

definition sample_shared_calls :: "(logger_op list \<times> log_ctx \<times> log_rec) list" where
  "sample_shared_calls =
     zip [[], [With [(''component'', AStr ''worker'')]], [WithGroup ''db''], []] (map (\<lambda>r. ([], r)) sample_records)"

definition sample_log_config :: log_config where
  "sample_log_config =
     \<lparr>CLevel = ''info'', CFormat = ''json'', CSource = False, SampleN = 1, SampleInterval = 1000, HasRecorder = True,
      Service = ''orders'', Version = ''dev'', LEnv = ''dev''\<rparr>"

definition sample_error_call :: "log_ctx \<times> log_rec" where
  "sample_error_call =
     (WithRequestID [] ''r-1'',
      \<lparr>RLevel = LevelError, RMessage = ''boom'', RTime = 3, RAttrs = [(''Auth_Token'', AStr ''hunter2'')], RSource = ([], 0)\<rparr>)"

definition crowded_sampler :: sample_state where
  "crowded_sampler =
     \<lparr>perInterval = 1, window = 1000, has_rec = True,
      buckets = map (\<lambda>i. (decimal i, \<lparr>windowStart = 0, seen = 1, dropped = 5\<rparr>)) [0..<1025]\<rparr>"

section \<open>Lemmas\<close>

lemmas handler_steps [simp] = enrich_def count_record_def

lemma lines_append [simp]: "lines (xs @ ys) = lines xs @ lines ys"
  by (induction xs rule: lines.induct) auto

lemma counted_append [simp]: "counted (xs @ ys) = counted xs @ counted ys"
  by (induction xs rule: counted.induct) auto

lemma lines_Counted [simp]: "lines (map Counted es) = []"
  by (induction es) auto

lemma counted_Counted [simp]: "counted (map Counted es) = es"
  by (induction es) auto

lemma set_lines: "(l, m, as) \<in> set (lines os) \<longleftrightarrow> Out l m as \<in> set os"
  by (induction os rule: lines.induct) auto

lemma log_counter_delta [simp]:
  "ctr log_records [q] (LogRecord l) = of_bool (l = q)"
  "ctr log_records [q] (LogRecordDropped l) = 0"
  "ctr log_dropped [q] (LogRecord l) = 0"
  "ctr log_dropped [q] (LogRecordDropped l) = of_bool (l = q)"
  by (simp_all add: LogRecord_def LogRecordDropped_def delta_Metric log_records_def log_dropped_def)

lemma sample_level:
  "sample r s = (Some r', s') \<Longrightarrow> RLevel r' = RLevel r \<and> RMessage r' = RMessage r \<and> RSource r' = RSource r \<and> set (RAttrs r) \<subseteq> set (RAttrs r')"
  by (auto simp: sample_def sample_bucket_def Let_def split: if_splits prod.splits)

subsection \<open>Every line\<close>

lemma replaceAttr_key [simp]: "fst (replaceAttr etext a) = fst a"
  by (auto simp: replaceAttr_def split: attr_val.splits)

lemma replaceAttr_leaf: "isSensitive (fst a) \<Longrightarrow> snd (replaceAttr etext a) = AStr ''[REDACTED]''"
proof -
  have "\<not> isSensitive ''source''" by code_simp
  then show "isSensitive (fst a) \<Longrightarrow> ?thesis" by (auto simp: replaceAttr_def)
qed

lemma replaceAttr_group: "(\<And>as. v \<noteq> AGroup as) \<Longrightarrow> leaves [replaceAttr etext (k, v)] = [replaceAttr etext (k, v)]"
  by (cases v) (auto simp: replaceAttr_def leaves_def)

lemma leaves_Nil: "leaves [] = []"
  by (simp add: leaves_def)

lemma leaves_append [simp]: "leaves (as @ bs) = leaves as @ leaves bs"
  by (simp add: leaves_def)

lemma leaves_group: "leaves [(k, AGroup as)] = leaves as"
  by (simp add: leaves_def comp_def case_prod_unfold)

lemma leaves_concat: "leaves (concat xss) = concat (map leaves xss)"
  by (induction xss) (auto simp: leaves_def)

text \<open>No attribute that looks sensitive leaves with its value, at whatever depth.\<close>

lemma out_val_redacts: "(k, v) \<in> set (leaves (out_val etext x key)) \<Longrightarrow> isSensitive k \<Longrightarrow> v = AStr ''[REDACTED]''"
proof (induction x arbitrary: key)
  case (AGroup as)
  then obtain p where p: "p \<in> set as" "(k, v) \<in> set (leaves (out_val etext (snd p) (fst p)))"
    by (auto simp: Let_def leaves_group leaves_concat leaves_Nil split_beta split: if_splits)
  then show ?case using AGroup.IH [of p "snd p" "fst p"] AGroup.prems(2) by (simp add: snds.intros)
qed (use replaceAttr_leaf [of _ etext] replaceAttr_key [of etext] in \<open>(simp add: replaceAttr_group, metis prod.collapse fst_conv snd_conv)+\<close>)

lemma line_attrs_append [simp]: "line_attrs etext (as @ bs) = line_attrs etext as @ line_attrs etext bs"
  by (simp add: line_attrs_def)

lemma line_attrs_redacts: "(k, v) \<in> set (leaves (line_attrs etext as)) \<Longrightarrow> isSensitive k \<Longrightarrow> v = AStr ''[REDACTED]''"
  by (auto simp: line_attrs_def leaves_concat out_val_redacts)

text \<open>A line has no groups but those it was given.\<close>

lemma group_names_simps [simp]: "group_names [] = []" "group_names (as @ bs) = group_names as @ group_names bs"
  "group_names ((k, v) # as) = val_groups v k @ group_names as"
  by (simp_all add: group_names_def)

lemma group_names_concat: "group_names (concat xss) = concat (map group_names xss)"
  by (induction xss) auto

lemma replaceAttr_groups: "(\<And>as. v \<noteq> AGroup as) \<Longrightarrow> group_names [replaceAttr etext (k, v)] = []"
  by (cases v) (auto simp: replaceAttr_def)

lemma val_groups_group: "val_groups (AGroup as) k = k # group_names as"
  by (simp add: group_names_def comp_def case_prod_unfold)

lemma out_val_groups: "set (group_names (out_val etext x key)) \<subseteq> set (val_groups x key)"
proof (induction x arbitrary: key)
  case (AGroup as)
  have "set (group_names (out_val etext (snd p) (fst p))) \<subseteq> set (val_groups (snd p) (fst p))" if "p \<in> set as" for p
    using AGroup.IH [of p "snd p" "fst p"] that by (simp add: snds.intros)
  moreover define inner where "inner = concat (map (\<lambda>p. out_val etext (snd p) (fst p)) as)"
  ultimately have "set (group_names inner) \<subseteq> set (group_names as)"
    by (simp add: group_names_concat group_names_def case_prod_unfold) blast
  moreover have "out_val etext (AGroup as) key = (if inner = [] then [] else if key = [] then inner else [(key, AGroup inner)])"
    by (simp add: inner_def comp_def case_prod_unfold Let_def)
  ultimately show ?case by (auto simp: val_groups_group simp del: out_val.simps val_groups.simps)
qed (use replaceAttr_groups [of _ etext] in simp_all)

lemma line_attrs_groups: "set (group_names (line_attrs etext as)) \<subseteq> set (group_names as)"
proof -
  have "set (group_names (out_val etext (snd p) (fst p))) \<subseteq> set (val_groups (snd p) (fst p))" for p by (rule out_val_groups)
  then have "set (group_names (line_attrs etext as)) \<subseteq> set (concat (map (\<lambda>p. val_groups (snd p) (fst p)) as))"
    by (simp add: line_attrs_def group_names_concat case_prod_unfold) blast
  then show ?thesis by (simp only: group_names_def case_prod_unfold)
qed

lemma Handle_redacts:
  "(l, m, as) \<in> set (lines (fst (Handle etext h ctx r hp))) \<Longrightarrow> (k, v) \<in> set (leaves as) \<Longrightarrow> isSensitive k \<Longrightarrow>
     v = AStr ''[REDACTED]''"
proof (induction etext h ctx r hp rule: Handle.induct)
  case (1 etext b ctx r hp)
  then show ?case by (simp add: base_line_def line_attrs_redacts del: line_attrs_append leaves_append)
next
  case (3 etext p h ctx r hp)
  then show ?case by (auto split: if_splits prod.splits option.splits)
next
  case (4 etext h ctx r hp)
  then show ?case by (auto split: prod.splits)
qed auto

subsection \<open>The chain that New builds, and the loggers derived from it\<close>

lemma nest_snoc: "nest (gs @ [(g, bs)]) as = nest gs [(g, AGroup (bs @ as))]"
  by (induction gs as rule: nest.induct) auto

lemma base_step:
  "top_attrs (base_WithAttrs bs b) @ nest (open_groups (base_WithAttrs bs b)) as = top_attrs b @ nest (open_groups b) (bs @ as)"
  "top_attrs (base_WithGroup g b) @ nest (open_groups (base_WithGroup g b)) as = top_attrs b @ nest (open_groups b) [(g, AGroup as)]"
  "AddSource (base_WithAttrs bs b) = AddSource b" "AddSource (base_WithGroup g b) = AddSource b"
  by (cases "open_groups b" rule: rev_cases, auto simp: base_WithAttrs_def base_WithGroup_def nest_snoc)

lemma base_derive_scope:
  "top_attrs (base_derive ops b) @ nest (open_groups (base_derive ops b)) as = top_attrs b @ nest (open_groups b) (scope ops as) \<and>
   AddSource (base_derive ops b) = AddSource b"
  by (induction ops b rule: base_derive.induct) (auto simp: base_step)

text \<open>Deriving a logger allocates nothing and keeps the sampler's address.\<close>

lemma With_wrap:
  "handler_WithAttrs as (wrap cfg p b) hp = (wrap cfg p (base_WithAttrs as b), hp)"
  "handler_WithGroup g (wrap cfg p b) hp = (wrap cfg p (base_WithGroup g b), hp)"
  by (simp_all add: wrap_def Let_def)

lemma derive_wrap: "derive ops (wrap cfg p b) hp = (wrap cfg p (base_derive ops b), hp)"
  by (induction ops b rule: base_derive.induct) (auto simp: With_wrap)

lemma New_wrap:
  assumes "logging_New cfg hp0 = (h, hp1, lv0)"
  shows "h = wrap cfg (length hp0) ((new_base cfg)\<lparr>top_attrs := service_attrs cfg\<rparr>)"
    "hp1 = (if 0 < SampleN cfg then hp0 @ [new_sampleState (SampleN cfg) (SampleInterval cfg) (HasRecorder cfg)] else hp0)"
  using assms
  by (auto simp: logging_New_def NewSamplingHandler_def alloc_state_def wrap_def Let_def service_attrs_def
      base_WithAttrs_def new_base_def split: if_splits)

lemma passes_kept:
  "passes cfg r s = Some r' \<Longrightarrow> RSource r' = RSource r \<and> RLevel r' = RLevel r \<and> RMessage r' = RMessage r \<and>
     set (RAttrs r) \<subseteq> set (RAttrs r') \<and> group_names (RAttrs r') = group_names (RAttrs r)"
  by (auto simp: passes_def sample_def sample_bucket_def Let_def split: if_splits prod.splits)

lemma wrap_lines:
  "lines (fst (Handle etext (wrap cfg p b) ctx r hp)) =
    (case passes cfg r (hp ! p) of
       None \<Rightarrow> []
     | Some r' \<Rightarrow> [(RLevel r, RMessage r, base_line etext b (r'\<lparr>RAttrs := RAttrs r' @ ctx\<rparr>))])"
  by (auto simp: wrap_def Let_def passes_def Attrs_def split: prod.splits option.splits dest: sample_level)

lemma derived_lines:
  assumes "logging_New cfg hp0 = (h, hp1, lv0)"
  shows "lines (fst (Handle etext (fst (derive ops h hp)) ctx r hp)) =
    (case passes cfg r (hp ! length hp0) of
       None \<Rightarrow> []
     | Some r' \<Rightarrow> [(RLevel r, RMessage r,
         line_attrs etext (source_attrs (CSource cfg) r @ service_attrs cfg @ scope ops (RAttrs r' @ ctx)))])"
proof -
  let ?b = "(new_base cfg)\<lparr>top_attrs := service_attrs cfg\<rparr>"
  have "base_line etext (base_derive ops ?b) (r'\<lparr>RAttrs := RAttrs r' @ ctx\<rparr>) =
      line_attrs etext (source_attrs (CSource cfg) r @ service_attrs cfg @ scope ops (RAttrs r' @ ctx))"
    if "passes cfg r s = Some r'" for r' s
    using base_derive_scope [of ops ?b "RAttrs r' @ ctx"] passes_kept [OF that]
    by (simp add: base_line_def new_base_def source_attrs_def del: line_attrs_append)
  then show ?thesis
    by (auto simp: New_wrap(1) [OF assms] derive_wrap wrap_lines split: option.split)
qed

lemma sample_params [simp]:
  "perInterval (snd (sample r s)) = perInterval s" "window (snd (sample r s)) = window s"
  "has_rec (snd (sample r s)) = has_rec s"
  by (simp_all add: sample_def Let_def split: prod.split)

lemma sample_keeps:
  "sample r s = (x, s') \<Longrightarrow> perInterval s' = perInterval s \<and> window s' = window s \<and> has_rec s' = has_rec s"
  using sample_params [of r s] by simp

lemma wrap_counted:
  assumes "HasRecorder cfg" "has_rec (hp ! p)"
  shows "counted (fst (Handle etext (wrap cfg p b) ctx r hp)) =
    LogRecord (level_string (RLevel r)) @
    (if passes cfg r (hp ! p) = None then LogRecordDropped (level_string (RLevel r)) else [])"
  using assms sample_keeps [of r "hp ! p"]
  by (auto simp: wrap_def Let_def passes_def split: prod.splits option.splits)

lemma wrap_state:
  "snd (Handle etext (wrap cfg p b) ctx r hp) =
    (if LevelWarn \<le> RLevel r \<or> SampleN cfg \<le> 0 then hp else hp[p := snd (sample r (hp ! p))])"
  by (auto simp: wrap_def Let_def split: prod.splits option.splits)

lemma wrap_has_rec: "has_rec (hp ! p) \<Longrightarrow> has_rec (snd (Handle etext (wrap cfg p b) ctx r hp) ! p)"
  by (cases "p < length hp") (simp_all add: wrap_state list_update_beyond)

lemma New_lines:
  assumes "logging_New cfg hp0 = (h, hp1, lv0)"
  shows "lines (fst (Handle etext h ctx r hp)) =
    (case passes cfg r (hp ! length hp0) of
       None \<Rightarrow> []
     | Some r' \<Rightarrow> [(RLevel r, RMessage r, line_attrs etext (source_attrs (CSource cfg) r @ service_attrs cfg @ RAttrs r' @ ctx))])"
  using derived_lines [OF assms, of etext "[]" hp ctx r] by (simp split: option.split)

lemma New_counted:
  assumes "logging_New cfg hp0 = (h, hp1, lv0)" "HasRecorder cfg" "has_rec (hp ! length hp0)"
  shows "counted (fst (Handle etext h ctx r hp)) =
    LogRecord (level_string (RLevel r)) @
    (if passes cfg r (hp ! length hp0) = None then LogRecordDropped (level_string (RLevel r)) else [])"
  using New_wrap(1) [OF assms(1)] wrap_counted [OF assms(2,3)] by simp

lemma log_calls_counts:
  assumes "logging_New cfg hp0 = (h, hp1, lv0)" "HasRecorder cfg"
    and "log_calls etext h lv cs hp = (out, hp')" "has_rec (hp ! length hp0)"
  shows "ctr log_records [q] (counted out) =
      int (length (filter (\<lambda>c. lv \<le> RLevel (snd c) \<and> level_string (RLevel (snd c)) = q) cs)) \<and>
    ctr log_records [q] (counted out) =
      ctr log_dropped [q] (counted out) + int (length (filter (\<lambda>(l, m, as). level_string l = q) (lines out)))"
  using assms(3,4)
proof (induction cs arbitrary: hp out hp')
  case (Cons c cs)
  obtain o1 h1 where one: "log_call etext h lv c hp = (o1, h1)" by fastforce
  obtain o2 h2 where rest: "log_calls etext h lv cs h1 = (o2, h2)" by fastforce
  have out: "out = o1 @ o2" using Cons.prems one rest by simp
  have "has_rec (h1 ! length hp0)"
    using one wrap_has_rec [OF Cons.prems(2)] Cons.prems(2)
    by (simp add: log_call_def New_wrap(1) [OF assms(1)] split: if_splits) (metis snd_conv)
  note IH = Cons.IH [OF rest this]
  show ?case
  proof (cases "lv \<le> RLevel (snd c)")
    case False
    then have "o1 = []" using one by (simp add: log_call_def)
    then show ?thesis using IH rest Cons.prems one out False by auto
  next
    case True
    then have o1: "o1 = fst (Handle etext h (fst c) (snd c) hp)" using one by (simp add: log_call_def)
    show ?thesis
      using IH rest Cons.prems one out True New_lines [OF assms(1), of etext "fst c" "snd c" hp]
        New_counted [OF assms(1,2) Cons.prems(2), of etext "fst c" "snd c"]
      by (auto simp: o1 split: option.splits)
  qed
qed simp

lemma log_calls_urgent:
  assumes "logging_New cfg hp0 = (h, hp1, lv0)" and "log_calls etext h lv cs hp = (out, hp')"
  shows "filter (\<lambda>x. LevelWarn \<le> fst x) (lines out) =
    map (\<lambda>(ctx, r). (RLevel r, RMessage r, line_attrs etext (source_attrs (CSource cfg) r @ service_attrs cfg @ RAttrs r @ ctx)))
      (filter (\<lambda>c. lv \<le> RLevel (snd c) \<and> LevelWarn \<le> RLevel (snd c)) cs)"
  using assms(2)
proof (induction cs arbitrary: hp out hp')
  case (Cons c cs)
  obtain o1 h1 where one: "log_call etext h lv c hp = (o1, h1)" by fastforce
  obtain o2 h2 where rest: "log_calls etext h lv cs h1 = (o2, h2)" by fastforce
  have out: "out = o1 @ o2" using Cons.prems one rest by simp
  obtain ctx r where c: "c = (ctx, r)" by fastforce
  have "filter (\<lambda>x. LevelWarn \<le> fst x) (lines o1) =
    (if lv \<le> RLevel r \<and> LevelWarn \<le> RLevel r
     then [(RLevel r, RMessage r, line_attrs etext (source_attrs (CSource cfg) r @ service_attrs cfg @ RAttrs r @ ctx))] else [])"
    using one New_lines [OF assms(1), of etext ctx r hp]
    by (cases "LevelWarn \<le> RLevel r") (auto simp: c log_call_def passes_def split: if_splits option.splits)
  then show ?case using Cons.IH [OF rest] by (simp add: out c)
qed simp

lemma log_calls_lines:
  assumes "logging_New cfg hp0 = (h, hp1, lv0)" and "log_calls etext h lv cs hp = (out, hp')"
    and "(l, m, as) \<in> set (lines out)"
  shows "\<exists>(ctx, r) \<in> set cs. l = RLevel r \<and> m = RMessage r \<and>
    set (line_attrs etext (source_attrs (CSource cfg) r @ service_attrs cfg @ RAttrs r @ ctx)) \<subseteq> set as \<and>
    set (group_names as) \<subseteq> set (group_names (RAttrs r @ ctx))"
  using assms(2,3)
proof (induction cs arbitrary: hp out hp')
  case (Cons c cs)
  obtain o1 h1 where one: "log_call etext h lv c hp = (o1, h1)" by fastforce
  obtain o2 h2 where rest: "log_calls etext h lv cs h1 = (o2, h2)" by fastforce
  have out: "out = o1 @ o2" using Cons.prems one rest by simp
  show ?case
  proof (cases "(l, m, as) \<in> set (lines o2)")
    case True
    from Cons.IH [OF rest this] show ?thesis by auto
  next
    case False
    then have "(l, m, as) \<in> set (lines o1)" using Cons.prems(2) out by simp
    then have "(l, m, as) \<in> set (lines (fst (Handle etext h (fst c) (snd c) hp)))"
      using one by (auto simp: log_call_def split: if_splits)
    then obtain r' where r': "passes cfg (snd c) (hp ! length hp0) = Some r'" "l = RLevel (snd c)" "m = RMessage (snd c)"
      "as = line_attrs etext (source_attrs (CSource cfg) (snd c) @ service_attrs cfg @ RAttrs r' @ fst c)"
      by (cases "passes cfg (snd c) (hp ! length hp0)") (auto simp: New_lines [OF assms(1)])
    have "set (RAttrs (snd c)) \<subseteq> set (RAttrs r')" using passes_kept [OF r'(1)] by simp
    then have "set (line_attrs etext (RAttrs (snd c))) \<subseteq> set (line_attrs etext (RAttrs r'))" by (auto simp: line_attrs_def)
    moreover have "set (group_names as) \<subseteq> set (group_names (RAttrs (snd c) @ fst c))"
      using line_attrs_groups [of etext "source_attrs (CSource cfg) (snd c) @ service_attrs cfg @ RAttrs r' @ fst c"]
        passes_kept [OF r'(1)]
      by (auto simp: r'(4) source_attrs_def service_attrs_def)
    ultimately show ?thesis using r' by (intro bexI [of _ c]) auto
  qed
qed simp

lemma length_update: "length (AList.update k v xs) = (if k \<in> fst ` set xs then length xs else Suc (length xs))"
  by (induction xs) auto

lemma snd_update: "x \<in> snd ` set (AList.update k v xs) \<Longrightarrow> x = v \<or> x \<in> snd ` set xs"
  by (induction xs) (auto split: if_splits)

lemma new_sampleState_ok: "sampler_ok (new_sampleState n i rec)"
  by (simp add: new_sampleState_def sampler_ok_def)

lemma bucket_for_ok: "sampler_ok s \<Longrightarrow> bucket_ok (perInterval s) (bucket_for r (live_buckets s))"
  by (auto simp: sampler_ok_def bucket_for_def live_buckets_def bucket_ok_def image_iff
      dest!: map_of_SomeD split: option.split)

lemma sample_bucket_ok:
  "0 < n \<Longrightarrow> bucket_ok n b \<Longrightarrow> sample_bucket n w r b = (x, b') \<Longrightarrow> bucket_ok n b'"
  by (auto simp: sample_bucket_def bucket_ok_def split: if_splits)

lemma sample_ok:
  assumes "sampler_ok s"
  shows "sampler_ok (snd (sample r s))"
proof -
  obtain x b where d: "sample_bucket (perInterval s) (window s) r (bucket_for r (live_buckets s)) = (x, b)" by fastforce
  have b: "bucket_ok (perInterval s) b"
    using sample_bucket_ok [OF _ bucket_for_ok [OF assms] d] assms by (simp add: sampler_ok_def)
  have live: "distinct (map fst (live_buckets s))" "length (live_buckets s) \<le> maxSampleKeys"
    "\<forall>y \<in> snd ` set (live_buckets s). bucket_ok (perInterval s) y"
    using assms by (auto simp: sampler_ok_def live_buckets_def)
  then have "distinct (map fst (AList.update (RMessage r) b (live_buckets s)))" by (intro distinct_update)
  moreover have "length (AList.update (RMessage r) b (live_buckets s)) \<le> Suc maxSampleKeys"
    using live(2) by (simp add: length_update)
  moreover have "\<forall>y \<in> snd ` set (AList.update (RMessage r) b (live_buckets s)). bucket_ok (perInterval s) y"
    using live(3) b snd_update [of _ "RMessage r" b "live_buckets s"] by metis
  ultimately show ?thesis using assms by (simp add: sample_def d sampler_ok_def)
qed

lemma sample_map:
  assumes "length (buckets s) \<le> maxSampleKeys"
    and "sample_bucket (perInterval s) (window s) r (bucket_for r (buckets s)) = (x, b)"
  shows "fst (sample r s) = x" "map_of (buckets (snd (sample r s))) = (map_of (buckets s))(RMessage r \<mapsto> b)"
    "fst ` set (buckets (snd (sample r s))) = insert (RMessage r) (fst ` set (buckets s))"
  using assms by (simp_all add: sample_def live_buckets_def update_conv' dom_update)

lemma bucket_of_ok:
  "sampler_ok s \<Longrightarrow> map_of (buckets s) m = Some b \<Longrightarrow> bucket_ok (perInterval s) b"
  by (auto simp: sampler_ok_def image_iff dest!: map_of_SomeD)

lemma sample_conserves:
  assumes ok: "sampler_ok s" and len: "length (buckets s) \<le> maxSampleKeys"
  shows "of_bool (RMessage r = m) * reported (r, fst (sample r s)) + pending m (snd (sample r s)) =
    pending m s + of_bool (RMessage r = m \<and> fst (sample r s) = None)"
proof -
  obtain x b where d: "sample_bucket (perInterval s) (window s) r (bucket_for r (buckets s)) = (x, b)" by fastforce
  note s = sample_map [OF len d]
  have "0 \<le> dropped (bucket_for r (buckets s))"
    using bucket_for_ok [OF ok, of r] len by (simp add: bucket_ok_def live_buckets_def)
  moreover have "pending (RMessage r) s = dropped (bucket_for r (buckets s))"
    by (simp add: pending_def bucket_for_def split: option.split)
  ultimately show ?thesis
    using d by (auto simp: s pending_def reported_def sample_bucket_def split: if_splits)
qed

lemma sample_allowance:
  assumes ok: "sampler_ok s" and len: "length (buckets s) \<le> maxSampleKeys"
    and t: "T \<le> RTime r" "RTime r < T + window s"
  shows "allowance T m (snd (sample r s)) + of_bool (RMessage r = m \<and> fst (sample r s) \<noteq> None) \<le> allowance T m s"
proof (cases "RMessage r = m")
  case True
  obtain x b where d: "sample_bucket (perInterval s) (window s) r (bucket_for r (buckets s)) = (x, b)" by fastforce
  note s = sample_map [OF len d]
  have w: "0 < window s" "0 < perInterval s" using ok by (auto simp: sampler_ok_def)
  have late: "\<not> window s \<le> time_sub (RTime r) c" if "T \<le> c" for c
    using t that w by (auto simp: time_sub_def)
  show ?thesis
  proof (cases "map_of (buckets s) m")
    case None
    then have "bucket_for r (buckets s) = \<lparr>windowStart = RTime r, seen = 0, dropped = 0\<rparr>"
      using True by (simp add: bucket_for_def)
    then show ?thesis using d None True late [OF t(1)] w t(1)
      by (auto simp: s allowance_def sample_bucket_def split: if_splits)
  next
    case (Some c)
    then have "bucket_for r (buckets s) = c" using True by (simp add: bucket_for_def)
    moreover have "bucket_ok (perInterval s) c" by (rule bucket_of_ok [OF ok Some])
    ultimately show ?thesis using d Some True late [of "windowStart c"] w t(1)
      by (auto simp: s allowance_def sample_bucket_def bucket_ok_def split: if_splits)
  qed
next
  case False
  obtain x b where d: "sample_bucket (perInterval s) (window s) r (bucket_for r (buckets s)) = (x, b)" by fastforce
  show ?thesis using False by (simp add: allowance_def sample_map [OF len d] split: option.split)
qed


lemma keys_bound:
  assumes "sampler_ok s" "fst ` set (buckets s) \<subseteq> M" "finite M" "card M \<le> maxSampleKeys"
  shows "length (buckets s) \<le> maxSampleKeys"
proof -
  have "length (buckets s) = card (fst ` set (buckets s))"
    using assms(1) distinct_card [of "map fst (buckets s)"] by (simp add: sampler_ok_def)
  also have "\<dots> \<le> card M" using assms(2,3) by (intro card_mono)
  finally show ?thesis using assms(4) by simp
qed

lemma sample_run_keeps: "sampler_ok s \<Longrightarrow> sample_run rs s = (xs, s') \<Longrightarrow> sampler_ok s'"
proof (induction rs arbitrary: s xs)
  case (Cons r rs)
  then show ?case using sample_ok [of s r] by (auto split: prod.splits)
qed simp

lemma sample_keys:
  assumes "length (buckets s) \<le> maxSampleKeys" "fst ` set (buckets s) \<subseteq> M" "RMessage r \<in> M"
  shows "fst ` set (buckets (snd (sample r s))) \<subseteq> M"
proof -
  obtain x b where d: "sample_bucket (perInterval s) (window s) r (bucket_for r (buckets s)) = (x, b)" by fastforce
  show ?thesis using assms sample_map(3) [OF assms(1) d] by simp
qed

lemma sample_run_conserves:
  assumes "finite M" "card M \<le> maxSampleKeys" "sampler_ok s" "fst ` set (buckets s) \<subseteq> M"
    and "RMessage ` set rs \<subseteq> M" "sample_run rs s = (xs, s')"
  shows "sum_list (map reported (of_message m xs)) + pending m s' =
    pending m s + int (length (filter (\<lambda>x. snd x = None) (of_message m xs)))"
  using assms(3-)
proof (induction rs arbitrary: s xs s')
  case (Cons r rs)
  obtain x s1 where one: "sample r s = (x, s1)" by fastforce
  obtain ys s2 where rest: "sample_run rs s1 = (ys, s2)" by fastforce
  have eqs: "xs = (r, x) # ys" "s' = s2" using Cons.prems(4) one rest by auto
  have len: "length (buckets s) \<le> maxSampleKeys" using keys_bound [OF Cons.prems(1,2) assms(1,2)] .
  have "sampler_ok s1" "fst ` set (buckets s1) \<subseteq> M"
    using sample_ok [OF Cons.prems(1), of r] sample_keys [OF len Cons.prems(2), of r] Cons.prems(3) one by auto
  from Cons.IH [OF this _ rest] Cons.prems(3) sample_conserves [OF Cons.prems(1) len, of r m] one
  show ?case by (auto simp: eqs of_message_def split: if_splits)
qed (simp add: of_message_def)

lemma sample_run_allowance:
  assumes "finite M" "card M \<le> maxSampleKeys" "sampler_ok s" "fst ` set (buckets s) \<subseteq> M"
    and "RMessage ` set rs \<subseteq> M" "\<forall>r \<in> set rs. T \<le> RTime r \<and> RTime r < T + window s" "sample_run rs s = (xs, s')"
  shows "allowance T m s' + int (length (filter (\<lambda>x. snd x \<noteq> None) (of_message m xs))) \<le> allowance T m s"
  using assms(3-)
proof (induction rs arbitrary: s xs s')
  case (Cons r rs)
  obtain x s1 where one: "sample r s = (x, s1)" by fastforce
  obtain ys s2 where rest: "sample_run rs s1 = (ys, s2)" by fastforce
  have eqs: "xs = (r, x) # ys" "s' = s2" using Cons.prems(5) one rest by auto
  have len: "length (buckets s) \<le> maxSampleKeys" using keys_bound [OF Cons.prems(1,2) assms(1,2)] .
  have "sampler_ok s1" "fst ` set (buckets s1) \<subseteq> M" "window s1 = window s"
    using sample_ok [OF Cons.prems(1), of r] sample_keys [OF len Cons.prems(2), of r] sample_params(2) [of r s]
      Cons.prems(3) one by auto
  then have "allowance T m s2 + int (length (filter (\<lambda>x. snd x \<noteq> None) (of_message m ys))) \<le> allowance T m s1"
    using Cons.IH [OF _ _ _ _ rest] Cons.prems(3,4) by simp
  moreover have "allowance T m s1 + of_bool (RMessage r = m \<and> x \<noteq> None) \<le> allowance T m s"
    using sample_allowance [OF Cons.prems(1) len, of T r m] Cons.prems(4) one by simp
  ultimately show ?case by (cases "RMessage r = m"; cases x) (simp_all add: eqs of_message_def)
qed (simp add: of_message_def)

lemma sample_run_append:
  "sample_run (rs @ qs) s = (let (xs, s1) = sample_run rs s; (ys, s2) = sample_run qs s1 in (xs @ ys, s2))"
  by (induction rs arbitrary: s) (auto split: prod.splits)

lemma sample_run_params:
  "sample_run rs s = (xs, s') \<Longrightarrow> perInterval s' = perInterval s \<and> window s' = window s"
proof (induction rs arbitrary: s xs)
  case (Cons r rs)
  then show ?case using sample_keeps [of r s] by (fastforce split: prod.splits)
qed simp

lemma allowance_bound: "sampler_ok s \<Longrightarrow> 0 \<le> allowance T m s \<and> allowance T m s \<le> 2 * perInterval s"
proof (cases "map_of (buckets s) m")
  case (Some b)
  assume "sampler_ok s"
  then have "bucket_ok (perInterval s) b" "0 < perInterval s" using bucket_of_ok [OF _ Some] by (auto simp: sampler_ok_def)
  then show ?thesis using Some by (auto simp: allowance_def bucket_ok_def)
qed (auto simp: allowance_def sampler_ok_def)

lemma allowance_fresh: "map_of (buckets s) m = None \<Longrightarrow> allowance T m s = perInterval s"
  by (simp add: allowance_def)

lemma sampler_bound:
  assumes "finite M" "card M \<le> maxSampleKeys" "sampler_ok s" "fst ` set (buckets s) \<subseteq> M"
    and "RMessage ` set rs \<subseteq> M" "\<forall>r \<in> set rs. T \<le> RTime r \<and> RTime r < T + window s" "sample_run rs s = (xs, s')"
  shows "int (length (filter (\<lambda>x. snd x \<noteq> None) (of_message m xs))) \<le>
    (if m \<in> fst ` set (buckets s) then 2 * perInterval s else perInterval s)"
proof -
  have "0 \<le> allowance T m s'" using allowance_bound [OF sample_run_keeps [OF assms(3,7)]] by simp
  moreover have "allowance T m s \<le> (if m \<in> fst ` set (buckets s) then 2 * perInterval s else perInterval s)"
    using allowance_bound [OF assms(3)] by (auto simp: allowance_fresh map_of_eq_None_iff)
  ultimately show ?thesis using sample_run_allowance [OF assms, of m] by simp
qed

lemma sample_run_keys:
  assumes "finite M" "card M \<le> maxSampleKeys" "sampler_ok s" "fst ` set (buckets s) \<subseteq> M"
    and "RMessage ` set rs \<subseteq> M" "sample_run rs s = (xs, s')"
  shows "sampler_ok s' \<and> fst ` set (buckets s') \<subseteq> fst ` set (buckets s) \<union> RMessage ` set rs"
  using assms(3-)
proof (induction rs arbitrary: s xs)
  case (Cons r rs)
  obtain x s1 where one: "sample r s = (x, s1)" by fastforce
  obtain ys s2 where rest: "sample_run rs s1 = (ys, s2)" by fastforce
  have len: "length (buckets s) \<le> maxSampleKeys" using keys_bound [OF Cons.prems(1,2) assms(1,2)] .
  have "sampler_ok s1" "fst ` set (buckets s1) \<subseteq> M"
    using sample_ok [OF Cons.prems(1), of r] sample_keys [OF len Cons.prems(2), of r] Cons.prems(3) one by auto
  moreover have "fst ` set (buckets s1) \<subseteq> insert (RMessage r) (fst ` set (buckets s))"
    using sample_keys [OF len, of "insert (RMessage r) (fst ` set (buckets s))" r] one by auto
  moreover have "sampler_ok s' \<and> fst ` set (buckets s') \<subseteq> fst ` set (buckets s1) \<union> RMessage ` set rs"
    using Cons.IH [OF calculation(1,2) _ ] rest Cons.prems(3,4) one by simp
  ultimately show ?case by (simp only: list.set image_insert) blast
qed simp

subsection \<open>Loggers that share a sampler\<close>

lemma derive_New:
  "logging_New cfg hp0 = (h, hp1, lv0) \<Longrightarrow>
     derive ops h hp = (wrap cfg (length hp0) (base_derive ops ((new_base cfg)\<lparr>top_attrs := service_attrs cfg\<rparr>)), hp)"
  using New_wrap(1) derive_wrap by metis

lemma shared_calls_step:
  assumes "logging_New cfg hp0 = (h, hp1, lv0)" "shared_calls etext h lv ((ops, ctx, r) # cs) hp = (out, hp')"
  obtains o1 h1 o2 where "log_call etext (fst (derive ops h hp)) lv (ctx, r) hp = (o1, h1)"
    "shared_calls etext h lv cs h1 = (o2, hp')" "out = o1 @ o2"
  using assms(2) derive_New [OF assms(1), of ops hp] by (auto split: prod.splits)

lemma shared_call_lines:
  assumes "logging_New cfg hp0 = (h, hp1, lv0)" "log_call etext (fst (derive ops h hp)) lv (ctx, r) hp = (out, hp')" "lv \<le> RLevel r"
  shows "lines out =
    (case passes cfg r (hp ! length hp0) of
       None \<Rightarrow> []
     | Some r' \<Rightarrow> [(RLevel r, RMessage r,
         line_attrs etext (source_attrs (CSource cfg) r @ service_attrs cfg @ scope ops (RAttrs r' @ ctx)))])"
  using derived_lines [OF assms(1), of etext ops hp ctx r] assms(2,3) by (simp add: log_call_def)

lemma shared_calls_urgent:
  assumes "logging_New cfg hp0 = (h, hp1, lv0)" and "shared_calls etext h lv cs hp = (out, hp')"
  shows "filter (\<lambda>x. LevelWarn \<le> fst x) (lines out) =
    map (\<lambda>(ops, ctx, r). (RLevel r, RMessage r,
        line_attrs etext (source_attrs (CSource cfg) r @ service_attrs cfg @ scope ops (RAttrs r @ ctx))))
      (filter (\<lambda>(ops, ctx, r). lv \<le> RLevel r \<and> LevelWarn \<le> RLevel r) cs)"
  using assms(2)
proof (induction cs arbitrary: hp out)
  case (Cons c cs)
  obtain ops ctx r where c: "c = (ops, ctx, r)" by (metis prod_cases3)
  obtain o1 h1 o2 where one: "log_call etext (fst (derive ops h hp)) lv (ctx, r) hp = (o1, h1)"
    and rest: "shared_calls etext h lv cs h1 = (o2, hp')" and out: "out = o1 @ o2"
    using shared_calls_step [OF assms(1) Cons.prems [unfolded c]] by blast
  have "filter (\<lambda>x. LevelWarn \<le> fst x) (lines o1) =
    (if lv \<le> RLevel r \<and> LevelWarn \<le> RLevel r
     then [(RLevel r, RMessage r, line_attrs etext (source_attrs (CSource cfg) r @ service_attrs cfg @ scope ops (RAttrs r @ ctx)))] else [])"
  proof (cases "lv \<le> RLevel r")
    case True
    show ?thesis using shared_call_lines [OF assms(1) one True] True by (auto simp: passes_def split: option.splits)
  next
    case False
    then show ?thesis using one by (simp add: log_call_def)
  qed
  then show ?case using Cons.IH [OF rest] out by (simp add: c)
qed simp

text \<open>One sampler, that of the logger they come from, decides on all their records, and no other is touched.\<close>

lemma shared_calls_sampled:
  assumes "logging_New cfg hp0 = (h, hp1, lv0)" "0 < SampleN cfg" and "shared_calls etext h lv cs hp = (out, hp')"
    and "length hp0 < length hp"
  shows "map (\<lambda>(l, m, as). (l, m)) (filter (\<lambda>x. \<not> LevelWarn \<le> fst x) (lines out)) =
      map (\<lambda>(r, x). (RLevel r, RMessage r)) (filter (\<lambda>x. snd x \<noteq> None) (fst (sample_run (sampled lv cs) (hp ! length hp0)))) \<and>
    hp' = hp[length hp0 := snd (sample_run (sampled lv cs) (hp ! length hp0))]"
  using assms(3,4)
proof (induction cs arbitrary: hp out)
  case (Cons c cs)
  obtain ops ctx r where c: "c = (ops, ctx, r)" by (metis prod_cases3)
  obtain o1 h1 o2 where one: "log_call etext (fst (derive ops h hp)) lv (ctx, r) hp = (o1, h1)"
    and rest: "shared_calls etext h lv cs h1 = (o2, hp')" and out: "out = o1 @ o2"
    using shared_calls_step [OF assms(1) Cons.prems(1) [unfolded c]] by blast
  have h1: "h1 = (if \<not> lv \<le> RLevel r \<or> LevelWarn \<le> RLevel r then hp
      else hp[length hp0 := snd (sample r (hp ! length hp0))])"
    using one assms(2) wrap_state [of etext cfg "length hp0" _ ctx r hp]
    by (auto simp: log_call_def derive_New [OF assms(1)] split: if_splits dest: arg_cong [of _ _ snd])
  note IH = Cons.IH [OF rest]
  show ?case
  proof (cases "lv \<le> RLevel r")
    case False
    then show ?thesis using IH one h1 Cons.prems(2) out by (simp add: c log_call_def sampled_def)
  next
    case True
    show ?thesis
      using IH True shared_call_lines [OF assms(1) one True] assms(2) Cons.prems(2) out h1
      by (auto simp: c passes_def sampled_def split: option.splits prod.splits if_splits)
  qed
qed (simp add: sampled_def)

subsection \<open>Request ids\<close>

lemma rid_loop_iff: "rid_loop v \<longleftrightarrow> list_all rid_char v"
  by (induction v) auto

lemma hex_char_rid: "d < 16 \<Longrightarrow> rid_char (hex_char d)"
proof -
  have "list_all (\<lambda>d. rid_char (hex_char d)) [0..<16]" by code_simp
  then show "d < 16 \<Longrightarrow> rid_char (hex_char d)" by (simp add: list_all_iff)
qed

lemma NewRequestID_chars: "list_all rid_char (NewRequestID (Some bs))"
proof -
  have "unat w div 16 < 16" for w :: "8 word"
    using unsigned_less [of w, where ?'a = nat] by (simp add: div_less_iff_less_mult)
  then show ?thesis
    by (induction bs) (auto simp: NewRequestID_def hex_char_rid)
qed

lemma NewRequestID_length: "length (NewRequestID (Some bs)) = 2 * length bs"
  by (induction bs) (auto simp: NewRequestID_def)

lemma log_calls_redact:
  assumes "log_calls etext h lv cs hp = (out, hp')" "(l, m, as) \<in> set (lines out)" "(k, v) \<in> set (leaves as)" "isSensitive k"
  shows "v = AStr ''[REDACTED]''"
  using assms(1,2)
proof (induction cs arbitrary: hp out hp')
  case (Cons c cs)
  obtain o1 h1 where one: "log_call etext h lv c hp = (o1, h1)" by fastforce
  obtain o2 h2 where rest: "log_calls etext h lv cs h1 = (o2, h2)" by fastforce
  have out: "out = o1 @ o2" using Cons.prems(1) one rest by simp
  have "(l, m, as) \<in> set (lines o1) \<Longrightarrow> ?case"
    using one assms(3,4) Handle_redacts [of l m as etext h "fst c" "snd c" hp k v]
    by (auto simp: log_call_def split: if_splits)
  then show ?case using Cons.IH [OF rest] Cons.prems(2) out by auto
qed simp

subsection \<open>The concrete records\<close>

lemma sample_records_messages: "RMessage ` set sample_records \<subseteq> {''tick''}"
  by (auto simp: sample_records_def)

lemma sample_records_times: "\<forall>r \<in> set sample_records. 0 \<le> RTime r \<and> RTime r < 9000"
  by (simp add: sample_records_def)

lemma tick_keys: "finite {''tick''}" "card {''tick''} \<le> maxSampleKeys"
  by (simp_all add: maxSampleKeys_def)

lemma new_sampleState_empty [simp]:
  "buckets (new_sampleState n i rec) = []"
  "perInterval (new_sampleState n i rec) = (if n \<le> 0 then 10 else n)"
  "window (new_sampleState n i rec) = (if i \<le> 0 then Second else i)"
  "has_rec (new_sampleState n i rec) = rec"
  by (simp_all add: new_sampleState_def)

text \<open>A call of the concrete logger that passes the level is decided on by the sampler at address 0.\<close>

lemma sample_logger: "logging_New sample_log_config [] =
    (fst (logging_New sample_log_config []), [new_sampleState 1 1000 True], LevelInfo)"
proof -
  have "parseLevel ''info'' = LevelInfo" by code_simp
  then show ?thesis
    by (simp add: logging_New_def NewSamplingHandler_def alloc_state_def sample_log_config_def Let_def split: prod.split)
qed

section \<open>Properties\<close>

text \<open>
  (C23) Suppression is accounted for. While the distinct messages fit the sampler's map, for every
  message the drop counts carried by the records that were passed on, plus what is still pending in
  its bucket, equal the number of its records that were dropped.
\<close>

theorem sampler_never_silent:
  assumes "finite M" "card M \<le> maxSampleKeys" "sampler_ok s" "fst ` set (buckets s) \<subseteq> M"
    and "RMessage ` set rs \<subseteq> M"
  shows "sum_list (map reported (of_message m (fst (sample_run rs s)))) + pending m (snd (sample_run rs s)) =
    pending m s + int (length (filter (\<lambda>x. snd x = None) (of_message m (fst (sample_run rs s)))))"
proof -
  obtain xs s' where run: "sample_run rs s = (xs, s')" by fastforce
  from sample_run_conserves [OF assms run] show ?thesis by (simp add: run)
qed

theorem sampler_never_silent_witness:
  "sum_list (map reported (of_message ''tick'' (fst (sample_run sample_records (new_sampleState 1 1000 False))))) +
     pending ''tick'' (snd (sample_run sample_records (new_sampleState 1 1000 False))) =
   int (length (filter (\<lambda>x. snd x = None) (of_message ''tick'' (fst (sample_run sample_records (new_sampleState 1 1000 False))))))"
  using sampler_never_silent [OF tick_keys new_sampleState_ok _ sample_records_messages, of 1 1000 False "''tick''"]
  by (simp add: pending_def)

text \<open>
  The budget. In any stretch of time shorter than the interval at most twice \<open>perInterval\<close>
  records of one message pass, at most \<open>perInterval\<close> when the message is new, whatever other
  messages are interleaved (as long as they fit the map) and in whatever order the clock readings
  reach the lock.
\<close>

theorem sampler_budget:
  assumes "finite M" "card M \<le> maxSampleKeys" "sampler_ok s" "fst ` set (buckets s) \<subseteq> M"
    and "RMessage ` set rs \<subseteq> M" "\<forall>r \<in> set rs. T \<le> RTime r \<and> RTime r < T + window s"
  shows "int (length (filter (\<lambda>x. snd x \<noteq> None) (of_message m (fst (sample_run rs s))))) \<le>
    (if m \<in> fst ` set (buckets s) then 2 * perInterval s else perInterval s)"
  by (rule sampler_bound [OF assms surjective_pairing])

theorem sampler_budget_witness:
  "int (length (filter (\<lambda>x. snd x \<noteq> None) (of_message ''tick'' (fst (sample_run sample_records (new_sampleState 2 9000 False)))))) \<le> 2"
  using sampler_budget [OF tick_keys new_sampleState_ok _ sample_records_messages, of 2 9000 False 0 "''tick''"]
    sample_records_times
  by simp

text \<open>
  (C24) One budget for all loggers. However the logger of a call was derived from the one that \<open>New\<close>
  returns, by any sequence of \<open>With\<close> and \<open>WithGroup\<close>, one sampler decides on its record:
  the lines below \<open>WARN\<close> are those that a single \<open>sampleState\<close> passes when it gets the records of
  all the loggers one after the other, and the states of other loggers stay as they are. So after any
  earlier calls, within one interval, all of them together write at most twice \<open>SampleN\<close> lines of one message
  below \<open>WARN\<close>, and at most \<open>SampleN\<close> when no earlier call had that message, as long as the
  distinct messages fit the map, in whatever order their clock readings reach the lock. Every enabled record of
  \<open>WARN\<close> or above is written, with the source location if configured, the service's attributes,
  and then the logger's, the record's and the context's attributes inside the groups the logger has open.
\<close>

theorem derived_loggers_share_budget:
  assumes "logging_New cfg hp0 = (h, hp1, lv0)" "0 < SampleN cfg"
    and "shared_calls etext h lv0 past hp1 = (out0, hp2)" "shared_calls etext h lv cs hp2 = (out, hp3)"
    and "card ((\<lambda>(ops, ctx, r). RMessage r) ` set (past @ cs)) \<le> maxSampleKeys"
    and "\<forall>(ops, ctx, r) \<in> set cs. T \<le> RTime r \<and> RTime r < T + (if SampleInterval cfg \<le> 0 then Second else SampleInterval cfg)"
  shows "map (\<lambda>(l, m, as). (l, m)) (filter (\<lambda>x. \<not> LevelWarn \<le> fst x) (lines (out0 @ out))) =
      map (\<lambda>(r, x). (RLevel r, RMessage r)) (filter (\<lambda>x. snd x \<noteq> None)
        (fst (sample_run (sampled lv0 past @ sampled lv cs) (new_sampleState (SampleN cfg) (SampleInterval cfg) (HasRecorder cfg))))) \<and>
    take (length hp0) hp3 = hp0 \<and>
    int (length (filter (\<lambda>(l, m', as). \<not> LevelWarn \<le> l \<and> m' = m) (lines out))) \<le>
      (if m \<in> (\<lambda>(ops, ctx, r). RMessage r) ` set past then 2 * SampleN cfg else SampleN cfg) \<and>
    filter (\<lambda>x. LevelWarn \<le> fst x) (lines out) =
      map (\<lambda>(ops, ctx, r). (RLevel r, RMessage r,
          line_attrs etext (source_attrs (CSource cfg) r @ service_attrs cfg @ scope ops (RAttrs r @ ctx))))
        (filter (\<lambda>(ops, ctx, r). lv \<le> RLevel r \<and> LevelWarn \<le> RLevel r) cs)"
proof (intro conjI)
  let ?M = "(\<lambda>(ops, ctx, r). RMessage r) ` set (past @ cs)" and ?P = "(\<lambda>(ops, ctx, r). RMessage r) ` set past"
  let ?s0 = "new_sampleState (SampleN cfg) (SampleInterval cfg) (HasRecorder cfg)"
  obtain xs s1 where run1: "sample_run (sampled lv0 past) ?s0 = (xs, s1)" by fastforce
  obtain ys s2 where run2: "sample_run (sampled lv cs) s1 = (ys, s2)" by fastforce
  have hp1: "hp1 = hp0 @ [?s0]" using New_wrap(2) [OF assms(1)] assms(2) by simp
  note past = shared_calls_sampled [OF assms(1-3), unfolded hp1, simplified, unfolded run1]
  then have hp2: "hp2 = hp0 @ [s1]" by simp
  note now = shared_calls_sampled [OF assms(1,2,4), unfolded hp2, simplified, unfolded run2]
  show "take (length hp0) hp3 = hp0" using now by simp
  show "map (\<lambda>(l, m, as). (l, m)) (filter (\<lambda>x. \<not> LevelWarn \<le> fst x) (lines (out0 @ out))) =
      map (\<lambda>(r, x). (RLevel r, RMessage r)) (filter (\<lambda>x. snd x \<noteq> None) (fst (sample_run (sampled lv0 past @ sampled lv cs) ?s0)))"
    using past now by (simp add: sample_run_append run1 run2)
  have keys: "RMessage ` set (sampled lv0 past) \<subseteq> ?P" "RMessage ` set (sampled lv0 past) \<subseteq> ?M" "RMessage ` set (sampled lv cs) \<subseteq> ?M"
    by (force simp: sampled_def)+
  have s1: "sampler_ok s1" "fst ` set (buckets s1) \<subseteq> RMessage ` set (sampled lv0 past)"
    using sample_run_keys [OF _ assms(5) new_sampleState_ok _ keys(2) run1] by simp_all
  have par: "perInterval s1 = SampleN cfg" "window s1 = (if SampleInterval cfg \<le> 0 then Second else SampleInterval cfg)"
    using sample_run_params [OF run1] assms(2) by simp_all
  have "\<forall>r \<in> set (sampled lv cs). T \<le> RTime r \<and> RTime r < T + window s1"
    using assms(6) by (force simp: sampled_def par)
  then have "int (length (filter (\<lambda>x. snd x \<noteq> None) (of_message m ys))) \<le>
      (if m \<in> fst ` set (buckets s1) then 2 * SampleN cfg else SampleN cfg)"
    using sampler_bound [OF _ assms(5) s1(1) subset_trans [OF s1(2) keys(2)] keys(3) _ run2, of T m, unfolded par(1)] by blast
  also have "\<dots> \<le> (if m \<in> ?P then 2 * SampleN cfg else SampleN cfg)"
    using s1(2) keys(1) assms(2) by (simp add: subset_iff)
  finally have "int (length (filter (\<lambda>x. snd x \<noteq> None) (of_message m ys))) \<le> (if m \<in> ?P then 2 * SampleN cfg else SampleN cfg)" .
  moreover have "length (filter (\<lambda>(l, m', as). \<not> LevelWarn \<le> l \<and> m' = m) (lines out)) =
      length (filter (\<lambda>(l, m'). m' = m) (map (\<lambda>(l, m, as). (l, m)) (filter (\<lambda>x. \<not> LevelWarn \<le> fst x) (lines out))))"
    by (simp add: filter_map comp_def case_prod_unfold conj_commute)
  moreover have "\<dots> = length (filter (\<lambda>x. snd x \<noteq> None) (of_message m ys))"
    using now by (simp add: filter_map comp_def case_prod_unfold of_message_def conj_commute)
  ultimately show "int (length (filter (\<lambda>(l, m', as). \<not> LevelWarn \<le> l \<and> m' = m) (lines out))) \<le>
      (if m \<in> ?P then 2 * SampleN cfg else SampleN cfg)" by simp
  show "filter (\<lambda>x. LevelWarn \<le> fst x) (lines out) =
      map (\<lambda>(ops, ctx, r). (RLevel r, RMessage r,
          line_attrs etext (source_attrs (CSource cfg) r @ service_attrs cfg @ scope ops (RAttrs r @ ctx))))
        (filter (\<lambda>(ops, ctx, r). lv \<le> RLevel r \<and> LevelWarn \<le> RLevel r) cs)"
    by (rule shared_calls_urgent [OF assms(1,4)])
qed

theorem derived_loggers_share_budget_witness:
  "let (h, hp1, lv) = logging_New sample_log_config []; (out0, hp2) = shared_calls (\<lambda>_. []) h lv sample_shared_calls hp1
   in int (length (filter (\<lambda>(l, m', as). \<not> LevelWarn \<le> l \<and> m' = ''tick'')
        (lines (fst (shared_calls (\<lambda>_. []) h lv (take 3 sample_shared_calls) hp2))))) \<le> 2"
proof -
  let ?h = "fst (logging_New sample_log_config [])" and ?hp = "[new_sampleState 1 1000 True]"
  obtain out0 hp2 where past: "shared_calls (\<lambda>_. []) ?h LevelInfo sample_shared_calls ?hp = (out0, hp2)" by fastforce
  obtain out hp3 where now: "shared_calls (\<lambda>_. []) ?h LevelInfo (take 3 sample_shared_calls) hp2 = (out, hp3)" by fastforce
  have ms: "(\<lambda>(ops, ctx, r). RMessage r) ` set (sample_shared_calls @ take 3 sample_shared_calls) = {''tick''}"
    "(\<lambda>(ops, ctx, r). RMessage r) ` set sample_shared_calls = {''tick''}"
    by (simp_all add: sample_shared_calls_def sample_records_def)
  have "\<forall>(ops, ctx, r) \<in> set (take 3 sample_shared_calls). 0 \<le> RTime r \<and>
      RTime r < 0 + (if SampleInterval sample_log_config \<le> 0 then Second else SampleInterval sample_log_config)"
    by (simp add: sample_shared_calls_def sample_records_def sample_log_config_def)
  note time = this
  have n: "0 < SampleN sample_log_config" "2 * SampleN sample_log_config = 2" by (simp_all add: sample_log_config_def)
  have "int (length (filter (\<lambda>(l, m', as). \<not> LevelWarn \<le> l \<and> m' = ''tick'') (lines out))) \<le> 2"
    using derived_loggers_share_budget [OF sample_logger _ past now _ time, of "''tick''", unfolded ms n(2)] n(1) tick_keys(2) by simp
  then show ?thesis by (subst sample_logger) (simp add: past now del: shared_calls.simps)
qed

text \<open>
  The bound on the map forgets. When more than \<open>maxSampleKeys\<close> messages are tracked, the
  next sampled record discards every other message's bucket, so drops already counted for another
  message are reported on no line: the record passed on carries no drop count.
\<close>

theorem sampler_reset_forgets:
  assumes "maxSampleKeys < length (buckets s)" "m \<noteq> RMessage r" "0 < window s" "0 < perInterval s"
  shows "pending m (snd (sample r s)) = 0 \<and> fst (sample r s) = Some r"
  using assms by (simp add: sample_def live_buckets_def bucket_for_def sample_bucket_def pending_def time_sub_def)

theorem sampler_reset_forgets_witness:
  "pending ''0'' crowded_sampler = 5 \<and>
   pending ''0'' (snd (sample \<lparr>RLevel = LevelInfo, RMessage = ''x'', RTime = 7, RAttrs = [], RSource = ([], 0)\<rparr> crowded_sampler)) = 0"
proof -
  have "pending ''0'' crowded_sampler = 5"
  proof -
    have "[0..<1025] = 0 # [1..<1025]" by (subst upt_conv_Cons) simp_all
    moreover have "decimal 0 = ''0''" by code_simp
    ultimately show ?thesis by (simp add: crowded_sampler_def pending_def)
  qed
  moreover have "maxSampleKeys < length (buckets crowded_sampler)" "0 < window crowded_sampler" "0 < perInterval crowded_sampler"
    by (simp_all add: crowded_sampler_def maxSampleKeys_def)
  ultimately show ?thesis
    using sampler_reset_forgets [of crowded_sampler "''0''" "\<lparr>RLevel = LevelInfo, RMessage = ''x'', RTime = 7, RAttrs = [], RSource = ([], 0)\<rparr>"]
    by simp
qed

text \<open>
  (C25) Log volume is measured before sampling and adds up. For the logger that \<open>New\<close> builds with a
  recorder, at whatever level it runs and whatever its sampler's state holds beside that recorder, \<open>records_total\<close> of a level counts the enabled calls at that level, and
  equals \<open>records_dropped_total\<close> plus the lines written; every enabled record of level
  \<open>WARN\<close> or above is written, in order, with the service's, its own and the context's
  attributes.
\<close>

theorem log_volume_accounted:
  assumes "logging_New cfg hp0 = (h, hp1, lv0)" "HasRecorder cfg" "has_rec (hp ! length hp0)"
  shows "ctr log_records [q] (counted (fst (log_calls etext h lv cs hp))) =
      int (length (filter (\<lambda>c. lv \<le> RLevel (snd c) \<and> level_string (RLevel (snd c)) = q) cs)) \<and>
    ctr log_records [q] (counted (fst (log_calls etext h lv cs hp))) =
      ctr log_dropped [q] (counted (fst (log_calls etext h lv cs hp))) +
      int (length (filter (\<lambda>(l, m, as). level_string l = q) (lines (fst (log_calls etext h lv cs hp))))) \<and>
    filter (\<lambda>x. LevelWarn \<le> fst x) (lines (fst (log_calls etext h lv cs hp))) =
      map (\<lambda>(ctx, r). (RLevel r, RMessage r, line_attrs etext (source_attrs (CSource cfg) r @ service_attrs cfg @ RAttrs r @ ctx)))
        (filter (\<lambda>c. lv \<le> RLevel (snd c) \<and> LevelWarn \<le> RLevel (snd c)) cs)"
proof -
  obtain out hp' where run: "log_calls etext h lv cs hp = (out, hp')" by fastforce
  show ?thesis using log_calls_counts [OF assms(1,2) run assms(3), of q] log_calls_urgent [OF assms(1) run] by (simp add: run)
qed

theorem log_volume_accounted_witness:
  "ctr log_records [''INFO''] (counted (fst (log_calls (\<lambda>_. []) (fst (logging_New sample_log_config [])) LevelInfo
     (map (\<lambda>r. ([], r)) sample_records) [new_sampleState 1 1000 True]))) = 4"
  using log_volume_accounted [OF sample_logger, of "[new_sampleState 1 1000 True]" "''INFO''" "\<lambda>_. []"
      LevelInfo "map (\<lambda>r. ([], r)) sample_records"]
  by (simp add: sample_records_def level_string_def sample_log_config_def)

text \<open>
  (C26) Correlation and redaction. Every line the logger writes comes from one of the calls and
  carries that call's context attributes (so the request id and trace id of its request). Every attribute
  whose own key looks sensitive leaves as \<open>[REDACTED]\<close>, inside groups or outside. What is not
  redacted is what has a harmless key inside a group with a sensitive name: a group's name is never checked,
  so such an attribute is written as it is; but the groups of a line are only those of its call.
\<close>

theorem log_lines_correlated_redacted:
  assumes "logging_New cfg hp0 = (h, hp1, lv0)" "(l, m, as) \<in> set (lines (fst (log_calls etext h lv cs hp)))"
  shows "(\<exists>(ctx, r) \<in> set cs. l = RLevel r \<and> m = RMessage r \<and>
      set (line_attrs etext (source_attrs (CSource cfg) r @ service_attrs cfg @ RAttrs r @ ctx)) \<subseteq> set as \<and>
      set (group_names as) \<subseteq> set (group_names (RAttrs r @ ctx))) \<and>
    (\<forall>(k, v) \<in> set (leaves as). isSensitive k \<longrightarrow> v = AStr ''[REDACTED]'') \<and>
    (g \<noteq> [] \<and> \<not> isSensitive k' \<longrightarrow>
       line_attrs etext [(g, AGroup [(k', AStr x)])] = [(g, AGroup [(k', AStr x)])])"
proof -
  obtain out hp' where run: "log_calls etext h lv cs hp = (out, hp')" by fastforce
  have mem: "(l, m, as) \<in> set (lines out)" using assms(2) run by simp
  have "g \<noteq> [] \<and> \<not> isSensitive k' \<Longrightarrow>
       line_attrs etext [(g, AGroup [(k', AStr x)])] = [(g, AGroup [(k', AStr x)])]"
    by (simp add: line_attrs_def replaceAttr_def)
  then show ?thesis
    using log_calls_lines [OF assms(1) run mem] log_calls_redact [OF run mem] by auto
qed

theorem log_lines_correlated_redacted_witness:
  "\<exists>as. (LevelError, ''boom'', as) \<in> set (lines (fst (log_calls (\<lambda>_. []) (fst (logging_New sample_log_config [])) LevelInfo
      [sample_error_call] [new_sampleState 1 1000 True]))) \<and> (''request_id'', AStr ''r-1'') \<in> set as \<and>
    (''Auth_Token'', AStr ''[REDACTED]'') \<in> set as \<and> group_names as = []"
proof -
  let ?h = "fst (logging_New sample_log_config [])" and ?hp = "[new_sampleState 1 1000 True]"
  let ?as = "line_attrs (\<lambda>_. []) (source_attrs (CSource sample_log_config) (snd sample_error_call) @
      service_attrs sample_log_config @ RAttrs (snd sample_error_call) @ fst sample_error_call)"
  have mem: "(LevelError, ''boom'', ?as) \<in> set (lines (fst (log_calls (\<lambda>_. []) ?h LevelInfo [sample_error_call] ?hp)))"
    by (simp add: log_call_def New_lines [OF sample_logger] passes_def sample_error_call_def split: prod.split)
  have keys: "isSensitive ''Auth_Token''" "\<not> isSensitive ''request_id''" by code_simp+
  from log_lines_correlated_redacted [OF sample_logger mem] have "(''Auth_Token'', AStr ''[REDACTED]'') \<in> set ?as"
    "(''request_id'', AStr ''r-1'') \<in> set ?as" "group_names ?as = []"
    using keys by (auto simp: sample_error_call_def line_attrs_def replaceAttr_def WithRequestID_def WithAttrs_def Attrs_def RequestIDKey_def)
  with mem show ?thesis by blast
qed

text \<open>
  Request ids are safe to log and to echo: \<open>SanitizeRequestID\<close> accepts exactly the ids of
  1 to 128 characters of \<open>[A-Za-z0-9._-]\<close> and returns them unchanged, and every id that
  \<open>NewRequestID\<close> generates from 16 random bytes is accepted.
\<close>

theorem request_id_safe:
  "SanitizeRequestID v =
     (if 0 < length v \<and> length v \<le> 128 \<and> list_all rid_char v then (v, True) else ([], False)) \<and>
   (case b of
      None \<Rightarrow> SanitizeRequestID (NewRequestID b) = (NewRequestID b, True)
    | Some bs \<Rightarrow> length bs \<noteq> 16 \<or> SanitizeRequestID (NewRequestID b) = (NewRequestID b, True))"
proof -
  have "SanitizeRequestID (NewRequestID (Some bs)) = (NewRequestID (Some bs), True)" if "length bs = 16" for bs
    using NewRequestID_chars [of bs] NewRequestID_length [of bs] that
    by (auto simp: SanitizeRequestID_def rid_loop_iff)
  moreover have "SanitizeRequestID (NewRequestID None) = (NewRequestID None, True)" by code_simp
  ultimately show ?thesis by (auto simp: SanitizeRequestID_def rid_loop_iff split: option.split)
qed

theorem request_id_safe_witness: "SanitizeRequestID (NewRequestID (Some (replicate 16 255))) = (replicate 32 CHR ''f'', True)"
proof -
  have "NewRequestID (Some (replicate 16 255)) = replicate 32 CHR ''f''" by code_simp
  then show ?thesis using request_id_safe [of "[]" "Some (replicate 16 255)"] by simp
qed

text \<open>
  Source locations are cut to a directory and a file: whatever directory the binary was built in, a line
  with source locations names the record's file with the directory it is in and nothing before it.
\<close>

theorem source_path_trimmed:
  assumes "path_elem e" "path_elem f" "RSource r = (d @ CHR ''/'' # e @ CHR ''/'' # f, n)" "AddSource b"
  shows "\<exists>as. base_line etext b r = (''source'', ASource (e @ CHR ''/'' # f) n) # as"
proof -
  have "line_attrs etext (source_attrs True r) = [(''source'', ASource (e @ CHR ''/'' # f) n)]"
    using path_trim [OF assms(1,2), of d] by (simp add: line_attrs_def source_attrs_def assms(3) replaceAttr_def)
  then show ?thesis by (simp add: base_line_def assms(4))
qed

theorem source_path_trimmed_witness:
  "\<exists>as. base_line etext (new_base (sample_log_config\<lparr>CSource := True\<rparr>))
     \<lparr>RLevel = LevelInfo, RMessage = [], RTime = 0, RAttrs = [], RSource = (''/home/ci/store/orders.go'', 42)\<rparr> =
     (''source'', ASource ''store/orders.go'' 42) # as"
proof -
  let ?r = "\<lparr>RLevel = LevelInfo, RMessage = [], RTime = 0, RAttrs = [], RSource = (''/home/ci/store/orders.go'', 42)\<rparr>"
  have "path_elem ''store''" "path_elem ''orders.go''" by code_simp+
  then show ?thesis
    using source_path_trimmed [of "''store''" "''orders.go''" ?r "''/home/ci''" 42 "new_base (sample_log_config\<lparr>CSource := True\<rparr>)" etext]
    by (simp add: new_base_def)
qed

text \<open>
  An unknown format is reported once, at \<open>WARN\<close>, by a logger that has neither the service's attributes nor
  the recorder: the line is written when the level admits it and no record is counted.
\<close>

theorem unknown_format_reported:
  "counted (New_warning etext now src cfg) = [] \<and>
   (lines (New_warning etext now src cfg) \<noteq> [] \<longleftrightarrow>
      CFormat cfg \<notin> {''text'', ''json'', []} \<and> parseLevel (CLevel cfg) \<le> LevelWarn) \<and>
   (lines (New_warning etext now src cfg) \<noteq> [] \<longrightarrow> encoder_of (new_base cfg) = JSONHandler \<and>
      (\<exists>as. lines (New_warning etext now src cfg) = [(LevelWarn, ''unknown log format, defaulting to json'', as)] \<and>
         (''got'', AStr (CFormat cfg)) \<in> set as))"
proof -
  have "\<not> isSensitive ''got''" "\<not> isSensitive ''want''" by code_simp+
  then show ?thesis by (auto simp: New_warning_def base_line_def new_base_def line_attrs_def replaceAttr_def)
qed

text \<open>
  Redaction looks at the keys of single attributes only: the name of a group is never checked, so what is
  logged inside a group called \<open>credentials\<close> leaves as it is.
\<close>

theorem group_name_not_redacted:
  "isSensitive ''credentials'' \<and>
   line_attrs etext [(''credentials'', AGroup [(''value'', AStr s)])] = [(''credentials'', AGroup [(''value'', AStr s)])]"
proof -
  have "isSensitive ''credentials''" "\<not> isSensitive ''value''" by code_simp+
  then show ?thesis by (simp add: line_attrs_def replaceAttr_def)
qed

text \<open>
  Pseudonyms. A nonempty identifier is logged as \<open>px_\<close> and exactly twelve hexadecimal
  digits, the low 48 bits of its FNV-1a hash, so the line shows a stable value of fixed shape and
  not the identifier.
\<close>

theorem pii_shape:
  "\<exists>ds. PII key v = (key, AStr (if v = [] then [] else ''px_'' @ map hex_char ds)) \<and>
     length ds = 12 \<and> list_all (\<lambda>d. d < 16) ds \<and>
     value16 ds = unat (fold fnv_step v 14695981039346656037) mod 2 ^ 48"
proof (intro exI conjI)
  let ?h = "fold fnv_step v 14695981039346656037"
  let ?ds = "digits16 12 (unat (?h AND 0xffffffffffff))"
  have mask: "?h AND 0xffffffffffff = take_bit 48 ?h"
    by (simp add: take_bit_eq_mask mask_numeral)
  show "PII key v = (key, AStr (if v = [] then [] else ''px_'' @ map hex_char ?ds))" by (simp add: PII_def)
  show "length ?ds = 12" by simp
  show "list_all (\<lambda>d. d < 16) ?ds" by (simp add: list_all_iff digits16_less)
  have low: "unat (take_bit 48 ?h) = unat ?h mod 2 ^ 48" by (simp only: unsigned_take_bit_eq) (simp add: take_bit_eq_mod)
  have "unat ?h mod 2 ^ 48 < 16 ^ 12" by simp
  then show "value16 ?ds = unat ?h mod 2 ^ 48" unfolding mask low by (rule value16_digits16)
qed

end
