(* ===== verification/Store_Properties.thy ===== *)
theory Store_Properties
  imports Uuid_Text
begin

text \<open>
  What the order store promises its clients, the HTTP handlers and the worker: validation and
  creation, claiming, marking, listing and counting, with a concrete table to apply each
  statement to.
\<close>

section \<open>Definitions\<close>

definition sample_new :: NewOrder where
  "sample_new = \<lparr>NewCustomerID = ''cust-1'', NewAmountCents = 2500, NewCurrency = ''EUR''\<rparr>"

definition sample_table :: table where
  "sample_table = [Build 1 50 sample_new, Build 2 30 sample_new, (Build 3 10 sample_new)\<lparr>Status := StatusPaid\<rparr>]"

definition tie_table :: table where
  "tie_table = [Build 1 50 sample_new, Build 2 50 sample_new]"

section \<open>Lemmas\<close>

lemma sample_new_valid: "Validate sample_new = None"
  by (simp add: sample_new_def Validate_None_iff SupportedCurrencies_def)

lemma sample_table_ok: "table_ok sample_table"
  using Build_row_check [OF sample_new_valid, of id]
  by (simp add: sample_table_def table_ok_def stored_def row_check_def)

lemma claim_picks_oldest:
  assumes "distinct (map ID t)" "x \<in> set (claim_picks e n t)" "y \<in> set t" "claimable e y"
    and "ID y \<notin> set (claim_ids e n t)"
  shows "CreatedAt x \<le> CreatedAt y"
proof -
  let ?zs = "sort_key CreatedAt (filter (claimable e) (scan (scan_rank e) t))"
  have "y \<in> set ?zs" using assms(3,4) by simp
  then have "y \<in> set (take (nat n) ?zs) \<union> set (drop (nat n) ?zs)"
    by (metis append_take_drop_id set_append)
  moreover have "y \<notin> set (take (nat n) ?zs)" using assms(5) by (auto simp: claim_ids_def claim_picks_def)
  ultimately show ?thesis using assms(2) sort_key_take_le [of x "nat n" CreatedAt _ y]
    unfolding claim_picks_def by blast
qed

lemma claim_table_other: "r \<in> set t \<Longrightarrow> ID r \<notin> set (claim_ids e n t) \<Longrightarrow> r \<in> set (claim_table e n t)"
  by (auto simp: claim_table_def in_update_rows)

lemma find_ID: "distinct (map ID t) \<Longrightarrow> r \<in> set t \<Longrightarrow> find (\<lambda>x. ID x = ID r) t = Some r"
  by (induction t) (auto simp: rev_image_eqI)

lemma find_ID_None: "i \<notin> set (map ID t) \<Longrightarrow> find (\<lambda>x. ID x = i) t = None"
  by (induction t) auto

lemma find_append: "find P (xs @ ys) = (case find P xs of None \<Rightarrow> find P ys | Some x \<Rightarrow> Some x)"
  by (induction xs) auto

lemma in_status_total:
  assumes "\<forall>r \<in> set t. Valid (Status r)"
  shows "sum_list (map (\<lambda>s. in_status s t) AllStatuses) = int (length t)"
  using assms by (induction t) (auto simp: AllStatuses_def Valid_def split: if_splits)

lemma MarkOrder_keeps:
  assumes "table_ok t" "status_of t k = Some s" "s \<noteq> StatusProcessing"
  shows "status_of (snd (MarkOrder U r now i st t)) k = Some s"
proof -
  have d: "distinct (map ID t)" using assms(1) by (simp add: table_ok_def)
  show ?thesis
    using pg_table_cases [of r "sql_mark U (ustring U i) st now" t] assms(2,3) d
    by (auto simp: MarkOrder_snd status_of_update_one dest!: sql_mark_Inr)
qed

text \<open>
  Ties are not broken: of two orders created at the same time, two pages of one order each can show one
  twice and the other never.
\<close>

lemma list_pages_tie:
  assumes "uuid_lib_ok U"
  shows "table_ok tie_table \<and>
    (\<exists>x y. x \<noteq> y \<and> tie_table = [x, y] \<and> ListOrders U (\<lambda>_. 0) ReplyOk [] 1 0 tie_table = Ok [x] \<and>
      ListOrders U (\<lambda>u. if u = 1 then 1 else 0) ReplyOk [] 1 1 tie_table = Ok [x])"
proof -
  have "table_ok tie_table"
    using Build_row_check [OF sample_new_valid, of id] by (simp add: tie_table_def table_ok_def stored_def row_check_def)
  moreover have "hits (\<lambda>_. 0) [] tie_table = tie_table" "hits (\<lambda>u. if u = 1 then 1 else 0) [] tie_table = rev tie_table"
    by (simp_all add: hits_def scan_def tie_table_def)
  ultimately show ?thesis
    using ListOrders_ok [OF assms, of 1 0] ListOrders_ok [OF assms, of 1 1] by (simp add: tie_table_def Build_def)
qed

lemma list_pages:
  assumes "uuid_lib_ok U" "0 < n" "table_ok t"
  shows "\<exists>pages. (\<forall>k. ListOrders U (rank k) ReplyOk st (int n) (int (k * n)) t = Ok (pages k) \<and> length (pages k) \<le> n \<and>
      distinct (pages k) \<and> set (pages k) \<subseteq> set (matching st t)) \<and>
    (\<forall>K. length t \<le> K * n \<longrightarrow>
       map CreatedAt (concat (map pages [0..<K])) = rev (sort (map CreatedAt (matching st t))) \<and>
       (distinct (map CreatedAt (matching st t)) \<or> (\<forall>k. rank k = rank 0) \<longrightarrow>
          mset (concat (map pages [0..<K])) = mset (matching st t)))"
proof (intro exI conjI allI impI)
  let ?pages = "\<lambda>k. take n (drop (k * n) (hits (rank k) st t))"
  fix k
  show "ListOrders U (rank k) ReplyOk st (int n) (int (k * n)) t = Ok (?pages k)"
    using ListOrders_ok [OF assms(1), of "int n" "int (k * n)"] by (simp only: of_nat_0_le_iff nat_int)
  show "length (?pages k) \<le> n" by simp
  show "distinct (?pages k)" using hits_distinct [OF assms(3)] by (intro distinct_take distinct_drop)
  show "set (?pages k) \<subseteq> set (matching st t)" using hits_set set_take_subset set_drop_subset by fastforce
next
  let ?pages = "\<lambda>k. take n (drop (k * n) (hits (rank k) st t))" and ?ps = "\<lambda>r k. take n (drop (k * n) (hits r st t))"
  fix K
  assume K: "length t \<le> K * n"
  then have all: "concat (map (?ps r) [0..<K]) = hits r st t" for r
    using hits_length [of r st t] by (simp add: pages_take)
  let ?ts = "rev (sort (map CreatedAt (matching st t)))"
  have times: "map CreatedAt (?ps r k) = take n (drop (k * n) ?ts)" for r k
    by (simp add: take_map [symmetric] drop_map [symmetric] hits_times)
  have "map CreatedAt (concat (map ?pages [0..<K])) = concat (map (\<lambda>k. take n (drop (k * n) ?ts)) [0..<K])"
    by (simp add: map_concat comp_def times)
  also have "\<dots> = map CreatedAt (concat (map (?ps (rank 0)) [0..<K]))"
    by (simp add: map_concat comp_def times)
  finally show "map CreatedAt (concat (map ?pages [0..<K])) = rev (sort (map CreatedAt (matching st t)))"
    by (simp only: all hits_times)
  assume "distinct (map CreatedAt (matching st t)) \<or> (\<forall>k. rank k = rank 0)"
  then have same: "hits (rank k) st t = hits (rank 0) st t" for k
    using hits_unique [of st t "rank k" "rank 0"] by metis
  have "?pages k = ?ps (rank 0) k" for k using same [of k] by metis
  then have "?pages = ?ps (rank 0)" by (rule ext)
  then have "concat (map ?pages [0..<K]) = concat (map (?ps (rank 0)) [0..<K])"
    by (rule arg_cong [where f = "\<lambda>p. concat (map p [0..<K])"])
  then have "concat (map ?pages [0..<K]) = hits (rank 0) st t" by (simp only: all)
  then show "mset (concat (map ?pages [0..<K])) = mset (matching st t)" by (simp add: mset_hits matching_def)
qed

section \<open>Properties\<close>

text \<open>
  (C3) Claiming. When the database answers, \<open>ClaimPendingOrders\<close> returns as many orders as the
  limit and the claimable rows allow, each once, each now \<open>processing\<close>; they were pending and
  not locked, no claimable order it leaves behind is older than one it takes, and every other row is
  untouched.
\<close>

theorem claim_takes_oldest:
  assumes "table_ok t" "uuid_lib_ok U" "0 \<le> n"
  shows "\<exists>xs t'. ClaimPendingOrders U ReplyOk e n t = (Ok xs, t') \<and> table_ok t' \<and>
    length xs = min (nat n) (length (filter (claimable e) t)) \<and> distinct (map ID xs) \<and>
    (\<forall>x \<in> set xs. x \<in> set t' \<and> Status x = StatusProcessing \<and> ID x \<notin> set (locked e) \<and>
       status_of t (ID x) = Some StatusPending) \<and>
    (\<forall>x \<in> set xs. \<forall>y \<in> set t. claimable e y \<and> ID y \<notin> ID ` set xs \<longrightarrow> CreatedAt x \<le> CreatedAt y) \<and>
    (\<forall>r \<in> set t. ID r \<notin> ID ` set xs \<longrightarrow> r \<in> set t') \<and> map ID t' = map ID t"
proof (intro exI conjI ballI impI)
  let ?xs = "claim_rows e n t" and ?u = "claim_table e n t"
  have d: "distinct (map ID t)" using assms(1) by (simp add: table_ok_def)
  have ids: "ID ` set ?xs = set (claim_ids e n t)" using claim_rows_ids [of e n t] by simp
  show "ClaimPendingOrders U ReplyOk e n t = (Ok ?xs, ?u)" using assms by (simp add: ClaimPendingOrders_ok)
  show "table_ok ?u" using assms(1) by (rule claim_table_ok)
  show "length ?xs = min (nat n) (length (filter (claimable e) t))"
    using claim_rows_length [OF d] by (simp add: claim_ids_def claim_picks_length)
  show "distinct (map ID ?xs)" using d by (rule claim_rows_distinct)
  show "map ID ?u = map ID t" by (simp add: claim_table_def)
  fix x
  assume x: "x \<in> set ?xs"
  then have i: "ID x \<in> set (claim_ids e n t)" using ids by blast
  then obtain p where p: "p \<in> set (claim_picks e n t)" "ID p = ID x" by (auto simp: claim_ids_def)
  show "x \<in> set ?u" "Status x = StatusProcessing" using claim_row_status [OF x] by auto
  show "ID x \<notin> set (locked e)" using claim_picks_in [OF p(1)] p(2) by (simp add: claimable_def)
  show "status_of t (ID x) = Some StatusPending" using d i by (rule claim_ids_status)
  fix y
  assume y: "y \<in> set t" "claimable e y \<and> ID y \<notin> ID ` set ?xs"
  have "CreatedAt x = CreatedAt p"
  proof -
    obtain r where r: "r \<in> set t" "ID r = ID x" "CreatedAt x = CreatedAt r"
      using claim_row_status [OF x] by (auto simp: claim_table_def in_update_rows split: if_splits)
    then have "r = p" using d claim_picks_in [OF p(1)] p(2) find_ID [of t r] find_ID [of t p] by auto
    then show ?thesis using r by simp
  qed
  then show "CreatedAt x \<le> CreatedAt y" using claim_picks_oldest [OF d p(1)] y ids by simp
next
  fix r
  assume "r \<in> set t" "ID r \<notin> ID ` set (claim_rows e n t)"
  then show "r \<in> set (claim_table e n t)" using claim_rows_ids [of e n t] by (intro claim_table_other) auto
qed

theorem claim_takes_oldest_witness:
  "\<exists>xs t'. ClaimPendingOrders canonical_lib ReplyOk
      \<lparr>locked = [2], scan_rank = (\<lambda>_. 0), returning_rank = (\<lambda>_. 0), claim_now = 60\<rparr> 5 sample_table = (Ok xs, t') \<and>
    length xs = 1 \<and> table_ok t'"
  using claim_takes_oldest [OF sample_table_ok canonical_lib_ok, of 5
      "\<lparr>locked = [2], scan_rank = (\<lambda>_. 0), returning_rank = (\<lambda>_. 0), claim_now = 60\<rparr>"]
  by (auto simp: sample_table_def claimable_def)

text \<open>
  (C6) Marking. A status guard makes \<open>MarkOrder\<close> an atomic compare-and-set: it succeeds exactly
  when the order is \<open>processing\<close>, changes that row only, and otherwise reports a conflict and
  changes nothing; so a second attempt after a success that left \<open>processing\<close> is a conflict.
\<close>

theorem mark_compare_and_set:
  assumes "table_ok t" "uuid_lib_ok U" "Valid st"
  shows "\<exists>t'. MarkOrder U ReplyOk now i st t =
      ((if status_of t i = Some StatusProcessing then Ok () else Err ErrConflict), t') \<and> table_ok t' \<and>
    (\<forall>k. status_of t' k = (if k = i \<and> status_of t i = Some StatusProcessing then Some st else status_of t k)) \<and>
    (status_of t i \<noteq> Some StatusProcessing \<longrightarrow> t' = t) \<and>
    (st \<noteq> StatusProcessing \<and> Valid st' \<longrightarrow> MarkOrder U ReplyOk now' i st' t' = (Err ErrConflict, t'))"
proof (intro exI conjI allI impI)
  let ?u = "mark_table i st now t"
  have d: "distinct (map ID t)" using assms(1) by (simp add: table_ok_def)
  show u: "MarkOrder U ReplyOk now i st t =
      ((if status_of t i = Some StatusProcessing then Ok () else Err ErrConflict), ?u)"
    using MarkOrder_ok [OF assms] mark_table_miss [OF d] by simp
  show ok: "table_ok ?u" using assms by auto
  show st: "status_of ?u k = (if k = i \<and> status_of t i = Some StatusProcessing then Some st else status_of t k)" for k
    using d by (auto simp: status_of_update_one)
  show "status_of t i \<noteq> Some StatusProcessing \<Longrightarrow> ?u = t" by (rule mark_table_miss [OF d])
  assume "st \<noteq> StatusProcessing \<and> Valid st'"
  then show "MarkOrder U ReplyOk now' i st' ?u = (Err ErrConflict, ?u)"
    using MarkOrder_ok [OF ok assms(2)] st [of i] by simp
qed

theorem mark_compare_and_set_witness:
  "MarkOrder canonical_lib ReplyOk 90 3 StatusFailed sample_table = (Err ErrConflict, sample_table)"
proof -
  have "status_of sample_table 3 = Some StatusPaid" by (simp add: sample_table_def)
  then show ?thesis
    using mark_compare_and_set [OF sample_table_ok canonical_lib_ok, of StatusFailed 90 3] by auto
qed

text \<open>
  Terminal orders are final. Whatever status is asked for, however the round trip ends, and
  however many attempts are made, \<open>MarkOrder\<close> never moves an order that is not \<open>processing\<close>.
\<close>

theorem mark_never_leaves_terminal:
  assumes "table_ok t" "uuid_lib_ok U" "status_of t k = Some s" "s \<noteq> StatusProcessing"
  shows "status_of (fold (\<lambda>(r, now, i, st) u. snd (MarkOrder U r now i st u)) attempts t) k = Some s"
  using assms(1,3)
proof (induction attempts arbitrary: t)
  case (Cons a as)
  obtain r now i st where a: "a = (r, now, i, st)" by (metis prod_cases4)
  let ?u = "snd (MarkOrder U r now i st t)"
  have "table_ok ?u" using mark.run_ok [OF Cons.prems(1)] by (simp add: MarkOrder_snd)
  moreover have "status_of ?u k = Some s" using Cons.prems assms(4) by (intro MarkOrder_keeps)
  ultimately show ?case using Cons.IH by (simp add: a)
qed simp

theorem mark_never_leaves_terminal_witness:
  "status_of (fold (\<lambda>(r, now, i, st) u. snd (MarkOrder canonical_lib r now i st u))
     [(ReplyLost 0 Canceled, 80, 3, StatusFailed), (ReplyOk, 81, 3, StatusPending)] sample_table) 3 = Some StatusPaid"
  by (rule mark_never_leaves_terminal [OF sample_table_ok canonical_lib_ok]) (simp_all add: sample_table_def)

text \<open>
  Creating and reading back. A validated order with a fresh id is inserted (the columns'
  checks accept it) unless its customer id holds a zero byte, which validation lets through and the
  server rejects; then reading it gives the order with its times at the server's precision, and
  every other order reads as before.
\<close>

theorem create_get_roundtrip:
  assumes "table_ok t" "uuid_lib_ok U" "Validate n = None" "i \<notin> set (map ID t)"
  shows "\<exists>res t'. CreateOrder U pgtime ReplyOk (Build i now n) t = (res, t') \<and> table_ok t' \<and>
    (if CHR 0x00 \<in> set (NewCustomerID n)
     then res = Err (Wrap ''store: create order'' (pg_error ''22021'')) \<and> t' = t
     else res = Ok () \<and>
       GetOrder U ReplyOk i t' = Ok (stored pgtime (Build i now n)) \<and>
       (\<forall>k. k \<noteq> i \<longrightarrow> GetOrder U ReplyOk k t' = GetOrder U ReplyOk k t))"
proof (intro exI conjI)
  let ?u = "if text_ok (NewCustomerID n) then t @ [stored pgtime (Build i now n)] else t"
  let ?r = "if text_ok (NewCustomerID n) then Ok () else Err (Wrap ''store: create order'' (pg_error ''22021''))"
  show "CreateOrder U pgtime ReplyOk (Build i now n) t = (?r, ?u)"
    using CreateOrder_build [OF assms(2-4)] by simp
  show "table_ok ?u" using assms Build_row_check by (auto intro!: snoc_ok)
  show "if CHR 0x00 \<in> set (NewCustomerID n)
     then ?r = Err (Wrap ''store: create order'' (pg_error ''22021'')) \<and> ?u = t
     else ?r = Ok () \<and> GetOrder U ReplyOk i ?u = Ok (stored pgtime (Build i now n)) \<and>
       (\<forall>k. k \<noteq> i \<longrightarrow> GetOrder U ReplyOk k ?u = GetOrder U ReplyOk k t)"
    using find_ID_None [OF assms(4)]
    by (auto simp: text_ok_def GetOrder_ok [OF assms(2)] find_append split: option.splits)
qed

theorem create_get_roundtrip_witness:
  "\<exists>t'. CreateOrder canonical_lib (\<lambda>u. u) ReplyOk (Build 9 70 sample_new) sample_table = (Ok (), t') \<and>
    GetOrder canonical_lib ReplyOk 9 t' = Ok (stored (\<lambda>u. u) (Build 9 70 sample_new))"
proof -
  have "9 \<notin> set (map ID sample_table)" by (simp add: sample_table_def)
  moreover have "CHR 0x00 \<notin> set (NewCustomerID sample_new)" by (simp add: sample_new_def)
  ultimately show ?thesis
    using create_get_roundtrip [OF sample_table_ok canonical_lib_ok sample_new_valid, of 9 "\<lambda>u. u" 70] by auto
qed

text \<open>
  Validation is total and closed. It accepts exactly the orders within the limits, its failures
  come from six fixed pairs of field and reason, each field and reason being a constant that can
  serve as a label value, and an accepted order always satisfies the CHECK constraints of the schema.
\<close>

theorem validate_spec:
  "(Validate n = None \<longleftrightarrow>
     0 < length (NewCustomerID n) \<and> length (NewCustomerID n) \<le> 64 \<and>
     0 < NewAmountCents n \<and> NewAmountCents n \<le> 10000000 \<and>
     NewCurrency n \<in> set SupportedCurrencies) \<and>
   Validate n \<in> {None,
     Some (ValidationError ''customer_id'' ''required''),
     Some (ValidationError ''customer_id'' ''too_long''),
     Some (ValidationError ''amount_cents'' ''must_be_positive''),
     Some (ValidationError ''amount_cents'' ''exceeds_limit''),
     Some (ValidationError ''currency'' ''must_be_iso4217''),
     Some (ValidationError ''currency'' ''unsupported_currency'')} \<and>
   (Validate n = None \<longrightarrow> row_check (Build i now n))"
proof (intro conjI impI)
  show "row_check (Build i now n)" if "Validate n = None"
    using Build_row_check [OF that, of id i now] by (simp add: stored_def row_check_def)
qed (rule Validate_None_iff, simp add: Validate_def)

theorem validate_spec_witness: "row_check (Build 7 40 sample_new)"
  using validate_spec [of sample_new 7 40] sample_new_valid by blast

text \<open>
  (C18) Paging. Each page of a listing of an unchanged table is a query of its own, and the query orders
  by creation time only, so every page may put orders of equal creation time in another order. Whatever it
  does, a page holds at most the limit, of orders of the table with the requested status (of every order
  when none is given), each once, and the creation times of enough pages are those of all the matching orders,
  newest first. When no two matching orders have the same creation time the pages return each of them exactly
  once, and so they do when all the queries break ties alike. Otherwise they need not: there are tables of
  two orders of which the first two pages show one twice and the other never.
\<close>

theorem list_pages_partition:
  assumes "uuid_lib_ok U" "0 < n" "table_ok t"
  shows "(\<exists>pages. (\<forall>k. ListOrders U (rank k) ReplyOk st (int n) (int (k * n)) t = Ok (pages k) \<and> length (pages k) \<le> n \<and>
      distinct (pages k) \<and> set (pages k) \<subseteq> set (matching st t)) \<and>
    (\<forall>K. length t \<le> K * n \<longrightarrow>
       map CreatedAt (concat (map pages [0..<K])) = rev (sort (map CreatedAt (matching st t))) \<and>
       (distinct (map CreatedAt (matching st t)) \<or> (\<forall>k. rank k = rank 0) \<longrightarrow>
          mset (concat (map pages [0..<K])) = mset (matching st t)))) \<and>
    (\<exists>x y r0 r1. x \<noteq> y \<and> table_ok [x, y] \<and> ListOrders U r0 ReplyOk [] 1 0 [x, y] = Ok [x] \<and>
       ListOrders U r1 ReplyOk [] 1 1 [x, y] = Ok [x])"
proof (rule conjI [OF list_pages [OF assms]])
  show "\<exists>x y r0 r1. x \<noteq> y \<and> table_ok [x, y] \<and> ListOrders U r0 ReplyOk [] 1 0 [x, y] = Ok [x] \<and>
      ListOrders U r1 ReplyOk [] 1 1 [x, y] = Ok [x]"
    using list_pages_tie [OF assms(1)] by metis
qed

theorem list_pages_partition_witness:
  "\<exists>p0 p1. ListOrders canonical_lib (\<lambda>_. 0) ReplyOk [] 2 0 sample_table = Ok p0 \<and>
     ListOrders canonical_lib (\<lambda>u. if u = 1 then 1 else 0) ReplyOk [] 2 2 sample_table = Ok p1 \<and> mset (p0 @ p1) = mset sample_table"
proof -
  let ?rank = "\<lambda>k u. if k = 1 \<and> u = (1 :: uuid) then 1 else (0 :: nat)"
  have d: "distinct (map CreatedAt (matching [] sample_table))" by (simp add: matching_def sample_table_def)
  obtain pages where p: "\<And>k. ListOrders canonical_lib (?rank k) ReplyOk [] (int 2) (int (k * 2)) sample_table = Ok (pages k)"
    "\<And>K. length sample_table \<le> K * 2 \<Longrightarrow> mset (concat (map pages [0..<K])) = mset (matching [] sample_table)"
    using list_pages_partition [OF canonical_lib_ok _ sample_table_ok, of 2 ?rank "[]"] d by auto
  have "length sample_table \<le> 2 * 2" by (simp add: sample_table_def)
  from p(1) [of 0] p(1) [of 1] p(2) [OF this] show ?thesis by (auto simp: upt_rec matching_def)
qed

text \<open>
  Counting. \<open>CountOrdersByStatus\<close> gives the exact number of rows for each status that
  occurs, no entry for one that does not, and on a table that keeps its constraints the counts over
  \<open>AllStatuses\<close> add up to the number of orders.
\<close>

theorem count_by_status:
  assumes "table_ok t"
  shows "\<exists>m. CountOrdersByStatus ReplyOk t = Ok m \<and>
    (\<forall>s. m s = (if in_status s t = 0 then None else Some (in_status s t))) \<and>
    sum_list (map (\<lambda>s. case m s of None \<Rightarrow> 0 | Some c \<Rightarrow> c) AllStatuses) = int (length t)"
proof -
  obtain m where m: "CountOrdersByStatus ReplyOk t = Ok m"
    "\<And>s. m s = (if s \<in> Status ` set t then Some (in_status s t) else None)"
    using CountOrdersByStatus_ok [of t] by blast
  have z: "in_status s t = 0 \<longleftrightarrow> s \<notin> Status ` set t" for s
    by (induction t) (auto simp: in_status_def)
  have "\<forall>r \<in> set t. Valid (Status r)" using assms by (auto simp: table_ok_def row_check_Valid)
  then have "sum_list (map (\<lambda>s. in_status s t) AllStatuses) = int (length t)" by (rule in_status_total)
  moreover have "(case m s of None \<Rightarrow> 0 | Some c \<Rightarrow> c) = in_status s t" for s using m(2) z by auto
  ultimately show ?thesis using m z by auto
qed

theorem count_by_status_witness:
  "\<exists>m. CountOrdersByStatus ReplyOk sample_table = Ok m \<and> m StatusPending = Some 2 \<and> m StatusFailed = None"
  using count_by_status [OF sample_table_ok] by (auto simp: sample_table_def)

end
