(* ===== verification/Business_Metrics.thy ===== *)
theory Business_Metrics
  imports Domain
begin

text \<open>
  internal/metrics/business.go: the product metrics that \<open>NewBusiness\<close> registers, the series that
  \<open>PreInit\<close> creates before the first event, and the methods through which the HTTP layer, the
  worker and the backlog refresher report. Every method is the list of calls it makes to the
  Prometheus client. The lemmas give what each method adds to each counter, and that every call is
  on a registered metric with the right number of labels, which is what keeps the client from
  panicking.
\<close>

section \<open>Definitions\<close>

subsection \<open>The metrics of NewBusiness\<close>

definition created :: mdesc where
  "created = \<lparr>Subsystem = [], Name = ''created_total'', Kind = CounterKind, LabelNames = [''currency'']\<rparr>"

definition createdValue :: mdesc where
  "createdValue =
     \<lparr>Subsystem = [], Name = ''created_value_cents_total'', Kind = CounterKind, LabelNames = [''currency'']\<rparr>"

definition transitions :: mdesc where
  "transitions =
     \<lparr>Subsystem = [], Name = ''state_transitions_total'', Kind = CounterKind, LabelNames = [''from'', ''to'']\<rparr>"

definition processing :: mdesc where
  "processing =
     \<lparr>Subsystem = [], Name = ''processing_duration_seconds'', Kind = HistogramKind, LabelNames = [''outcome'']\<rparr>"

definition workerRuns :: mdesc where
  "workerRuns = \<lparr>Subsystem = ''worker'', Name = ''runs_total'', Kind = CounterKind, LabelNames = [''result'']\<rparr>"

definition workerPanics :: mdesc where
  "workerPanics = \<lparr>Subsystem = ''worker'', Name = ''panics_total'', Kind = CounterKind, LabelNames = [''stage'']\<rparr>"

definition workerBatch :: mdesc where
  "workerBatch = \<lparr>Subsystem = ''worker'', Name = ''batch_size'', Kind = HistogramKind, LabelNames = []\<rparr>"

definition workerDuration :: mdesc where
  "workerDuration =
     \<lparr>Subsystem = ''worker'', Name = ''batch_duration_seconds'', Kind = HistogramKind, LabelNames = []\<rparr>"

definition backlog :: mdesc where
  "backlog = \<lparr>Subsystem = ''backlog'', Name = ''orders'', Kind = GaugeKind, LabelNames = [''status'']\<rparr>"

definition backlogOldest :: mdesc where
  "backlogOldest = \<lparr>Subsystem = ''backlog'', Name = ''oldest_age_seconds'', Kind = GaugeKind, LabelNames = []\<rparr>"

definition backlogRefresh :: mdesc where
  "backlogRefresh =
     \<lparr>Subsystem = ''backlog'', Name = ''last_refresh_timestamp_seconds'', Kind = GaugeKind, LabelNames = []\<rparr>"

definition backlogErrors :: mdesc where
  "backlogErrors =
     \<lparr>Subsystem = ''backlog'', Name = ''refresh_errors_total'', Kind = CounterKind, LabelNames = []\<rparr>"

definition NewBusiness :: "mdesc list" where
  "NewBusiness =
     [created, createdValue, transitions, processing,
      workerRuns, workerPanics, workerBatch, workerDuration,
      backlog, backlogOldest, backlogRefresh, backlogErrors]"

subsection \<open>The methods\<close>

definition WorkerStages :: "string list" where
  "WorkerStages = [''batch'', ''process_order'', ''backlog_refresh'']"

definition business_PreInit :: "string list \<Rightarrow> (string \<times> string) list \<Rightarrow> effect list" where
  "business_PreInit currencies ts =
     concat (map (\<lambda>c. [Metric (WithLabels created [c]), Metric (WithLabels createdValue [c])]) currencies) @
     map (\<lambda>(f, t). Metric (WithLabels transitions [f, t])) ts @
     map (\<lambda>s. Metric (WithLabels processing [s])) [''paid'', ''failed''] @
     map (\<lambda>r. Metric (WithLabels workerRuns [r])) [''ok'', ''empty'', ''error''] @
     map (\<lambda>s. Metric (WithLabels workerPanics [s])) WorkerStages"

definition Transition :: "string \<Rightarrow> string \<Rightarrow> effect list" where
  "Transition from to = [Metric (Inc transitions [from, to])]"

definition OrderCreated :: "string \<Rightarrow> int \<Rightarrow> effect list" where
  "OrderCreated currency amountCents =
     [Metric (Inc created [currency]),
      Metric (Add createdValue [currency] amountCents None)] @
     Transition ''new'' ''pending''"

definition OrderProcessed :: "span_context option \<Rightarrow> string \<Rightarrow> duration \<Rightarrow> effect list" where
  "OrderProcessed sc outcome d = [Metric (observeExemplar sc processing [outcome] (VSeconds d))]"

definition WorkerRun :: "span_context option \<Rightarrow> string \<Rightarrow> int \<Rightarrow> duration \<Rightarrow> effect list" where
  "WorkerRun sc result batchSize d =
     [Metric (Inc workerRuns [result]),
      Metric (Observe workerBatch [] (VNum batchSize) None),
      Metric (observeExemplar sc workerDuration [] (VSeconds d))]"

definition WorkerPanic :: "string \<Rightarrow> effect list" where
  "WorkerPanic stage = [Metric (Inc workerPanics [stage])]"

text \<open>\<open>counts[s]\<close> of a missing key is zero; \<open>Unix()\<close> is whole seconds.\<close>

definition SetBacklog :: "string list \<Rightarrow> time \<Rightarrow> (string \<rightharpoonup> int) \<Rightarrow> duration \<Rightarrow> effect list" where
  "SetBacklog knownStatuses now counts oldest =
     map (\<lambda>s. Metric (GaugeSet backlog [s] (VNum (case counts s of None \<Rightarrow> 0 | Some n \<Rightarrow> n)))) knownStatuses @
     [Metric (GaugeSet backlogOldest [] (VSeconds oldest)),
      Metric (GaugeSet backlogRefresh [] (VNum (now div Second)))]"

definition BacklogRefreshFailed :: "effect list" where
  "BacklogRefreshFailed = [Metric (Inc backlogErrors [])]"

subsection \<open>Net flow\<close>

text \<open>Net flow into status \<open>s\<close> according to the transition counters.\<close>

definition flow :: "status \<Rightarrow> effect list \<Rightarrow> int" where
  "flow s es =
     sum_list (map (\<lambda>a. ctr transitions [a, s] es) (''new'' # AllStatuses)) -
     sum_list (map (\<lambda>b. ctr transitions [s, b] es) AllStatuses)"

section \<open>Lemmas\<close>

lemmas business_defs =
  created_def createdValue_def transitions_def processing_def workerRuns_def workerPanics_def
  workerBatch_def workerDuration_def backlog_def backlogOldest_def backlogRefresh_def backlogErrors_def

lemma business_distinct: "distinct NewBusiness"
  by (simp add: NewBusiness_def business_defs)

lemma business_Name [simp]:
  "Name created = ''created_total''" "Name createdValue = ''created_value_cents_total''"
  "Name transitions = ''state_transitions_total''" "Name processing = ''processing_duration_seconds''"
  "Name workerRuns = ''runs_total''" "Name workerPanics = ''panics_total''"
  "Name workerBatch = ''batch_size''" "Name workerDuration = ''batch_duration_seconds''"
  "Name backlog = ''orders''" "Name backlogOldest = ''oldest_age_seconds''"
  "Name backlogRefresh = ''last_refresh_timestamp_seconds''" "Name backlogErrors = ''refresh_errors_total''"
  by (simp_all add: business_defs)

lemma business_Kind [simp]:
  "Kind created = CounterKind" "Kind createdValue = CounterKind" "Kind transitions = CounterKind"
  "Kind processing = HistogramKind" "Kind workerRuns = CounterKind" "Kind workerPanics = CounterKind"
  "Kind workerBatch = HistogramKind" "Kind workerDuration = HistogramKind" "Kind backlog = GaugeKind"
  "Kind backlogOldest = GaugeKind" "Kind backlogRefresh = GaugeKind" "Kind backlogErrors = CounterKind"
  by (simp_all add: business_defs)

lemma business_arity [simp]:
  "length (LabelNames created) = 1" "length (LabelNames createdValue) = 1"
  "length (LabelNames transitions) = 2" "length (LabelNames processing) = 1"
  "length (LabelNames workerRuns) = 1" "length (LabelNames workerPanics) = 1"
  "length (LabelNames workerBatch) = 0" "length (LabelNames workerDuration) = 0"
  "length (LabelNames backlog) = 1" "length (LabelNames backlogOldest) = 0"
  "length (LabelNames backlogRefresh) = 0" "length (LabelNames backlogErrors) = 0"
  by (simp_all add: business_defs)

lemma business_in [simp]:
  "created \<in> set NewBusiness" "createdValue \<in> set NewBusiness" "transitions \<in> set NewBusiness"
  "processing \<in> set NewBusiness" "workerRuns \<in> set NewBusiness" "workerPanics \<in> set NewBusiness"
  "workerBatch \<in> set NewBusiness" "workerDuration \<in> set NewBusiness" "backlog \<in> set NewBusiness"
  "backlogOldest \<in> set NewBusiness" "backlogRefresh \<in> set NewBusiness" "backlogErrors \<in> set NewBusiness"
  by (simp_all add: NewBusiness_def)

lemma neq_by_Name: "Name a \<noteq> Name b \<Longrightarrow> a \<noteq> b"
  by auto

subsection \<open>What each method adds to the counters\<close>

lemma ctr_transitions [simp, telemetry_simps]:
  "ctr transitions [a, b] (Transition f t) = of_bool (f = a \<and> t = b)"
  "ctr transitions ls (OrderProcessed sc x d) = 0"
  "ctr transitions ls (WorkerRun sc r n d) = 0"
  "ctr transitions ls (WorkerPanic st) = 0"
  "ctr transitions [a, b] (OrderCreated c m) = of_bool (''new'' = a \<and> ''pending'' = b)"
  by (auto simp: Transition_def OrderProcessed_def WorkerRun_def WorkerPanic_def OrderCreated_def
      delta_Metric neq_by_Name)

lemma ctr_workerRuns [simp, telemetry_simps]:
  "ctr workerRuns ls (Transition f t) = 0"
  "ctr workerRuns ls (OrderProcessed sc x d) = 0"
  "ctr workerRuns [q] (WorkerRun sc r n d) = of_bool (r = q)"
  "ctr workerRuns ls (WorkerPanic st) = 0"
  by (auto simp: Transition_def OrderProcessed_def WorkerRun_def WorkerPanic_def delta_Metric neq_by_Name)

lemma ctr_workerPanics [simp, telemetry_simps]:
  "ctr workerPanics ls (Transition f t) = 0"
  "ctr workerPanics ls (OrderProcessed sc x d) = 0"
  "ctr workerPanics ls (WorkerRun sc r n d) = 0"
  "ctr workerPanics [q] (WorkerPanic st) = of_bool (st = q)"
  by (auto simp: Transition_def OrderProcessed_def WorkerRun_def WorkerPanic_def delta_Metric neq_by_Name)

lemma ctr_created [simp, telemetry_simps]:
  "ctr created [q] (OrderCreated c m) = of_bool (c = q)"
  "ctr createdValue [q] (OrderCreated c m) = of_bool (c = q) * m"
  by (auto simp: Transition_def OrderCreated_def delta_Metric neq_by_Name)

subsection \<open>No call makes the client panic\<close>

lemma business_calls_ok:
  "\<forall>c \<in> set (metric_calls (Transition f t)). call_ok NewBusiness c"
  "0 \<le> m \<Longrightarrow> \<forall>c \<in> set (metric_calls (OrderCreated cur m)). call_ok NewBusiness c"
  "\<forall>c \<in> set (metric_calls (OrderProcessed sc x d)). call_ok NewBusiness c"
  "\<forall>c \<in> set (metric_calls (WorkerRun sc r n d)). call_ok NewBusiness c"
  "\<forall>c \<in> set (metric_calls (WorkerPanic st)). call_ok NewBusiness c"
  "\<forall>c \<in> set (metric_calls BacklogRefreshFailed). call_ok NewBusiness c"
  by (simp_all add: Transition_def OrderCreated_def OrderProcessed_def WorkerRun_def WorkerPanic_def
      BacklogRefreshFailed_def call_ok_def)

lemma SetBacklog_calls_ok: "\<forall>c \<in> set (metric_calls (SetBacklog ks now cs d)). call_ok NewBusiness c"
  by (auto simp: SetBacklog_def set_metric_calls call_ok_def)

subsection \<open>Flow\<close>

lemma flow_Nil [simp]: "flow s [] = 0"
  by (simp add: flow_def AllStatuses_def)

lemma flow_append [simp]: "flow s (es @ fs) = flow s es + flow s fs"
  by (simp add: flow_def AllStatuses_def)

lemma flow_Cons: "flow s (e # es) = flow s [e] + flow s es"
  using flow_append [of s "[e]" es] by simp

lemma flow_zero: "(\<And>ls. ctr transitions ls es = 0) \<Longrightarrow> flow s es = 0"
  by (simp add: flow_def AllStatuses_def)

lemma flow_Transition:
  assumes "a \<in> set (''new'' # AllStatuses)" "b \<in> set AllStatuses" "s \<in> set AllStatuses"
  shows "flow s (Transition a b) = of_bool (s = b) - of_bool (s = a)"
  using assms by (auto simp: flow_def AllStatuses_def)

lemma flow_concat_replicate: "flow s (concat (replicate n es)) = int n * flow s es"
  by (induction n) (auto simp: algebra_simps)

lemma flow_other [simp]:
  "flow s (OrderProcessed sc x d) = 0"
  "flow s (WorkerRun sc r bsize d) = 0"
  "flow s [Log l c m as] = 0"
  "flow s [SpanStart n q nm as] = 0"
  "flow s [SpanAttrs n as] = 0"
  "flow s [SpanError n er] = 0"
  "flow s [SpanStatus n k m] = 0"
  "flow s [SpanEnd n] = 0"
  by (rule flow_zero; simp)+

end
