(* ===== verification/Http.thy ===== *)
theory Http
  imports Logging Store_Properties Business_Metrics
begin

text \<open>
  The HTTP layer's plumbing: the response writer and the three recorders that wrap it, the
  JSON helpers (httpapi/response.go), the middleware (httpapi/middleware.go and logging.go,
  metrics/http.go, tracing/http.go) and the order in which cmd/api/main.go chains it.

  A handler is called with a request and the orders table. It returns what it did, in order
  (\<open>event\<close>: a call on the response writer it was given, a telemetry call, a log call made
  with a context), the panic it ended in, if any, the \<open>Pattern\<close> field of the request object it
  was given, as the \<open>ServeMux\<close> leaves it, and the table afterwards. A recorder is a filter on
  the writer calls: it updates its own fields and forwards calls to the writer it wraps.

  Outcomes fixed outside the code are fields of \<open>serve_env\<close>: what the client connection
  accepts of a write, what the tracer returns, fresh random bytes, elapsed times.
\<close>

section \<open>Definitions\<close>

subsection \<open>Requests, bodies and the response writer\<close>

record request =
  Method :: string
  Path :: string \<comment> \<open>\<open>URL.Path\<close>\<close>
  RawQuery :: string
  Query :: "(string \<times> string) list" \<comment> \<open>\<open>URL.Query()\<close>, in order\<close>
  Header :: "string \<Rightarrow> string" \<comment> \<open>\<open>Header.Get\<close>: empty when absent\<close>
  RemoteAddr :: string
  Host :: string
  TLS :: bool
  Pattern :: string
  CtxAttrs :: log_ctx
  CtxSpan :: "span_context option"

datatype body =
    ErrorBody string string string \<comment> \<open>code, message, field\<close>
  | OrderBody Order
  | ListBody "Order list" int int
  | MapBody string string
  | HtmlBody string \<comment> \<open>a text that is not JSON\<close>

datatype wcall =
    SetHeader string string
  | WriteHeader int
  | Write body nat "goerr option" \<comment> \<open>with the result it returned\<close>

datatype pval = PErr goerr | PVal string

datatype event =
    W wcall
  | E effect
  | L log_ctx level string "attr list"

record hres =
  hev :: "event list"
  hpanic :: "pval option"
  hpat :: string
  htab :: table

type_synonym http_handler = "request \<Rightarrow> table \<Rightarrow> hres"
type_synonym middleware = "http_handler \<Rightarrow> http_handler"

record serve_env =
  write_res :: "body \<Rightarrow> nat \<times> goerr option"
  span_sc :: "span_context option" \<comment> \<open>of the span the tracer starts, if it is valid\<close>
  recording :: bool
  rand_bytes :: "(8 word) list option"
  elapsed :: duration

definition returns :: "event list \<Rightarrow> string \<Rightarrow> table \<Rightarrow> hres" where
  "returns es p t = \<lparr>hev = es, hpanic = None, hpat = p, htab = t\<rparr>"

text \<open>
  net/http's own writer: the first \<open>WriteHeader\<close> fixes the status and the headers sent, a
  \<open>Write\<close> without one sends 200, later ones are ignored; a response never written is a 200. An
  informational status (1xx other than 101) is not final.
\<close>

record response =
  code :: "int option"
  live :: "(string \<times> string) list"
  sent :: "(string \<times> string) list"
  content :: "body list"

definition base_header :: "int \<Rightarrow> response \<Rightarrow> response" where
  "base_header c w =
     (if code w \<noteq> None then w
      else if 100 \<le> c \<and> c < 200 \<and> c \<noteq> 101 then w
      else w\<lparr>code := Some c, sent := live w\<rparr>)"

fun base_call :: "wcall \<Rightarrow> response \<Rightarrow> response" where
  "base_call (SetHeader k v) w = w\<lparr>live := AList.update k v (live w)\<rparr>"
| "base_call (WriteHeader c) w = base_header c w"
| "base_call (Write b n e) w = (let w' = base_header 200 w in w'\<lparr>content := content w' @ [b]\<rparr>)"

definition new_response :: response where
  "new_response = \<lparr>code = None, live = [], sent = [], content = []\<rparr>"

definition client :: "wcall list \<Rightarrow> response" where
  "client cs = base_header 200 (fold base_call cs new_response)"

definition client_status :: "wcall list \<Rightarrow> int" where
  "client_status cs = the (code (client cs))"

subsection \<open>Recorders\<close>

record recorder =
  status :: int
  written :: int
  wroteHeader :: bool

definition StatusOK :: int where "StatusOK = 200"

text \<open>metrics.responseRecorder\<close>

definition responseRecorder :: recorder where
  "responseRecorder = \<lparr>status = StatusOK, written = 0, wroteHeader = False\<rparr>"

definition responseRecorder_WriteHeader :: "int \<Rightarrow> recorder \<Rightarrow> recorder \<times> wcall list" where
  "responseRecorder_WriteHeader c r =
     (if wroteHeader r then (r, [])
      else (r\<lparr>status := c, wroteHeader := True\<rparr>, [WriteHeader c]))"

fun responseRecorder_call :: "wcall \<Rightarrow> recorder \<Rightarrow> recorder \<times> wcall list" where
  "responseRecorder_call (SetHeader k v) r = (r, [SetHeader k v])"
| "responseRecorder_call (WriteHeader c) r = responseRecorder_WriteHeader c r"
| "responseRecorder_call (Write b n e) r =
     (let (r1, cs) = (if \<not> wroteHeader r then responseRecorder_WriteHeader StatusOK r else (r, []))
      in (r1\<lparr>written := wrap64 (written r1 + int n)\<rparr>, cs @ [Write b n e]))"

text \<open>httpapi.statusRecorder\<close>

definition statusRecorder :: recorder where
  "statusRecorder = \<lparr>status = StatusOK, written = 0, wroteHeader = False\<rparr>"

definition statusRecorder_WriteHeader :: "int \<Rightarrow> recorder \<Rightarrow> recorder \<times> wcall list" where
  "statusRecorder_WriteHeader c r =
     (if wroteHeader r then (r, [])
      else (r\<lparr>status := c, wroteHeader := True\<rparr>, [WriteHeader c]))"

fun statusRecorder_call :: "wcall \<Rightarrow> recorder \<Rightarrow> recorder \<times> wcall list" where
  "statusRecorder_call (SetHeader k v) r = (r, [SetHeader k v])"
| "statusRecorder_call (WriteHeader c) r = statusRecorder_WriteHeader c r"
| "statusRecorder_call (Write b n e) r =
     (let (r1, cs) = (if \<not> wroteHeader r then statusRecorder_WriteHeader StatusOK r else (r, []))
      in (r1\<lparr>written := wrap64 (written r1 + int n)\<rparr>, cs @ [Write b n e]))"

text \<open>tracing.statusRecorder\<close>

record trace_recorder =
  tstatus :: int
  twrote :: bool

definition traceRecorder :: trace_recorder where
  "traceRecorder = \<lparr>tstatus = StatusOK, twrote = False\<rparr>"

definition traceRecorder_WriteHeader :: "int \<Rightarrow> trace_recorder \<Rightarrow> trace_recorder \<times> wcall list" where
  "traceRecorder_WriteHeader c r =
     (if twrote r then (r, []) else (\<lparr>tstatus = c, twrote = True\<rparr>, [WriteHeader c]))"

fun traceRecorder_call :: "wcall \<Rightarrow> trace_recorder \<Rightarrow> trace_recorder \<times> wcall list" where
  "traceRecorder_call (SetHeader k v) r = (r, [SetHeader k v])"
| "traceRecorder_call (WriteHeader c) r = traceRecorder_WriteHeader c r"
| "traceRecorder_call (Write b n e) r =
     (let (r1, cs) = (if \<not> twrote r then traceRecorder_WriteHeader StatusOK r else (r, []))
      in (r1, cs @ [Write b n e]))"

text \<open>What a recorder ends with and forwards when a handler runs on it.\<close>

fun through :: "(wcall \<Rightarrow> 'r \<Rightarrow> 'r \<times> wcall list) \<Rightarrow> 'r \<Rightarrow> event list \<Rightarrow> 'r \<times> event list" where
  "through f r [] = (r, [])"
| "through f r (W c # es) =
     (let (r1, cs) = f c r; (r2, fs) = through f r1 es in (r2, map W cs @ fs))"
| "through f r (e # es) = (let (r2, fs) = through f r es in (r2, e # fs))"

fun wcalls :: "event list \<Rightarrow> wcall list" where
  "wcalls [] = []"
| "wcalls (W c # es) = c # wcalls es"
| "wcalls (_ # es) = wcalls es"

subsection \<open>Responses\<close>

definition codeInvalidJSON :: string where "codeInvalidJSON = ''invalid_json''"
definition codeValidation :: string where "codeValidation = ''validation_failed''"
definition codeNotFound :: string where "codeNotFound = ''not_found''"
definition codeBadID :: string where "codeBadID = ''invalid_id''"
definition codeBadQuery :: string where "codeBadQuery = ''invalid_query_param''"
definition codeInternal :: string where "codeInternal = ''internal_error''"
definition codeUnavailable :: string where "codeUnavailable = ''unavailable''"
definition codeMethodUnknown :: string where "codeMethodUnknown = ''not_found''"

definition writeJSON :: "serve_env \<Rightarrow> log_ctx \<Rightarrow> int \<Rightarrow> body option \<Rightarrow> event list" where
  "writeJSON env ctx st v =
     [W (SetHeader ''Content-Type'' ''application/json; charset=utf-8''), W (WriteHeader st)] @
     (case v of
        None \<Rightarrow> []
      | Some b \<Rightarrow>
          (let (n, err) = write_res env b in
           [W (Write b n err)] @
           (case err of
              None \<Rightarrow> []
            | Some e \<Rightarrow> [L ctx LevelError ''write json response'' [(''error'', AErr e)]])))"

definition writeError :: "serve_env \<Rightarrow> log_ctx \<Rightarrow> int \<Rightarrow> string \<Rightarrow> string \<Rightarrow> string \<Rightarrow> event list" where
  "writeError env ctx st cd msg field = writeJSON env ctx st (Some (ErrorBody cd msg field))"

subsection \<open>Route labels\<close>

definition routeUnmatched :: string where "routeUnmatched = ''unmatched''"

definition routeLabel :: "request \<Rightarrow> string" where
  "routeLabel r =
     (if Pattern r = [] then routeUnmatched
      else let p = (case last_index CHR '' '' (Pattern r) of
                      Some i \<Rightarrow> drop (Suc i) (Pattern r) | None \<Rightarrow> Pattern r)
           in if p = [] \<or> p = ''/'' then routeUnmatched else p)"

definition routePattern :: "request \<Rightarrow> string" where
  "routePattern r =
     (if Pattern r = [] then ''unmatched''
      else let p = (case last_index CHR '' '' (Pattern r) of
                      Some i \<Rightarrow> drop (Suc i) (Pattern r) | None \<Rightarrow> Pattern r)
           in if p = [] \<or> p = ''/'' then ''unmatched'' else p)"

definition routeTemplate :: "request \<Rightarrow> string" where
  "routeTemplate r =
     (if Pattern r = [] then ''unmatched''
      else let p = (case last_index CHR '' '' (Pattern r) of
                      Some i \<Rightarrow> drop (Suc i) (Pattern r) | None \<Rightarrow> Pattern r)
           in if p = [] \<or> p = ''/'' then ''unmatched'' else p)"

definition statusClass :: "int \<Rightarrow> string" where
  "statusClass c =
     (if c < 100 then ''unknown''
      else if c < 200 then ''1xx''
      else if c < 300 then ''2xx''
      else if c < 400 then ''3xx''
      else if c < 500 then ''4xx''
      else if c < 600 then ''5xx''
      else ''unknown'')"

subsection \<open>metrics/http.go\<close>

definition requests :: mdesc where
  "requests = \<lparr>Subsystem = ''http'', Name = ''requests_total'', Kind = CounterKind,
     LabelNames = [''route'', ''method'', ''code'', ''status_class'']\<rparr>"

definition http_duration :: mdesc where
  "http_duration = \<lparr>Subsystem = ''http'', Name = ''request_duration_seconds'', Kind = HistogramKind,
     LabelNames = [''route'', ''method'', ''status_class'']\<rparr>"

definition respSize :: mdesc where
  "respSize = \<lparr>Subsystem = ''http'', Name = ''response_size_bytes'', Kind = HistogramKind,
     LabelNames = [''route'', ''method'']\<rparr>"

definition inFlight :: mdesc where
  "inFlight = \<lparr>Subsystem = ''http'', Name = ''requests_in_flight'', Kind = GaugeKind, LabelNames = []\<rparr>"

definition panics :: mdesc where
  "panics = \<lparr>Subsystem = ''http'', Name = ''panics_total'', Kind = CounterKind, LabelNames = [''route'']\<rparr>"

definition http_skip :: "string \<Rightarrow> bool" where
  "http_skip p = (p = ''/healthz'' \<or> p = ''/readyz'')"

definition NewHTTP :: "mdesc list" where
  "NewHTTP = [requests, http_duration, respSize, inFlight, panics]"

text \<open>\<open>PreInit\<close>; a success code that is not a number panics.\<close>

fun http_PreInit :: "(string \<times> string \<times> string) list \<Rightarrow> effect list res" where
  "http_PreInit [] = Ok [Metric (WithLabels panics [routeUnmatched])]"
| "http_PreInit ((meth, route, cd) # specs) =
     (case atoi cd of
        None \<Rightarrow> Panicked (''metrics: PreInit success code '' @ cd @ '' is not numeric'')
      | Some n \<Rightarrow>
          res_bind (http_PreInit specs) (\<lambda>es. Ok (
            [Metric (WithLabels requests [route, meth, cd, statusClass n]),
             Metric (WithLabels http_duration [route, meth, statusClass n]),
             Metric (WithLabels respSize [route, meth]),
             Metric (WithLabels panics [route])] @ es)))"

definition http_Middleware :: "serve_env \<Rightarrow> middleware" where
  "http_Middleware env next r t =
     (if http_skip (Path r) then next r t
      else
        let res = next r t;
            (rec, es) = through responseRecorder_call responseRecorder (hev res);
            r' = r\<lparr>Pattern := hpat res\<rparr>;
            route = routeLabel r';
            class = statusClass (status rec);
            cd = itoa (status rec);
            observed =
              [E (Metric (Inc requests [route, Method r, cd, class])),
               E (Metric (observeExemplar (CtxSpan r) http_duration [route, Method r, class] (VSeconds (elapsed env)))),
               E (Metric (observeExemplar (CtxSpan r) respSize [route, Method r] (VNum (written rec))))]
        in res\<lparr>hev := [E (Metric (GaugeInc inFlight))] @ es @
                 (if hpanic res = None then observed else []) @ [E (Metric (GaugeDec inFlight))]\<rparr>)"

definition http_RecordPanic :: "request \<Rightarrow> event list" where
  "http_RecordPanic r = [E (Metric (addExemplar (CtxSpan r) panics [routeLabel r] 1))]"

subsection \<open>httpapi/logging.go\<close>

definition RequestID :: "serve_env \<Rightarrow> middleware" where
  "RequestID env next r t =
     (let (v, ok) = SanitizeRequestID (Header r RequestIDHeader);
          rid = (if \<not> ok then NewRequestID (rand_bytes env) else v);
          inner = r\<lparr>CtxAttrs := WithRequestID (CtxAttrs r) rid\<rparr>;
          res = next inner t
      in res\<lparr>hev := [W (SetHeader RequestIDHeader rid)] @ hev res,
             hpat := (if hpanic res = None then hpat res else Pattern r)\<rparr>)"

definition clientIP :: "request \<Rightarrow> string" where
  "clientIP r =
     (let xff = Header r ''X-Forwarded-For'' in
      if xff \<noteq> [] then
        (case index_byte CHR '','' xff of
           Some i \<Rightarrow> trim_space (take i xff)
         | None \<Rightarrow> trim_space xff)
      else
        case index_byte CHR '':'' (RemoteAddr r) of
          Some i \<Rightarrow> take i (RemoteAddr r)
        | None \<Rightarrow> RemoteAddr r)"

definition access_level :: "int \<Rightarrow> level" where
  "access_level st = (if 500 \<le> st then LevelError else if 400 \<le> st then LevelWarn else LevelInfo)"

definition AccessLog :: "serve_env \<Rightarrow> middleware" where
  "AccessLog env next r t =
     (if Path r = ''/healthz'' \<or> Path r = ''/readyz'' then next r t
      else
        let res = next r t;
            (rec, es) = through statusRecorder_call statusRecorder (hev res);
            r' = r\<lparr>Pattern := hpat res\<rparr>;
            line = L (CtxAttrs r) (access_level (status rec)) ''http request''
              [(''method'', AStr (Method r)), (''route'', AStr (routePattern r')),
               (''status'', AInt (status rec)), (''duration_ms'', AMillis (elapsed env)),
               (''bytes'', AInt (written rec)), (''remote_addr'', AStr (clientIP r)),
               (''user_agent'', AStr (Header r ''User-Agent''))]
        in res\<lparr>hev := es @ (if hpanic res = None then [line] else [])\<rparr>)"

subsection \<open>httpapi/middleware.go\<close>

fun chain_from :: "nat \<Rightarrow> http_handler \<Rightarrow> middleware list \<Rightarrow> http_handler" where
  "chain_from 0 h mw = h"
| "chain_from (Suc i) h mw = chain_from i ((mw ! i) h) mw"

definition chain :: "http_handler \<Rightarrow> middleware list \<Rightarrow> http_handler" where
  "chain h mw = chain_from (length mw) h mw"

fun aborts :: "pval \<Rightarrow> bool" where
  "aborts (PErr e) = errors_is e ErrAbortHandler"
| "aborts (PVal m) = False"

fun panic_attr :: "pval \<Rightarrow> attr_val" where
  "panic_attr (PErr e) = AErr e"
| "panic_attr (PVal m) = AStr m"

definition Recover :: "serve_env \<Rightarrow> (request \<Rightarrow> event list) \<Rightarrow> middleware" where
  "Recover env onPanic next r t =
     (let res = next r t; r' = r\<lparr>Pattern := hpat res\<rparr> in
      case hpanic res of
        None \<Rightarrow> res
      | Some rec \<Rightarrow>
          if aborts rec then res
          else
            res\<lparr>hev := hev res @ onPanic r' @
                  [L (CtxAttrs r) LevelError ''handler panic''
                     [(''panic'', panic_attr rec), (''method'', AStr (Method r)),
                      (''pattern'', AStr (Pattern r')), (''stack'', AStack)]] @
                  writeError env (CtxAttrs r) 500 codeInternal ''internal error'' [],
                hpanic := None\<rparr>)"

subsection \<open>tracing/http.go\<close>

definition scheme :: "request \<Rightarrow> string" where
  "scheme r =
     (if TLS r then ''https''
      else let v = Header r ''X-Forwarded-Proto'' in if v \<noteq> [] then v else ''http'')"

text \<open>\<open>http.StatusText\<close> of the codes from 500 on.\<close>

definition StatusText :: "int \<Rightarrow> string" where
  "StatusText c =
     (case map_of
        [(500, ''Internal Server Error''), (501, ''Not Implemented''), (502, ''Bad Gateway''),
         (503, ''Service Unavailable''), (504, ''Gateway Timeout''), (505, ''HTTP Version Not Supported''),
         (506, ''Variant Also Negotiates''), (507, ''Insufficient Storage''), (508, ''Loop Detected''),
         (510, ''Not Extended''), (511, ''Network Authentication Required'')] c
      of Some s \<Rightarrow> s | None \<Rightarrow> [])"

definition tracing_Middleware :: "serve_env \<Rightarrow> middleware" where
  "tracing_Middleware env next r t =
     (if Path r = ''/healthz'' \<or> Path r = ''/readyz'' then next r t
      else
        let start = E (SpanStart 0 None (Method r)
              [(''http.request.method'', AStr (Method r)), (''url.path'', AStr (Path r)),
               (''url.scheme'', AStr (scheme r)), (''user_agent.original'', AStr (Header r ''User-Agent'')),
               (''server.address'', AStr (Host r))]);
            (ctx, hdr) =
              (case span_sc env of
                 Some sc \<Rightarrow>
                   (WithAttrs (CtxAttrs r) [(''trace_id'', AStr (TraceID sc)), (''span_id'', AStr (SpanID sc))],
                    [W (SetHeader ''X-Trace-Id'' (TraceID sc))])
               | None \<Rightarrow> (CtxAttrs r, []));
            inner = r\<lparr>CtxAttrs := ctx, CtxSpan := span_sc env\<rparr>;
            res = next inner t;
            (rec, es) = through traceRecorder_call traceRecorder (hev res);
            r' = r\<lparr>Pattern := hpat res\<rparr>;
            route = routeTemplate r';
            ending =
              [E (SpanName 0 (Method r @ '' '' @ route)),
               E (SpanAttrs 0 [(''http.route'', AStr route), (''http.response.status_code'', AInt (tstatus rec))]),
               E (if 500 \<le> tstatus rec then SpanStatus 0 CodeError (StatusText (tstatus rec))
                  else SpanStatus 0 CodeOk [])]
        in res\<lparr>hev := [start] @ hdr @ es @ (if hpanic res = None then ending else []) @ [E (SpanEnd 0)],
               hpat := (if hpanic res = None then hpat res else Pattern r)\<rparr>)"

definition truncate_value :: "string \<Rightarrow> string" where
  "truncate_value v =
     (let s = trim_space (takeWhile (\<lambda>c. c \<noteq> CHR 0x0A) v)
      in if length s > 256 then take 256 s @ bytes [226, 128, 166] else s)"

text \<open>A context without a span gives the no-op span, which does not record.\<close>

definition tracing_RecordPanic :: "serve_env \<Rightarrow> request \<Rightarrow> string \<Rightarrow> event list" where
  "tracing_RecordPanic env r v =
     (if CtxSpan r = None \<or> \<not> recording env then []
      else [E (SpanEvent 0 ''panic'' [(''panic.value'', AStr (truncate_value v))]),
            E (SpanStatus 0 CodeError ''handler panic'')])"

subsection \<open>The chain of cmd/api/main.go\<close>

definition onPanic :: "serve_env \<Rightarrow> request \<Rightarrow> event list" where
  "onPanic env r = http_RecordPanic r @ tracing_RecordPanic env r ''handler panic''"

definition stack :: "serve_env \<Rightarrow> http_handler \<Rightarrow> http_handler" where
  "stack env h =
     chain h
       [tracing_Middleware env, http_Middleware env, RequestID env, AccessLog env, Recover env (onPanic env)]"

subsection \<open>Observing a response\<close>

definition plain :: "wcall list \<Rightarrow> bool" where
  "plain cs \<longleftrightarrow> (\<forall>c. WriteHeader c \<in> set cs \<longrightarrow> 200 \<le> c)"

fun first_status :: "wcall list \<Rightarrow> int option" where
  "first_status [] = None"
| "first_status (SetHeader k v # cs) = first_status cs"
| "first_status (WriteHeader c # cs) = Some c"
| "first_status (Write b n e # cs) = Some 200"

fun effects :: "event list \<Rightarrow> effect list" where
  "effects [] = []"
| "effects (E e # es) = e # effects es"
| "effects (_ # es) = effects es"

fun log_events :: "event list \<Rightarrow> event list" where
  "log_events [] = []"
| "log_events (L ctx l m as # es) = L ctx l m as # log_events es"
| "log_events (_ # es) = log_events es"

definition probe :: "request \<Rightarrow> bool" where
  "probe r \<longleftrightarrow> Path r = ''/healthz'' \<or> Path r = ''/readyz''"

definition request_id :: "serve_env \<Rightarrow> request \<Rightarrow> string" where
  "request_id env r =
     (case SanitizeRequestID (Header r RequestIDHeader) of
        (v, ok) \<Rightarrow> if \<not> ok then NewRequestID (rand_bytes env) else v)"

definition traced_request :: "serve_env \<Rightarrow> request \<Rightarrow> request" where
  "traced_request env r =
     (if probe r then r
      else r\<lparr>CtxAttrs := (case span_sc env of
               Some sc \<Rightarrow> WithAttrs (CtxAttrs r) [(''trace_id'', AStr (TraceID sc)), (''span_id'', AStr (SpanID sc))]
             | None \<Rightarrow> CtxAttrs r),
             CtxSpan := span_sc env\<rparr>)"

definition inner_request :: "serve_env \<Rightarrow> request \<Rightarrow> request" where
  "inner_request env r =
     (let q = traced_request env r in q\<lparr>CtxAttrs := WithRequestID (CtxAttrs q) (request_id env r)\<rparr>)"

definition recovered :: "serve_env \<Rightarrow> http_handler \<Rightarrow> request \<Rightarrow> table \<Rightarrow> hres" where
  "recovered env h r t = Recover env (onPanic env) h (inner_request env r) t"

definition access_line :: "serve_env \<Rightarrow> request \<Rightarrow> string \<Rightarrow> int \<Rightarrow> int \<Rightarrow> event" where
  "access_line env r pat c n =
     L (CtxAttrs r) (access_level c) ''http request''
       [(''method'', AStr (Method r)), (''route'', AStr (routePattern (r\<lparr>Pattern := pat\<rparr>))),
        (''status'', AInt c), (''duration_ms'', AMillis (elapsed env)), (''bytes'', AInt n),
        (''remote_addr'', AStr (clientIP r)), (''user_agent'', AStr (Header r ''User-Agent''))]"

definition red_calls :: "serve_env \<Rightarrow> request \<Rightarrow> string \<Rightarrow> int \<Rightarrow> int \<Rightarrow> effect list" where
  "red_calls env r pat c n =
     (let route = routeLabel (r\<lparr>Pattern := pat\<rparr>) in
      [Metric (Inc requests [route, Method r, itoa c, statusClass c]),
       Metric (observeExemplar (CtxSpan r) http_duration [route, Method r, statusClass c] (VSeconds (elapsed env))),
       Metric (observeExemplar (CtxSpan r) respSize [route, Method r] (VNum n))])"

definition span_ending :: "request \<Rightarrow> string \<Rightarrow> int \<Rightarrow> effect list" where
  "span_ending r pat c =
     (let route = routeTemplate (r\<lparr>Pattern := pat\<rparr>) in
      [SpanName 0 (Method r @ '' '' @ route),
       SpanAttrs 0 [(''http.route'', AStr route), (''http.response.status_code'', AInt c)],
       if 500 \<le> c then SpanStatus 0 CodeError (StatusText c) else SpanStatus 0 CodeOk []])"

text \<open>What one layer of middleware does to the response: it adds headers at most.\<close>

definition same_response :: "hres \<Rightarrow> hres \<Rightarrow> bool" where
  "same_response q p \<longleftrightarrow> hpanic p = hpanic q \<and> htab p = htab q \<and>
     plain (wcalls (hev p)) \<and> client_status (wcalls (hev p)) = client_status (wcalls (hev q))"

fun gauge_delta :: "mdesc \<Rightarrow> effect \<Rightarrow> int" where
  "gauge_delta d (Metric (GaugeInc d')) = of_bool (d = d')"
| "gauge_delta d (Metric (GaugeDec d')) = - of_bool (d = d')"
| "gauge_delta d _ = 0"

definition gauge_net :: "mdesc \<Rightarrow> effect list \<Rightarrow> int" where
  "gauge_net d es = sum_list (map (gauge_delta d) es)"

subsection \<open>A concrete request\<close>

definition sample_serve_env :: serve_env where
  "sample_serve_env =
     \<lparr>write_res = (\<lambda>b. (0, None)), span_sc = Some \<lparr>TraceID = ''t1'', SpanID = ''s1'', IsSampled = True\<rparr>,
      recording = True, rand_bytes = Some (replicate 16 171), elapsed = 2500000\<rparr>"

definition sample_request :: request where
  "sample_request =
     \<lparr>Method = ''PURGE'', Path = ''/x'', RawQuery = [], Query = [],
      Header = (\<lambda>k. if k = ''X-Request-Id'' then ''req-7'' else []), RemoteAddr = ''10.0.0.1:4242'', Host = ''shop'',
      TLS = False, Pattern = [], CtxAttrs = [], CtxSpan = None\<rparr>"

definition half_written :: http_handler where
  "half_written r t =
     \<lparr>hev = [W (WriteHeader 200)], hpanic = Some (PVal ''boom''), hpat = ''GET /orders/{id}'', htab = t\<rparr>"

section \<open>Lemmas\<close>

lemma wcalls_append [simp]: "wcalls (xs @ ys) = wcalls xs @ wcalls ys"
  by (induction xs rule: wcalls.induct) auto
lemma effects_append [simp]: "effects (xs @ ys) = effects xs @ effects ys"
  by (induction xs rule: effects.induct) auto
lemma log_events_append [simp]: "log_events (xs @ ys) = log_events xs @ log_events ys"
  by (induction xs rule: log_events.induct) auto
lemma map_E [simp]: "wcalls (map E cs) = []" "effects (map E cs) = cs" "log_events (map E cs) = []"
  by (induction cs) auto
lemma map_W [simp]: "wcalls (map W cs) = cs" "effects (map W cs) = []" "log_events (map W cs) = []"
  by (induction cs) auto

lemma plain_simps [simp]:
  "plain []" "plain (SetHeader k v # cs) = plain cs" "plain (Write b n e # cs) = plain cs"
  "plain (WriteHeader c # cs) \<longleftrightarrow> 200 \<le> c \<and> plain cs" "plain (cs @ ds) \<longleftrightarrow> plain cs \<and> plain ds"
  by (auto simp: plain_def)

lemma first_status_append [simp]:
  "first_status (cs @ ds) = (case first_status cs of None \<Rightarrow> first_status ds | Some c \<Rightarrow> Some c)"
  by (induction cs rule: first_status.induct) auto

lemma base_header_code: "200 \<le> c \<Longrightarrow> code (base_header c w) = (case code w of None \<Rightarrow> Some c | Some d \<Rightarrow> Some d)"
  by (auto simp: base_header_def split: option.split)

lemma fold_base_code:
  "plain cs \<Longrightarrow> code (fold base_call cs w) = (case code w of None \<Rightarrow> first_status cs | Some d \<Rightarrow> Some d)"
proof (induction cs arbitrary: w)
  case (Cons c cs)
  then show ?case by (cases c) (auto simp: base_header_code Let_def split: option.splits)
qed (simp split: option.split)

lemma client_status_first:
  "plain cs \<Longrightarrow> client_status cs = (case first_status cs of None \<Rightarrow> 200 | Some c \<Rightarrow> c)"
  by (auto simp: client_status_def client_def base_header_code fold_base_code new_response_def split: option.split)

locale status_recorder =
  fixes init :: 'r
    and call :: "wcall \<Rightarrow> 'r \<Rightarrow> 'r \<times> wcall list"
    and seen_code :: "'r \<Rightarrow> int"
    and wrote :: "'r \<Rightarrow> bool"
  assumes init_code: "seen_code init = 200" and init_wrote: "\<not> wrote init"
    and set_header: "call (SetHeader k v) r = (r, [SetHeader k v])"
    and header_first: "\<not> wrote r \<Longrightarrow> \<exists>r'. call (WriteHeader c) r = (r', [WriteHeader c]) \<and> seen_code r' = c \<and> wrote r'"
    and header_again: "wrote r \<Longrightarrow> call (WriteHeader c) r = (r, [])"
    and body_write: "\<exists>r'. call (Write b n e) r = (r', (if wrote r then [] else [WriteHeader 200]) @ [Write b n e]) \<and>
      seen_code r' = (if wrote r then seen_code r else 200) \<and> wrote r'"
begin

lemma through_others:
  "effects (snd (through call r es)) = effects es" "log_events (snd (through call r es)) = log_events es"
  by (induction call r es rule: through.induct) (auto split: prod.splits)

lemma through_base:
  assumes "plain (wcalls es)" "wrote r \<longleftrightarrow> code w \<noteq> None"
  shows "fold base_call (wcalls (snd (through call r es))) w = fold base_call (wcalls es) w \<and>
    plain (wcalls (snd (through call r es))) \<and>
    seen_code (fst (through call r es)) =
      (if wrote r then seen_code r else case first_status (wcalls es) of None \<Rightarrow> seen_code r | Some c \<Rightarrow> c) \<and>
    first_status (wcalls (snd (through call r es))) =
      (if wrote r then first_status (wcalls (snd (through call r es))) else first_status (wcalls es))"
  using assms
proof (induction es arbitrary: r w)
  case (Cons ev es)
  show ?case
  proof (cases ev)
    case (W c)
    show ?thesis
    proof (cases c)
      case (SetHeader k v)
      then show ?thesis using Cons.IH [of r "base_call c w"] Cons.prems W
        by (auto simp: set_header split: prod.splits)
    next
      case (WriteHeader cd)
      show ?thesis
      proof (cases "wrote r")
        case True
        then have "base_header cd w = w" using Cons.prems by (simp add: base_header_def)
        then show ?thesis using Cons.IH [of r w] Cons.prems W WriteHeader True
          by (auto simp: header_again split: prod.splits)
      next
        case False
        obtain r' where r': "call (WriteHeader cd) r = (r', [WriteHeader cd])" "seen_code r' = cd" "wrote r'"
          using header_first [OF False] by blast
        have "code (base_header cd w) \<noteq> None" using Cons.prems W WriteHeader by (auto simp: base_header_code split: option.split)
        then show ?thesis using Cons.IH [of r' "base_header cd w"] Cons.prems W WriteHeader False r'
          by (auto split: prod.splits)
      qed
    next
      case (Write b n e)
      obtain r' where r': "call (Write b n e) r = (r', (if wrote r then [] else [WriteHeader 200]) @ [Write b n e])"
        "seen_code r' = (if wrote r then seen_code r else 200)" "wrote r'"
        using body_write by blast
      have 1: "code (base_call (Write b n e) w) \<noteq> None" by (auto simp: base_header_code Let_def split: option.split)
      have 2: "base_header 200 (base_header 200 w) = base_header 200 w" by (simp add: base_header_def)
      show ?thesis using Cons.IH [of r' "base_call (Write b n e) w"] Cons.prems W Write r' 1 2
        by (auto simp: Let_def split: prod.splits)
    qed
  next
    case (E x)
    then show ?thesis using Cons.IH [of r w] Cons.prems by (auto split: prod.splits)
  next
    case (L ctx l m as)
    then show ?thesis using Cons.IH [of r w] Cons.prems by (auto split: prod.splits)
  qed
qed simp

lemma observes:
  assumes "plain (wcalls es)"
  shows "seen_code (fst (through call init es)) = client_status (wcalls es)"
    "client (wcalls (snd (through call init es))) = client (wcalls es)"
    "plain (wcalls (snd (through call init es)))"
    "client_status (wcalls (snd (through call init es))) = client_status (wcalls es)"
proof -
  have "wrote init \<longleftrightarrow> code new_response \<noteq> None" by (simp add: init_wrote new_response_def)
  note * = through_base [OF assms this]
  show "seen_code (fst (through call init es)) = client_status (wcalls es)"
    using * by (simp add: client_status_first [OF assms] init_code init_wrote split: option.split)
  show "client (wcalls (snd (through call init es))) = client (wcalls es)" "plain (wcalls (snd (through call init es)))"
    "client_status (wcalls (snd (through call init es))) = client_status (wcalls es)"
    using * by (simp_all add: client_def client_status_def)
qed

end

interpretation metrics_rec: status_recorder responseRecorder responseRecorder_call status wroteHeader
  by unfold_locales (auto simp: responseRecorder_def responseRecorder_WriteHeader_def StatusOK_def Let_def)

interpretation access_rec: status_recorder statusRecorder statusRecorder_call status wroteHeader
  by unfold_locales (auto simp: statusRecorder_def statusRecorder_WriteHeader_def StatusOK_def Let_def)

interpretation trace_rec: status_recorder traceRecorder traceRecorder_call tstatus twrote
  by unfold_locales (auto simp: traceRecorder_def traceRecorder_WriteHeader_def StatusOK_def Let_def)

lemma stack_eq:
  "stack env h = tracing_Middleware env (http_Middleware env (RequestID env (AccessLog env (Recover env (onPanic env) h))))"
  by (simp add: stack_def chain_def numeral_eq_Suc)

lemma client_SetHeader: "client_status (SetHeader k v # cs) = client_status cs" if "plain cs"
  using that by (simp add: client_status_first)

lemma through_append_others [simp]:
  "wcalls [E e] = []" "wcalls [L ctx l m as] = []" "wcalls (E e # es) = wcalls es"
  by simp_all

lemma AccessLog_layer:
  assumes "\<not> probe r" "plain (wcalls (hev (next r t)))"
  shows "same_response (next r t) (AccessLog env next r t) \<and>
    hpat (AccessLog env next r t) = hpat (next r t) \<and>
    effects (hev (AccessLog env next r t)) = effects (hev (next r t)) \<and>
    (\<exists>n. log_events (hev (AccessLog env next r t)) = log_events (hev (next r t)) @
      (if hpanic (next r t) = None
       then [access_line env r (hpat (next r t)) (client_status (wcalls (hev (next r t)))) n] else []))"
proof -
  note o = access_rec.observes [OF assms(2)]
  have "AccessLog env next r t = (next r t)\<lparr>hev := snd (through statusRecorder_call statusRecorder (hev (next r t))) @
      (if hpanic (next r t) = None
       then [access_line env r (hpat (next r t)) (client_status (wcalls (hev (next r t))))
         (written (fst (through statusRecorder_call statusRecorder (hev (next r t)))))] else [])\<rparr>"
    using assms(1) by (simp add: AccessLog_def probe_def Let_def split_beta access_line_def o)
  then show ?thesis using o
    by (auto simp: same_response_def access_rec.through_others access_line_def)
qed

lemma http_layer:
  assumes "\<not> probe r" "plain (wcalls (hev (next r t)))"
  shows "same_response (next r t) (http_Middleware env next r t) \<and>
    hpat (http_Middleware env next r t) = hpat (next r t) \<and>
    log_events (hev (http_Middleware env next r t)) = log_events (hev (next r t)) \<and>
    (\<exists>n. effects (hev (http_Middleware env next r t)) = [Metric (GaugeInc inFlight)] @ effects (hev (next r t)) @
      (if hpanic (next r t) = None
       then red_calls env r (hpat (next r t)) (client_status (wcalls (hev (next r t)))) n else []) @
      [Metric (GaugeDec inFlight)])"
proof -
  note o = metrics_rec.observes [OF assms(2)]
  let ?w = "through responseRecorder_call responseRecorder (hev (next r t))"
  have "http_Middleware env next r t = (next r t)\<lparr>hev := [E (Metric (GaugeInc inFlight))] @ snd ?w @
      map E (if hpanic (next r t) = None
        then red_calls env r (hpat (next r t)) (client_status (wcalls (hev (next r t)))) (written (fst ?w)) else []) @
      [E (Metric (GaugeDec inFlight))]\<rparr>"
    using assms(1) by (simp add: http_Middleware_def probe_def http_skip_def Let_def split_beta red_calls_def o)
  then show ?thesis using o
    by (auto simp: same_response_def metrics_rec.through_others)
qed

lemma RequestID_layer:
  assumes "plain (wcalls (hev (next (r\<lparr>CtxAttrs := WithRequestID (CtxAttrs r) (request_id env r)\<rparr>) t)))"
  defines "q \<equiv> next (r\<lparr>CtxAttrs := WithRequestID (CtxAttrs r) (request_id env r)\<rparr>) t"
  shows "same_response q (RequestID env next r t) \<and>
    hpat (RequestID env next r t) = (if hpanic q = None then hpat q else Pattern r) \<and>
    effects (hev (RequestID env next r t)) = effects (hev q) \<and>
    log_events (hev (RequestID env next r t)) = log_events (hev q)"
  using assms(1)
  by (auto simp: RequestID_def q_def request_id_def Let_def split_beta same_response_def client_SetHeader)

lemma tracing_layer:
  assumes "\<not> probe r" "plain (wcalls (hev (next (traced_request env r) t)))"
  defines "q \<equiv> next (traced_request env r) t"
  shows "same_response q (tracing_Middleware env next r t) \<and>
    log_events (hev (tracing_Middleware env next r t)) = log_events (hev q) \<and>
    (\<exists>start. (\<forall>s k m. start \<noteq> SpanStatus s k m) \<and> (\<forall>c. start \<noteq> Metric c) \<and>
      effects (hev (tracing_Middleware env next r t)) = [start] @ effects (hev q) @
      (if hpanic q = None then span_ending r (hpat q) (client_status (wcalls (hev q))) else []) @ [SpanEnd 0])"
proof -
  have pl: "plain (wcalls (hev q))" using assms(2) by (simp add: q_def)
  note o = trace_rec.observes [OF pl]
  let ?w = "through traceRecorder_call traceRecorder (hev q)"
  let ?start = "SpanStart 0 None (Method r)
              [(''http.request.method'', AStr (Method r)), (''url.path'', AStr (Path r)),
               (''url.scheme'', AStr (scheme r)), (''user_agent.original'', AStr (Header r ''User-Agent'')),
               (''server.address'', AStr (Host r))]"
  let ?hdr = "case span_sc env of Some sc \<Rightarrow> [W (SetHeader ''X-Trace-Id'' (TraceID sc))] | None \<Rightarrow> []"
  have q: "next (r\<lparr>CtxAttrs := (case span_sc env of
               Some sc \<Rightarrow> WithAttrs (CtxAttrs r) [(''trace_id'', AStr (TraceID sc)), (''span_id'', AStr (SpanID sc))]
             | None \<Rightarrow> CtxAttrs r), CtxSpan := span_sc env\<rparr>) t = q"
    using assms(1) by (simp add: q_def traced_request_def)
  have "tracing_Middleware env next r t = q\<lparr>hev := [E ?start] @ ?hdr @ snd ?w @
      map E (if hpanic q = None then span_ending r (hpat q) (client_status (wcalls (hev q))) else []) @ [E (SpanEnd 0)],
      hpat := (if hpanic q = None then hpat q else Pattern r)\<rparr>"
    using assms(1) q o(1)
    by (cases "span_sc env") (simp_all add: tracing_Middleware_def probe_def Let_def split_beta span_ending_def)
  then show ?thesis using o
    by (cases "span_sc env") (auto simp: same_response_def trace_rec.through_others client_SetHeader 
        intro!: exI [of _ ?start])
qed

lemma inner_fields [simp]:
  "Method (inner_request env r) = Method r" "Path (inner_request env r) = Path r"
  "Header (inner_request env r) = Header r" "RemoteAddr (inner_request env r) = RemoteAddr r"
  "Pattern (inner_request env r) = Pattern r"
  "Method (traced_request env r) = Method r" "Path (traced_request env r) = Path r"
  "Header (traced_request env r) = Header r" "Pattern (traced_request env r) = Pattern r"
  by (simp_all add: inner_request_def traced_request_def Let_def)

lemma inner_clientIP [simp]: "clientIP (inner_request env r) = clientIP r"
  by (simp only: clientIP_def inner_fields)

lemma routes_agree: "routePattern r = routeLabel r" "routeTemplate r = routeLabel r"
  by (simp_all only: routePattern_def routeTemplate_def routeLabel_def routeUnmatched_def)

lemma routeLabel_Pattern: "routeLabel (r\<lparr>Pattern := p\<rparr>) = routeLabel (r'\<lparr>Pattern := p\<rparr>)"
  by (simp add: routeLabel_def Let_def split: option.split)

lemma traced_request_id: "request_id env (traced_request env r) = request_id env r"
  by (simp add: request_id_def)

lemma inner_traced:
  "(traced_request env r)\<lparr>CtxAttrs := WithRequestID (CtxAttrs (traced_request env r)) (request_id env r)\<rparr> =
     inner_request env r"
  by (simp add: inner_request_def Let_def)

lemma probe_inner [simp]: "probe (inner_request env r) = probe r" "probe (traced_request env r) = probe r"
  by (simp_all add: probe_def)

lemma stack_spec:
  assumes np: "\<not> probe r" and pl: "plain (wcalls (hev (recovered env h r t)))"
  defines "q \<equiv> recovered env h r t"
  shows "same_response q (stack env h r t) \<and>
    (\<exists>n. log_events (hev (stack env h r t)) = log_events (hev q) @
      (if hpanic q = None
       then [access_line env (inner_request env r) (hpat q) (client_status (wcalls (hev q))) n] else [])) \<and>
    (\<exists>start n. (\<forall>s k m. start \<noteq> SpanStatus s k m) \<and> (\<forall>c. start \<noteq> Metric c) \<and>
      effects (hev (stack env h r t)) = [start, Metric (GaugeInc inFlight)] @ effects (hev q) @
        (if hpanic q = None then red_calls env (traced_request env r) (hpat q) (client_status (wcalls (hev q))) n else []) @
        [Metric (GaugeDec inFlight)] @
        (if hpanic q = None then span_ending r (hpat q) (client_status (wcalls (hev q))) else []) @ [SpanEnd 0])"
proof -
  let ?i = "inner_request env r" and ?tr = "traced_request env r"
  let ?rc = "Recover env (onPanic env) h"
  have q: "?rc ?i t = q" by (simp add: q_def recovered_def)
  have A: "same_response q (AccessLog env ?rc ?i t) \<and> hpat (AccessLog env ?rc ?i t) = hpat q \<and>
    effects (hev (AccessLog env ?rc ?i t)) = effects (hev q) \<and>
    (\<exists>n. log_events (hev (AccessLog env ?rc ?i t)) = log_events (hev q) @
      (if hpanic q = None then [access_line env ?i (hpat q) (client_status (wcalls (hev q))) n] else []))"
    using AccessLog_layer [of ?i ?rc t env, unfolded q] np pl by (simp only: q_def probe_inner simp_thms)
  let ?al = "AccessLog env ?rc"
  have R: "same_response (?al ?i t) (RequestID env ?al ?tr t) \<and>
    hpat (RequestID env ?al ?tr t) = (if hpanic (?al ?i t) = None then hpat (?al ?i t) else Pattern ?tr) \<and>
    effects (hev (RequestID env ?al ?tr t)) = effects (hev (?al ?i t)) \<and>
    log_events (hev (RequestID env ?al ?tr t)) = log_events (hev (?al ?i t))"
    using RequestID_layer [of ?al ?tr env t] A by (simp add: traced_request_id inner_traced same_response_def)
  let ?ri = "RequestID env ?al"
  have H: "same_response (?ri ?tr t) (http_Middleware env ?ri ?tr t) \<and>
    hpat (http_Middleware env ?ri ?tr t) = hpat (?ri ?tr t) \<and>
    log_events (hev (http_Middleware env ?ri ?tr t)) = log_events (hev (?ri ?tr t)) \<and>
    (\<exists>n. effects (hev (http_Middleware env ?ri ?tr t)) = [Metric (GaugeInc inFlight)] @ effects (hev (?ri ?tr t)) @
      (if hpanic (?ri ?tr t) = None
       then red_calls env ?tr (hpat (?ri ?tr t)) (client_status (wcalls (hev (?ri ?tr t)))) n else []) @
      [Metric (GaugeDec inFlight)])"
    using http_layer [of ?tr ?ri t env] np R by (simp add: same_response_def)
  let ?hm = "http_Middleware env ?ri"
  have T: "same_response (?hm ?tr t) (stack env h r t) \<and>
    log_events (hev (stack env h r t)) = log_events (hev (?hm ?tr t)) \<and>
    (\<exists>start. (\<forall>s k m. start \<noteq> SpanStatus s k m) \<and> (\<forall>c. start \<noteq> Metric c) \<and>
      effects (hev (stack env h r t)) = [start] @ effects (hev (?hm ?tr t)) @
      (if hpanic (?hm ?tr t) = None
       then span_ending r (hpat (?hm ?tr t)) (client_status (wcalls (hev (?hm ?tr t)))) else []) @ [SpanEnd 0])"
    unfolding stack_eq using tracing_layer [of r ?hm env t] np H by (simp add: same_response_def)
  have sr: "same_response q (stack env h r t)" using A R H T by (simp add: same_response_def)
  have lg: "log_events (hev (stack env h r t)) = log_events (hev (?al ?i t))" using R H T by simp
  obtain start where st: "\<forall>s k m. start \<noteq> SpanStatus s k m" "\<forall>c. start \<noteq> Metric c"
    "effects (hev (stack env h r t)) = [start] @ effects (hev (?hm ?tr t)) @
      (if hpanic (?hm ?tr t) = None
       then span_ending r (hpat (?hm ?tr t)) (client_status (wcalls (hev (?hm ?tr t)))) else []) @ [SpanEnd 0]"
    using T by blast
  obtain n where n: "effects (hev (?hm ?tr t)) = [Metric (GaugeInc inFlight)] @ effects (hev (?ri ?tr t)) @
      (if hpanic (?ri ?tr t) = None
       then red_calls env ?tr (hpat (?ri ?tr t)) (client_status (wcalls (hev (?ri ?tr t)))) n else []) @
      [Metric (GaugeDec inFlight)]"
    using H by blast
  have pan: "hpanic (?al ?i t) = hpanic q" "hpanic (?ri ?tr t) = hpanic q" "hpanic (?hm ?tr t) = hpanic q"
    "client_status (wcalls (hev (?ri ?tr t))) = client_status (wcalls (hev q))"
    "client_status (wcalls (hev (?hm ?tr t))) = client_status (wcalls (hev q))"
    "hpanic q = None \<Longrightarrow> hpat (?ri ?tr t) = hpat q" "hpanic q = None \<Longrightarrow> hpat (?hm ?tr t) = hpat q"
    "effects (hev (?ri ?tr t)) = effects (hev q)"
    using A R H by (auto simp: same_response_def)
  have "effects (hev (stack env h r t)) = [start, Metric (GaugeInc inFlight)] @ effects (hev q) @
        (if hpanic q = None then red_calls env ?tr (hpat q) (client_status (wcalls (hev q))) n else []) @
        [Metric (GaugeDec inFlight)] @
        (if hpanic q = None then span_ending r (hpat q) (client_status (wcalls (hev q))) else []) @ [SpanEnd 0]"
    unfolding st(3) n pan(2-5,8) using pan(6,7) by simp
  then show ?thesis using sr lg A st(1,2) by auto
qed


lemma gauge_net_simps [simp]:
  "gauge_net d [] = 0" "gauge_net d (e # es) = gauge_delta d e + gauge_net d es"
  "gauge_net d (es @ fs) = gauge_net d es + gauge_net d fs"
  by (simp_all add: gauge_net_def)

lemma http_desc_distinct [simp]:
  "requests \<noteq> http_duration" "requests \<noteq> respSize" "requests \<noteq> panics" "panics \<noteq> requests"
  "panics \<noteq> http_duration" "panics \<noteq> respSize" "http_duration \<noteq> requests" "respSize \<noteq> requests"
  "inFlight \<noteq> requests" "inFlight \<noteq> panics" "http_duration \<noteq> panics" "respSize \<noteq> panics"
  by (simp_all add: requests_def http_duration_def respSize_def panics_def inFlight_def)

lemma writeJSON_sel [simp]:
  "wcalls (writeJSON env ctx st (Some b)) =
     [SetHeader ''Content-Type'' ''application/json; charset=utf-8'', WriteHeader st,
      Write b (fst (write_res env b)) (snd (write_res env b))]"
  "effects (writeJSON env ctx st v) = []"
  by (auto simp: writeJSON_def Let_def split: prod.split option.split)

lemma writeError_sel [simp]:
  "wcalls (writeError env ctx st cd m f) =
     [SetHeader ''Content-Type'' ''application/json; charset=utf-8'', WriteHeader st,
      Write (ErrorBody cd m f) (fst (write_res env (ErrorBody cd m f))) (snd (write_res env (ErrorBody cd m f)))]"
  "effects (writeError env ctx st cd m f) = []"
  by (simp_all add: writeError_def)

lemma onPanic_sel [simp]: "wcalls (onPanic env r) = []" "log_events (onPanic env r) = []"
  "ctr requests ls (effects (onPanic env r)) = 0"
  "ctr panics [route] (effects (onPanic env r)) = of_bool (route = routeLabel r)"
  "gauge_net inFlight (effects (onPanic env r)) = 0"
  by (auto simp: onPanic_def http_RecordPanic_def tracing_RecordPanic_def delta_Metric addExemplar_def split: option.split)

lemma Recover_panic:
  assumes "hpanic (h (inner_request env r) t) = Some p" "\<not> aborts p"
  defines "q \<equiv> h (inner_request env r) t"
  shows "hpanic (recovered env h r t) = None" "hpat (recovered env h r t) = hpat q"
    "effects (hev (recovered env h r t)) = effects (hev q) @ effects (onPanic env ((inner_request env r)\<lparr>Pattern := hpat q\<rparr>))"
    "wcalls (hev (recovered env h r t)) = wcalls (hev q) @
       wcalls (writeError env (CtxAttrs (inner_request env r)) 500 codeInternal ''internal error'' [])"
  using assms by (simp_all add: recovered_def Recover_def Let_def)

lemma Recover_other:
  assumes "case hpanic (h (inner_request env r) t) of None \<Rightarrow> True | Some p \<Rightarrow> aborts p"
  shows "recovered env h r t = h (inner_request env r) t"
  using assms by (auto simp: recovered_def Recover_def Let_def split: option.splits)

lemma recovered_plain:
  assumes "plain (wcalls (hev (h (inner_request env r) t)))"
  shows "plain (wcalls (hev (recovered env h r t)))"
  using assms by (auto simp: recovered_def Recover_def Let_def split: option.splits)

lemma red_calls_ctr [simp]:
  "ctr requests ls (red_calls env r pat c n) =
     of_bool (ls = [routeLabel (r\<lparr>Pattern := pat\<rparr>), Method r, itoa c, statusClass c])"
  "ctr panics ls (red_calls env r pat c n) = 0"
  "gauge_net inFlight (red_calls env r pat c n) = 0"
  by (auto simp: red_calls_def Let_def delta_Metric observeExemplar_def split: option.split)

lemma span_ending_ctr [simp]:
  "ctr d ls (span_ending r pat c) = 0" "gauge_net inFlight (span_ending r pat c) = 0"
  by (auto simp: span_ending_def Let_def)

lemma not_metric [simp]:
  "\<forall>c. start \<noteq> Metric c \<Longrightarrow> delta d ls start = 0" "\<forall>c. start \<noteq> Metric c \<Longrightarrow> gauge_delta d start = 0"
  by (cases start; simp)+

lemma gauge_calls [simp]:
  "delta d ls (Metric (GaugeInc g)) = 0" "delta d ls (Metric (GaugeDec g)) = 0"
  by (auto simp: delta_Metric)

subsection \<open>What the chain observes of a request\<close>

lemma stack_agree:
  assumes "\<not> probe r" "plain (wcalls (hev (h (inner_request env r) t)))"
    and "\<forall>p. hpanic (h (inner_request env r) t) = Some p \<longrightarrow> \<not> aborts p"
    and "q = h (inner_request env r) t" "out = stack env h r t"
    and "c = client_status (wcalls (hev out))" "route = routeLabel (r\<lparr>Pattern := hpat q\<rparr>)"
  shows "hpanic out = None \<and>
    (\<forall>ls. ctr requests ls (effects (hev out)) =
       ctr requests ls (effects (hev q)) + of_bool (ls = [route, Method r, itoa c, statusClass c])) \<and>
    (\<exists>logs n. log_events (hev out) = logs @
       [L (CtxAttrs (inner_request env r)) (access_level c) ''http request''
          [(''method'', AStr (Method r)), (''route'', AStr route), (''status'', AInt c),
           (''duration_ms'', AMillis (elapsed env)), (''bytes'', AInt n), (''remote_addr'', AStr (clientIP r)),
           (''user_agent'', AStr (Header r ''User-Agent''))]]) \<and>
    (\<exists>es. effects (hev out) = es @
       [SpanName 0 (Method r @ '' '' @ route),
        SpanAttrs 0 [(''http.route'', AStr route), (''http.response.status_code'', AInt c)],
        if 500 \<le> c then SpanStatus 0 CodeError (StatusText c) else SpanStatus 0 CodeOk [], SpanEnd 0])"
proof -
  let ?q = "recovered env h r t"
  have rec: "hpanic ?q = None \<and> hpat ?q = hpat q \<and> (\<forall>ls. ctr requests ls (effects (hev ?q)) = ctr requests ls (effects (hev q)))"
  proof (cases "hpanic q")
    case None
    then show ?thesis using Recover_other [of h env r t] by (simp add: assms(4))
  next
    case (Some p)
    then show ?thesis using Recover_panic [of h env r t p] assms(3) by (simp add: assms(4))
  qed
  note spec = stack_spec [OF assms(1) recovered_plain [of h env r t, OF assms(2)]]
  have c: "c = client_status (wcalls (hev ?q))" "hpanic out = None"
    using spec rec by (auto simp: assms(5,6) same_response_def)
  have rt: "routeLabel (x\<lparr>Pattern := hpat q\<rparr>) = route" for x unfolding assms(7) by (rule routeLabel_Pattern)
  obtain n where logs: "log_events (hev out) = log_events (hev ?q) @ [access_line env (inner_request env r) (hpat q) c n]"
    using spec rec by (auto simp: assms(5) c(1))
  obtain start n where eff: "\<forall>c. start \<noteq> Metric c"
    "effects (hev out) = [start, Metric (GaugeInc inFlight)] @ effects (hev ?q) @
        red_calls env (traced_request env r) (hpat q) c n @ [Metric (GaugeDec inFlight)] @ span_ending r (hpat q) c @ [SpanEnd 0]"
    using spec rec by (auto simp: assms(5) c(1))
  have "ctr requests ls (effects (hev out)) =
       ctr requests ls (effects (hev q)) + of_bool (ls = [route, Method r, itoa c, statusClass c])" for ls
    using eff(1) rec by (simp add: eff(2) rt)
  moreover have "\<exists>logs n. log_events (hev out) = logs @
       [L (CtxAttrs (inner_request env r)) (access_level c) ''http request''
          [(''method'', AStr (Method r)), (''route'', AStr route), (''status'', AInt c),
           (''duration_ms'', AMillis (elapsed env)), (''bytes'', AInt n), (''remote_addr'', AStr (clientIP r)),
           (''user_agent'', AStr (Header r ''User-Agent''))]]"
    unfolding logs access_line_def by (auto simp: routes_agree rt)
  moreover have "\<exists>es. effects (hev out) = es @
       [SpanName 0 (Method r @ '' '' @ route),
        SpanAttrs 0 [(''http.route'', AStr route), (''http.response.status_code'', AInt c)],
        if 500 \<le> c then SpanStatus 0 CodeError (StatusText c) else SpanStatus 0 CodeOk [], SpanEnd 0]"
    unfolding eff(2) span_ending_def Let_def routes_agree rt by auto
  ultimately show ?thesis using c(2) by blast
qed


section \<open>Properties\<close>

text \<open>
  (C10) Panics are contained and counted. When a handler panics (other than by aborting), the chain
  returns normally, the panic counter of the route goes up by one, and the client, the request
  counter and the span see status 500 if nothing had been written yet; if the handler had already
  written a status, they all see that status, and for one below 500 the span ends as \<open>Ok\<close>.
\<close>

theorem panic_observed:
  assumes "\<not> probe r" "plain (wcalls (hev (h (inner_request env r) t)))"
    and "hpanic (h (inner_request env r) t) = Some p" "\<not> aborts p"
    and "q = h (inner_request env r) t" "out = stack env h r t"
    and "c = (case first_status (wcalls (hev q)) of None \<Rightarrow> 500 | Some d \<Rightarrow> d)"
    and "route = routeLabel (r\<lparr>Pattern := hpat q\<rparr>)"
  shows "hpanic out = None \<and> client_status (wcalls (hev out)) = c \<and>
    ctr panics [route] (effects (hev out)) = ctr panics [route] (effects (hev q)) + 1 \<and>
    ctr requests [route, Method r, itoa c, statusClass c] (effects (hev out)) =
      ctr requests [route, Method r, itoa c, statusClass c] (effects (hev q)) + 1 \<and>
    (\<exists>es. effects (hev out) = es @
       [if 500 \<le> c then SpanStatus 0 CodeError (StatusText c) else SpanStatus 0 CodeOk [], SpanEnd 0])"
proof -
  let ?q = "recovered env h r t"
  note rp = Recover_panic [of h env r t p, OF assms(3,4)]
  have pl: "plain (wcalls (hev ?q))" by (rule recovered_plain [of h env r t, OF assms(2)])
  note spec = stack_spec [OF assms(1) pl]
  have c: "client_status (wcalls (hev ?q)) = c"
    using client_status_first [OF pl] by (simp add: rp assms(5,7) split: option.split)
  have rt: "routeLabel (x\<lparr>Pattern := hpat q\<rparr>) = route" for x unfolding assms(8) by (rule routeLabel_Pattern)
  obtain start n where eff: "\<forall>c. start \<noteq> Metric c"
    "effects (hev out) = [start, Metric (GaugeInc inFlight)] @ effects (hev ?q) @
        red_calls env (traced_request env r) (hpat q) c n @ [Metric (GaugeDec inFlight)] @ span_ending r (hpat q) c @ [SpanEnd 0]"
    using spec rp(1,2) by (auto simp: assms(5,6) c)
  have "ctr panics [route] (effects (hev out)) = ctr panics [route] (effects (hev q)) + 1"
    "ctr requests [route, Method r, itoa c, statusClass c] (effects (hev out)) =
      ctr requests [route, Method r, itoa c, statusClass c] (effects (hev q)) + 1"
    using eff(1) by (simp_all add: eff(2) rp assms(5) [symmetric] rt)
  moreover have "\<exists>es. effects (hev out) = es @
       [if 500 \<le> c then SpanStatus 0 CodeError (StatusText c) else SpanStatus 0 CodeOk [], SpanEnd 0]"
    unfolding eff(2) span_ending_def Let_def by auto
  moreover have "hpanic out = None" "client_status (wcalls (hev out)) = c"
    using spec rp(1) c by (auto simp: assms(6) same_response_def)
  ultimately show ?thesis by blast
qed

theorem panic_observed_witness:
  "client_status (wcalls (hev (stack sample_serve_env half_written sample_request []))) = 200 \<and>
   ctr panics [''/orders/{id}''] (effects (hev (stack sample_serve_env half_written sample_request []))) = 1 \<and>
   (\<exists>es. effects (hev (stack sample_serve_env half_written sample_request [])) = es @ [SpanStatus 0 CodeOk [], SpanEnd 0])"
proof -
  have "routeLabel (sample_request\<lparr>Pattern := ''GET /orders/{id}''\<rparr>) = ''/orders/{id}''" by (simp add: routeLabel_def)
  then show ?thesis
    using panic_observed [of sample_request half_written sample_serve_env "[]" "PVal ''boom''", OF _ _ _ _ refl refl refl refl]
    by (simp add: half_written_def probe_def sample_request_def)
qed

text \<open>
  (C21) Requests in flight. Whatever the handler does, aborting included, the in-flight gauge returns
  to where it was; a handler that aborts propagates its panic and leaves no request sample, no access
  log line and an ended span.
\<close>

theorem in_flight_balanced:
  assumes "\<not> probe r" "plain (wcalls (hev (h (inner_request env r) t)))"
    and "q = h (inner_request env r) t" "out = stack env h r t"
  shows "gauge_net inFlight (effects (hev out)) = gauge_net inFlight (effects (hev q)) \<and>
    (\<forall>p. hpanic q = Some p \<and> aborts p \<longrightarrow>
       hpanic out = Some p \<and> (\<forall>ls. ctr requests ls (effects (hev out)) = ctr requests ls (effects (hev q))) \<and>
       log_events (hev out) = log_events (hev q) \<and> last (effects (hev out)) = SpanEnd 0)"
proof -
  let ?q = "recovered env h r t"
  note spec = stack_spec [OF assms(1) recovered_plain [of h env r t, OF assms(2)]]
  obtain start n where eff: "\<forall>c. start \<noteq> Metric c"
    "effects (hev out) = [start, Metric (GaugeInc inFlight)] @ effects (hev ?q) @
        (if hpanic ?q = None then red_calls env (traced_request env r) (hpat ?q) (client_status (wcalls (hev ?q))) n else []) @
        [Metric (GaugeDec inFlight)] @
        (if hpanic ?q = None then span_ending r (hpat ?q) (client_status (wcalls (hev ?q))) else []) @ [SpanEnd 0]"
    using spec by (auto simp: assms(4))
  have rec: "gauge_net inFlight (effects (hev ?q)) = gauge_net inFlight (effects (hev q))"
    by (auto simp: recovered_def Recover_def Let_def assms(3) split: option.split)
  have ab: "?q = q" if "hpanic q = Some p" "aborts p" for p
    using Recover_other [of h env r t] that by (simp add: assms(3))
  have "gauge_net inFlight (effects (hev out)) = gauge_net inFlight (effects (hev q))"
    using eff(1) rec by (simp add: eff(2))
  moreover have "hpanic out = Some p \<and> (\<forall>ls. ctr requests ls (effects (hev out)) = ctr requests ls (effects (hev q))) \<and>
       log_events (hev out) = log_events (hev q) \<and> last (effects (hev out)) = SpanEnd 0"
    if p: "hpanic q = Some p" "aborts p" for p
    using spec eff(1) p by (auto simp: eff(2) ab [OF p] assms(4) same_response_def)
  ultimately show ?thesis by blast
qed

theorem in_flight_balanced_witness:
  "gauge_net inFlight (effects (hev (stack sample_serve_env half_written sample_request []))) = 0"
  using in_flight_balanced [of sample_request half_written sample_serve_env "[]", OF _ _ refl refl]
  by (simp add: half_written_def probe_def sample_request_def)

end
