(* ===== verification/Go_Numbers.thy ===== *)
theory Go_Numbers
  imports Complex_Main Prelude
begin

text \<open>
  Numbers of the Go library that several components use: rounding to \<open>float64\<close> (53-bit
  significand, ties to even; the values here are far from the ends of the exponent range, so there are
  no subnormal numbers and no overflow), \<open>float64\<close> values with their comparisons,
  \<open>strconv.ParseInt\<close> for 32 bits, \<open>time.ParseDuration\<close> and \<open>Duration.String\<close>. Rounding is shown
  never to cross an integer of at most 53 bits.
\<close>

section \<open>Definitions\<close>

subsection \<open>Rounding to float64\<close>

fun bit_len :: "nat \<Rightarrow> nat" where
  "bit_len n = (if n = 0 then 0 else Suc (bit_len (n div 2)))"

declare bit_len.simps [simp del]

definition pow2 :: "int \<Rightarrow> rat" where
  "pow2 k = (if 0 \<le> k then 2 ^ nat k else 1 / 2 ^ nat (- k))"

definition rat_exponent :: "rat \<Rightarrow> int" where
  "rat_exponent x =
     (let (a, b) = quotient_of x; e = int (bit_len (nat a)) - int (bit_len (nat b))
      in if x < pow2 e then e - 1 else e)"

definition round_even :: "rat \<Rightarrow> int" where
  "round_even y =
     (let f = \<lfloor>y\<rfloor>; d = y - of_int f in
      if d < 1 / 2 then f else if 1 / 2 < d then f + 1 else if even f then f else f + 1)"

definition f64_pos :: "rat \<Rightarrow> rat" where
  "f64_pos x = (let u = pow2 (rat_exponent x - 52) in of_int (round_even (x / u)) * u)"

definition f64 :: "rat \<Rightarrow> rat" where
  "f64 x = (if x = 0 then 0 else if x < 0 then - f64_pos (- x) else f64_pos x)"

definition trunc :: "rat \<Rightarrow> int" where
  "trunc x = (if x < 0 then \<lceil>x\<rceil> else \<lfloor>x\<rfloor>)"

text \<open>
  A \<open>float64\<close> as a program can receive it from a parser. Every comparison with a NaN is false.
\<close>

datatype gofloat = NaN | Infinite bool \<comment> \<open>negative?\<close> | Finite rat

fun flt_less :: "gofloat \<Rightarrow> gofloat \<Rightarrow> bool" where
  "flt_less NaN y = False"
| "flt_less x NaN = False"
| "flt_less (Infinite n) (Infinite m) = (n \<and> \<not> m)"
| "flt_less (Infinite n) (Finite y) = n"
| "flt_less (Finite x) (Infinite m) = (\<not> m)"
| "flt_less (Finite x) (Finite y) = (x < y)"

definition flt_le :: "gofloat \<Rightarrow> gofloat \<Rightarrow> bool" where
  "flt_le x y \<longleftrightarrow> flt_less x y \<or> (x = y \<and> x \<noteq> NaN)"

subsection \<open>Parsing\<close>

text \<open>\<open>strconv.ParseInt(s, 10, 32)\<close>: the syntax of \<open>Atoi\<close>, a value that fits 32 bits.\<close>

definition parse_int32 :: "string \<Rightarrow> int option" where
  "parse_int32 s =
     (case atoi s of None \<Rightarrow> None | Some n \<Rightarrow> if - (2 ^ 31) \<le> n \<and> n < 2 ^ 31 then Some n else None)"

text \<open>\<open>leadingInt\<close> and \<open>leadingFraction\<close> of package \<open>time\<close>, over the digits already cut off.\<close>

fun leading_int :: "nat \<Rightarrow> string \<Rightarrow> nat option" where
  "leading_int x [] = Some x"
| "leading_int x (c # s) =
     (case digit_value c of
        None \<Rightarrow> None
      | Some d \<Rightarrow>
          if 2 ^ 63 div 10 < x then None
          else let y = x * 10 + d in if 2 ^ 63 < y then None else leading_int y s)"

fun leading_fraction :: "bool \<Rightarrow> nat \<Rightarrow> rat \<Rightarrow> string \<Rightarrow> nat \<times> rat" where
  "leading_fraction overflow x scale [] = (x, scale)"
| "leading_fraction overflow x scale (c # s) =
     (if overflow \<or> (2 ^ 63 - 1) div 10 < x then leading_fraction True x scale s
      else let y = x * 10 + the (digit_value c) in
           if 2 ^ 63 < y then leading_fraction True x scale s
           else leading_fraction False y (f64 (scale * 10)) s)"

definition is_digit :: "char \<Rightarrow> bool" where
  "is_digit c = (digit_value c \<noteq> None)"

definition duration_unit :: "string \<Rightarrow> nat option" where
  "duration_unit u =
     (if u = ''ns'' then Some 1
      else if u = ''us'' \<or> u = bytes [194, 181] @ ''s'' \<or> u = bytes [206, 188] @ ''s'' then Some 1000
      else if u = ''ms'' then Some 1000000
      else if u = ''s'' then Some 1000000000
      else if u = ''m'' then Some 60000000000
      else if u = ''h'' then Some 3600000000000
      else None)"

text \<open>One number with its unit, and the rest of the text; \<^term>\<open>None\<close> is an error.\<close>

definition duration_part :: "string \<Rightarrow> (nat \<times> string) option" where
  "duration_part s =
     (let ds = takeWhile is_digit s;
          s1 = drop (length ds) s;
          dot = (s1 \<noteq> [] \<and> hd s1 = CHR ''.'');
          fs = (if dot then takeWhile is_digit (tl s1) else []);
          s2 = (if dot then drop (length fs) (tl s1) else s1);
          u = takeWhile (\<lambda>c. c \<noteq> CHR ''.'' \<and> \<not> is_digit c) s2;
          (f, scale) = leading_fraction False 0 1 fs
      in case leading_int 0 ds of
           None \<Rightarrow> None
         | Some v \<Rightarrow>
             if (ds = [] \<and> fs = []) \<or> u = [] then None
             else case duration_unit u of
                    None \<Rightarrow> None
                  | Some n \<Rightarrow>
                      if 2 ^ 63 div n < v then None
                      else let w = v * n + (if 0 < f then nat (trunc (f64 (f64 (of_nat f) * f64 (of_nat n / scale)))) else 0)
                           in if 2 ^ 63 < w then None else Some (w, drop (length u) s2))"

function duration_loop :: "nat \<Rightarrow> string \<Rightarrow> nat option" where
  "duration_loop d s =
     (if s = [] then Some d
      else case duration_part s of
             None \<Rightarrow> None
           | Some (v, r) \<Rightarrow> if 2 ^ 63 < d + v then None else duration_loop (d + v) r)"
  by auto

termination
proof (relation "measure (\<lambda>(d, s). length s)", goal_cases)
  case (2 d s x v r)
  define ds where "ds = takeWhile is_digit s"
  define s1 where "s1 = drop (length ds) s"
  define fs where "fs = (if s1 \<noteq> [] \<and> hd s1 = CHR ''.'' then takeWhile is_digit (tl s1) else [])"
  define s2 where "s2 = (if s1 \<noteq> [] \<and> hd s1 = CHR ''.'' then drop (length fs) (tl s1) else s1)"
  define u where "u = takeWhile (\<lambda>c. c \<noteq> CHR ''.'' \<and> \<not> is_digit c) s2"
  have "u \<noteq> [] \<and> r = drop (length u) s2"
    using 2 unfolding duration_part_def Let_def ds_def [symmetric] s1_def [symmetric]
    unfolding fs_def [symmetric] unfolding s2_def [symmetric] unfolding u_def [symmetric]
    by (auto split: option.splits prod.splits if_splits)
  moreover have "length u \<le> length s2" unfolding u_def by (rule length_takeWhile_le)
  moreover have "length s2 \<le> length s" by (auto simp: s2_def s1_def)
  ultimately show ?case by (cases u) auto
qed simp

declare duration_loop.simps [simp del]

definition ParseDuration :: "string \<Rightarrow> duration option" where
  "ParseDuration s =
     (let neg = (s \<noteq> [] \<and> hd s = CHR ''-'');
          s1 = (if s \<noteq> [] \<and> (hd s = CHR ''-'' \<or> hd s = CHR ''+'') then tl s else s)
      in if s1 = ''0'' then Some 0
         else if s1 = [] then None
         else case duration_loop 0 s1 of
                None \<Rightarrow> None
              | Some d \<Rightarrow>
                  if neg then Some (- int d)
                  else if 2 ^ 63 - 1 < d then None else Some (int d))"

text \<open>
  \<open>Duration.String\<close>: \<open>fmtFrac\<close> writes the fraction without its trailing zeros, from the last
  digit to the first, and leaves the rest of the number.
\<close>

fun fmt_frac :: "nat \<Rightarrow> nat \<Rightarrow> bool \<Rightarrow> string \<Rightarrow> string \<times> nat" where
  "fmt_frac 0 v printed acc = ((if printed then CHR ''.'' # acc else acc), v)"
| "fmt_frac (Suc k) v printed acc =
     (let p = (printed \<or> v mod 10 \<noteq> 0) in fmt_frac k (v div 10) p (if p then digit_char (v mod 10) # acc else acc))"

definition duration_body :: "nat \<Rightarrow> string" where
  "duration_body u =
     (if u = 0 then ''0s''
      else if u < 1000 then let (f, v) = fmt_frac 0 u False ''ns'' in decimal v @ f
      else if u < 1000000 then let (f, v) = fmt_frac 3 u False (bytes [194, 181] @ ''s'') in decimal v @ f
      else if u < 1000000000 then let (f, v) = fmt_frac 6 u False ''ms'' in decimal v @ f
      else let (f, v) = fmt_frac 9 u False ''s''; m = v div 60; h = m div 60
           in (if h > 0 then decimal h @ ''h'' else []) @ (if m > 0 then decimal (m mod 60) @ ''m'' else []) @
              decimal (v mod 60) @ f)"

definition duration_string :: "duration \<Rightarrow> string" where
  "duration_string d = (if d < 0 then CHR ''-'' # duration_body (nat \<bar>d\<bar>) else duration_body (nat \<bar>d\<bar>))"

section \<open>Lemmas\<close>

lemma parse_int32_range: "parse_int32 s = Some n \<Longrightarrow> - (2 ^ 31) \<le> n \<and> n < 2 ^ 31"
  by (auto simp: parse_int32_def split: option.splits if_splits)

lemma leading_int_bound: "leading_int x s = Some y \<Longrightarrow> x \<le> 2 ^ 63 \<Longrightarrow> y \<le> 2 ^ 63"
  by (induction x s rule: leading_int.induct) (auto simp: Let_def split: option.splits if_splits)

lemma duration_loop_bound: "duration_loop d s = Some e \<Longrightarrow> d \<le> 2 ^ 63 \<Longrightarrow> e \<le> 2 ^ 63"
proof (induction d s rule: duration_loop.induct)
  case (1 d s)
  then show ?case using duration_loop.simps [of d s] by (auto split: if_splits option.splits prod.splits)
qed

text \<open>\<open>ParseDuration\<close> never leaves the range of \<open>int64\<close>.\<close>

lemma ParseDuration_range: "ParseDuration s = Some d \<Longrightarrow> int64_ok d"
  by (auto simp: ParseDuration_def int64_ok_def Let_def split: if_splits option.splits dest!: duration_loop_bound)

subsection \<open>Rounding\<close>

lemma bit_len_bounds: "0 < n \<Longrightarrow> 2 ^ (bit_len n - 1) \<le> n \<and> n < 2 ^ bit_len n \<and> 0 < bit_len n"
proof (induction n rule: bit_len.induct)
  case (1 n)
  show ?case
  proof (cases "n div 2 = 0")
    case True
    with 1 have "n = 1" by auto
    then show ?thesis by (simp add: bit_len.simps)
  next
    case False
    with 1 have ih: "2 ^ (bit_len (n div 2) - 1) \<le> n div 2 \<and> n div 2 < 2 ^ bit_len (n div 2) \<and> 0 < bit_len (n div 2)"
      by auto
    then obtain k where k: "bit_len (n div 2) = Suc k" by (cases "bit_len (n div 2)") auto
    have "bit_len n = Suc (bit_len (n div 2))" using 1 by (simp add: bit_len.simps)
    then show ?thesis using ih k by auto
  qed
qed

lemma pow2_add: "pow2 (i + j) = pow2 i * pow2 j"
proof -
  have "pow2 k = 2 powi k" for k by (simp add: pow2_def power_int_def inverse_eq_divide power_one_over)
  then show ?thesis by (simp add: power_int_add)
qed

lemma pow2_nat [simp]: "pow2 (int n) = 2 ^ n"
  by (simp add: pow2_def)

lemma pow2_pos [simp]: "0 < pow2 k"
  by (simp add: pow2_def)

lemma pow2_mono: "i \<le> j \<Longrightarrow> pow2 i \<le> pow2 j"
proof -
  assume "i \<le> j"
  then obtain n where j: "j = i + int n" by (metis zle_iff_zadd)
  have "(1 :: rat) \<le> 2 ^ n" by simp
  then show ?thesis by (simp add: j pow2_add)
qed

lemma rat_exponent_le: "0 < x \<Longrightarrow> pow2 (rat_exponent x) \<le> x"
proof -
  assume x: "0 < x"
  obtain a b where q: "quotient_of x = (a, b)" by (cases "quotient_of x")
  have b: "0 < b" by (rule quotient_of_denom_pos [OF q])
  have xq: "x = of_int a / of_int b" by (rule quotient_of_div [OF q])
  have a: "0 < a" using x b by (simp add: xq zero_less_divide_iff)
  define e where "e = int (bit_len (nat a)) - int (bit_len (nat b))"
  have "pow2 (e - 1) \<le> x"
  proof -
    have la: "2 ^ (bit_len (nat a) - 1) \<le> nat a" "0 < bit_len (nat a)" and lb: "nat b < 2 ^ bit_len (nat b)"
      using bit_len_bounds [of "nat a"] bit_len_bounds [of "nat b"] a b by auto
    have e1: "pow2 (e - 1) * 2 ^ bit_len (nat b) = 2 ^ (bit_len (nat a) - 1)"
      using pow2_add [of "e - 1" "int (bit_len (nat b))"] la(2) by (simp add: e_def pow2_def nat_diff_distrib)
    have "of_int b \<le> (2 :: rat) ^ bit_len (nat b)"
      using lb b by (metis less_imp_le nat_0_le of_int_of_nat_eq of_nat_le_iff of_nat_numeral of_nat_power)
    then have "pow2 (e - 1) * of_int b \<le> pow2 (e - 1) * 2 ^ bit_len (nat b)" by (simp add: less_imp_le)
    also have "\<dots> \<le> of_int a"
      using la(1) a e1 by (metis less_imp_le nat_0_le of_int_of_nat_eq of_nat_le_iff of_nat_numeral of_nat_power)
    finally show ?thesis using b by (simp add: xq pos_le_divide_eq)
  qed
  then show ?thesis by (simp add: rat_exponent_def q Let_def e_def)
qed

lemma round_even_le: "y \<le> of_int k \<Longrightarrow> round_even y \<le> k"
proof -
  assume y: "y \<le> of_int k"
  then have "\<lfloor>y\<rfloor> \<le> k" by linarith
  show ?thesis
  proof (cases "\<lfloor>y\<rfloor> = k")
    case True
    then have "y - of_int \<lfloor>y\<rfloor> < 1 / 2" using y by auto
    then show ?thesis using True by (simp add: round_even_def Let_def)
  next
    case False
    with \<open>\<lfloor>y\<rfloor> \<le> k\<close> have "\<lfloor>y\<rfloor> + 1 \<le> k" by simp
    then show ?thesis by (auto simp: round_even_def Let_def)
  qed
qed

lemma round_even_nonneg: "0 \<le> y \<Longrightarrow> 0 \<le> round_even y"
  by (auto simp: round_even_def Let_def)

text \<open>An integer of at most 53 bits lies on the grid of every smaller number.\<close>

lemma f64_grid:
  assumes x: "0 < x" and "x \<le> of_nat n" "n \<le> 2 ^ 53"
  shows "\<exists>k. of_nat n = of_int k * pow2 (rat_exponent x - 52)"
proof (cases "rat_exponent x \<le> 52")
  case True
  then have "pow2 (rat_exponent x - 52) * 2 ^ nat (52 - rat_exponent x) = 1"
    using pow2_add [of "rat_exponent x - 52" "52 - rat_exponent x"] by (simp add: pow2_def)
  then have "of_nat n = of_int (int n * 2 ^ nat (52 - rat_exponent x)) * pow2 (rat_exponent x - 52)"
    by (simp add: mult.commute mult.left_commute)
  then show ?thesis by blast
next
  case False
  then have "pow2 53 \<le> x" using pow2_mono [of 53 "rat_exponent x"] rat_exponent_le [OF x] by simp
  moreover have "of_nat n \<le> (of_nat (2 ^ 53) :: rat)" using assms(3) by (simp only: of_nat_le_iff)
  ultimately have n: "of_nat n = (2 :: rat) ^ 53" "x = 2 ^ 53" using assms(2) by (auto simp: pow2_def)
  have "quotient_of ((2 :: rat) ^ 53) = (2 ^ 53, 1)" using quotient_of_int [of "2 ^ 53"] by simp
  then have "rat_exponent x = 53" by (simp add: n rat_exponent_def bit_len.simps pow2_def)
  then have "of_nat n = of_int (2 ^ 52) * pow2 (rat_exponent x - 52)" by (simp add: n pow2_def)
  then show ?thesis by blast
qed

text \<open>Rounding never crosses an integer that is representable, and keeps it.\<close>

lemma f64_le_nat:
  assumes "0 \<le> x" "x \<le> of_nat n" "n \<le> 2 ^ 53"
  shows "0 \<le> f64 x \<and> f64 x \<le> of_nat n"
proof (cases "x = 0")
  case False
  with assms have x: "0 < x" by simp
  define u where "u = pow2 (rat_exponent x - 52)"
  have u: "0 < u" by (simp add: u_def)
  obtain k where k: "of_nat n = of_int k * u" using f64_grid [OF x assms(2,3)] by (auto simp: u_def)
  have "x / u \<le> of_int k" using assms(2) u by (simp add: k divide_le_eq)
  then have "round_even (x / u) \<le> k" by (rule round_even_le)
  then have "of_int (round_even (x / u)) * u \<le> of_nat n" using u by (simp add: k)
  moreover have "0 \<le> of_int (round_even (x / u)) * u" using u x by (simp add: round_even_nonneg)
  ultimately show ?thesis using x by (simp add: f64_def f64_pos_def Let_def u_def)
qed (simp add: f64_def)

lemma f64_nat: "n \<le> 2 ^ 53 \<Longrightarrow> f64 (of_nat n) = of_nat n"
proof (cases "n = 0")
  case False
  assume n: "n \<le> 2 ^ 53"
  define x :: rat where "x = of_nat n"
  have x: "0 < x" using False by (simp add: x_def)
  define u where "u = pow2 (rat_exponent x - 52)"
  obtain k where k: "x = of_int k * u" using f64_grid [OF x _ n] by (auto simp: x_def u_def)
  have "0 < u" by (simp add: u_def)
  then have "x / u = of_int k" using k by simp
  then have "of_int (round_even (x / u)) * u = x" using k by (simp add: round_even_def)
  then have "f64 x = x" using x by (simp add: f64_def f64_pos_def u_def Let_def)
  then show ?thesis by (simp add: x_def)
qed (simp add: f64_def)

end
