(* ===== verification/Json.thy ===== *)
theory Json
  imports Uuid_Text
begin

text \<open>
  JSON as Go's encoding/json reads and writes it, on bytes. \<open>parse_value\<close> reads the first value of
  an input as \<open>Decoder.Decode\<close> does, with the scanner's limit on nesting; a number keeps its text, a
  string is unquoted (escapes, surrogate pairs, the replacement character for what is not UTF-8).
  \<open>print_json\<close> is the compact output of \<open>Marshal\<close> with its escapes for HTML.
  The parser has fuel, one more than twice the length of the input, which is always enough
  (\<open>parse_fuel\<close>), and reads back what is printed (\<open>parse_print\<close>).
\<close>

section \<open>Definitions\<close>

datatype json =
    JNull
  | JBool bool
  | JNum string
  | JStr string
  | JArr "json list"
  | JObj "(string \<times> json) list"

subsection \<open>UTF-8\<close>

abbreviation byte :: "char \<Rightarrow> nat" where
  "byte c \<equiv> of_char c"

text \<open>The width of the multi-byte rune a string starts with, 0 where \<open>utf8.DecodeRune\<close> finds none.\<close>

fun rune_len :: "string \<Rightarrow> nat" where
  "rune_len (a # b # s) =
     (let n = byte a; m = byte b in
      if 0xC2 \<le> n \<and> n \<le> 0xDF then (if cont_byte b then 2 else 0)
      else if 0xE0 \<le> n \<and> n \<le> 0xEF then
        (if (if n = 0xE0 then 0xA0 else 0x80) \<le> m \<and> m \<le> (if n = 0xED then 0x9F else 0xBF) \<and>
            s \<noteq> [] \<and> cont_byte (hd s) then 3 else 0)
      else if 0xF0 \<le> n \<and> n \<le> 0xF4 then
        (if (if n = 0xF0 then 0x90 else 0x80) \<le> m \<and> m \<le> (if n = 0xF4 then 0x8F else 0xBF) \<and>
            2 \<le> length s \<and> cont_byte (hd s) \<and> cont_byte (hd (tl s)) then 4 else 0)
      else 0)"
| "rune_len _ = 0"

text \<open>\<open>utf8.AppendRune\<close>, for runes that are no surrogates.\<close>

definition encode_rune :: "nat \<Rightarrow> string" where
  "encode_rune r = bytes
     (if r < 0x80 then [r]
      else if r < 0x800 then [0xC0 + r div 64, 0x80 + r mod 64]
      else if r < 0x10000 then [0xE0 + r div 4096, 0x80 + r div 64 mod 64, 0x80 + r mod 64]
      else [0xF0 + r div 262144, 0x80 + r div 4096 mod 64, 0x80 + r div 64 mod 64, 0x80 + r mod 64])"

definition rune_error :: string where
  "rune_error = [CHR 0xEF, CHR 0xBF, CHR 0xBD]"

text \<open>A string with every byte that is not part of a rune replaced by U+FFFD.\<close>

function to_valid :: "string \<Rightarrow> string" where
  "to_valid s =
     (case s of
        [] \<Rightarrow> []
      | c # s' \<Rightarrow>
          if byte c < 0x80 then c # to_valid s'
          else (case rune_len s of
                  0 \<Rightarrow> rune_error @ to_valid s'
                | Suc k \<Rightarrow> take (Suc k) s @ to_valid (drop k s')))"
  by auto
termination
  by (relation "measure length") auto

declare to_valid.simps [simp del]

subsection \<open>Strings\<close>

definition hex_digit :: "char \<Rightarrow> nat option" where
  "hex_digit c = hex_value (byte_lower c)"

definition hex4 :: "string \<Rightarrow> nat option" where
  "hex4 s =
     (case map hex_digit (take 4 s) of
        [Some a, Some b, Some c, Some d] \<Rightarrow> Some (value16 [a, b, c, d])
      | _ \<Rightarrow> None)"

text \<open>The low surrogate that has to follow, as \<open>getu4\<close> reads it.\<close>

definition low_surrogate :: "string \<Rightarrow> nat option" where
  "low_surrogate s =
     (if has_prefix [CHR 0x5C, CHR ''u''] s
      then (case hex4 (drop 2 s) of
              Some r \<Rightarrow> if 0xDC00 \<le> r \<and> r < 0xE000 then Some r else None
            | None \<Rightarrow> None)
      else None)"

definition escapes :: "(char \<times> nat) list" where
  "escapes =
     [(CHR 0x22, 0x22), (CHR 0x5C, 0x5C), (CHR ''/'', 0x2F), (CHR ''b'', 8), (CHR ''f'', 12), (CHR ''n'', 10),
      (CHR ''r'', 13), (CHR ''t'', 9)]"

text \<open>What follows a backslash: the bytes it stands for and how many bytes it takes.\<close>

definition unescape :: "string \<Rightarrow> (string \<times> nat) option" where
  "unescape s =
     (case s of
        [] \<Rightarrow> None
      | e # s' \<Rightarrow>
          if e = CHR ''u'' then
            (case hex4 s' of
               None \<Rightarrow> None
             | Some r \<Rightarrow>
                 if 0xD800 \<le> r \<and> r < 0xE000 then
                   (case low_surrogate (drop 4 s') of
                      Some r2 \<Rightarrow> if r < 0xDC00 then Some (encode_rune (0x10000 + (r - 0xD800) * 1024 + (r2 - 0xDC00)), 11)
                                else Some (rune_error, 5)
                    | None \<Rightarrow> Some (rune_error, 5))
                 else Some (encode_rune r, 5))
          else (case map_of escapes e of Some b \<Rightarrow> Some ([char_of b], 1) | None \<Rightarrow> None))"

text \<open>One step inside a string: the bytes it yields and the bytes taken after the first.\<close>

definition string_step :: "string \<Rightarrow> (string \<times> nat) option" where
  "string_step s =
     (case s of
        [] \<Rightarrow> None
      | c # s' \<Rightarrow>
          if c = CHR 0x5C then unescape s'
          else if byte c < 0x20 then None
          else if byte c < 0x80 then Some ([c], 0)
          else (case rune_len s of 0 \<Rightarrow> Some (rune_error, 0) | Suc k \<Rightarrow> Some (take (Suc k) s, k)))"

text \<open>The rest of a string literal after its opening quote, and what follows it.\<close>

function unquote :: "string \<Rightarrow> (string \<times> string) option" where
  "unquote s =
     (case s of
        [] \<Rightarrow> None
      | c # s' \<Rightarrow>
          if c = CHR 0x22 then Some ([], s')
          else (case string_step s of
                  None \<Rightarrow> None
                | Some (x, k) \<Rightarrow> map_option (\<lambda>(t, r). (x @ t, r)) (unquote (drop k s'))))"
  by auto
termination
  by (relation "measure length") auto

declare unquote.simps [simp del]

text \<open>\<open>appendString\<close> with \<open>escapeHTML\<close>.\<close>

definition quote_byte :: "char \<Rightarrow> string" where
  "quote_byte c =
     (case map_of (map (\<lambda>(e, b). (char_of b, e)) (filter (\<lambda>x. fst x \<noteq> CHR ''/'') escapes)) c of
        Some e \<Rightarrow> [CHR 0x5C, e]
      | None \<Rightarrow>
          if byte c < 0x20 \<or> c = CHR ''<'' \<or> c = CHR ''>'' \<or> c = CHR ''&''
          then CHR 0x5C # ''u00'' @ [hex_char (byte c div 16), hex_char (byte c mod 16)]
          else [c])"

definition quote_rune :: "string \<Rightarrow> string" where
  "quote_rune r =
     (if r = [CHR 0xE2, CHR 0x80, CHR 0xA8] then CHR 0x5C # ''u2028''
      else if r = [CHR 0xE2, CHR 0x80, CHR 0xA9] then CHR 0x5C # ''u2029''
      else r)"

function quote_body :: "string \<Rightarrow> string" where
  "quote_body s =
     (case s of
        [] \<Rightarrow> []
      | c # s' \<Rightarrow>
          if byte c < 0x80 then quote_byte c @ quote_body s'
          else (case rune_len s of
                  0 \<Rightarrow> CHR 0x5C # ''ufffd'' @ quote_body s'
                | Suc k \<Rightarrow> quote_rune (take (Suc k) s) @ quote_body (drop k s')))"
  by auto
termination
  by (relation "measure length") auto

declare quote_body.simps [simp del]

definition quote :: "string \<Rightarrow> string" where
  "quote s = CHR 0x22 # quote_body s @ [CHR 0x22]"

subsection \<open>Numbers\<close>

abbreviation json_digit :: "char \<Rightarrow> bool" where
  "json_digit c \<equiv> digit_value c \<noteq> None"

text \<open>At least one digit, the longest run.\<close>

definition digits1 :: "string \<Rightarrow> (string \<times> string) option" where
  "digits1 s = (case takeWhile json_digit s of [] \<Rightarrow> None | ds \<Rightarrow> Some (ds, dropWhile json_digit s))"

definition sign_part :: "char list \<Rightarrow> string \<Rightarrow> string \<times> string" where
  "sign_part cs s = (case s of [] \<Rightarrow> ([], []) | c # s' \<Rightarrow> if c \<in> set cs then ([c], s') else ([], s))"

definition json_exponent :: "string \<Rightarrow> (string \<times> string) option" where
  "json_exponent s =
     (case s of
        [] \<Rightarrow> Some ([], s)
      | e # s' \<Rightarrow>
          if e = CHR ''e'' \<or> e = CHR ''E'' then
            (let (sg, s2) = sign_part ''+-'' s' in map_option (\<lambda>(ds, r). (e # sg @ ds, r)) (digits1 s2))
          else Some ([], s))"

definition json_fraction :: "string \<Rightarrow> (string \<times> string) option" where
  "json_fraction s =
     (case s of
        [] \<Rightarrow> Some ([], s)
      | p # s' \<Rightarrow> if p = CHR ''.'' then map_option (\<lambda>(ds, r). (p # ds, r)) (digits1 s') else Some ([], s))"

definition json_whole :: "string \<Rightarrow> (string \<times> string) option" where
  "json_whole s =
     (case s of
        [] \<Rightarrow> None
      | c # s' \<Rightarrow> if c = CHR ''0'' then Some ([c], s') else digits1 s)"

definition json_number :: "string \<Rightarrow> (string \<times> string) option" where
  "json_number s =
     (let (sg, s1) = sign_part ''-'' s
      in case json_whole s1 of
           None \<Rightarrow> None
         | Some (w, s2) \<Rightarrow>
             (case json_fraction s2 of
                None \<Rightarrow> None
              | Some (f, s3) \<Rightarrow> map_option (\<lambda>(e, r). (sg @ w @ f @ e, r)) (json_exponent s3)))"

subsection \<open>Values\<close>

definition json_space :: "char \<Rightarrow> bool" where
  "json_space c \<longleftrightarrow> c = CHR '' '' \<or> c = CHR 0x09 \<or> c = CHR 0x0D \<or> c = CHR 0x0A"

definition skip_ws :: "string \<Rightarrow> string" where
  "skip_ws s = dropWhile json_space s"

text \<open>A value that is neither an object nor an array.\<close>

definition scalar :: "string \<Rightarrow> (json \<times> string) option" where
  "scalar s =
     (if has_prefix [CHR 0x22] s then map_option (\<lambda>(t, r). (JStr t, r)) (unquote (tl s))
      else if has_prefix ''true'' s then Some (JBool True, drop 4 s)
      else if has_prefix ''false'' s then Some (JBool False, drop 5 s)
      else if has_prefix ''null'' s then Some (JNull, drop 4 s)
      else map_option (\<lambda>(t, r). (JNum t, r)) (json_number s))"

text \<open>The byte after white space and what follows it.\<close>

definition next_token :: "string \<Rightarrow> (char \<times> string) option" where
  "next_token s = (case skip_ws s of [] \<Rightarrow> None | c # r \<Rightarrow> Some (c, r))"

fun parse_val :: "nat \<Rightarrow> nat \<Rightarrow> string \<Rightarrow> (json \<times> string) option"
  and parse_members :: "nat \<Rightarrow> nat \<Rightarrow> string \<Rightarrow> ((string \<times> json) list \<times> string) option"
  and parse_elements :: "nat \<Rightarrow> nat \<Rightarrow> string \<Rightarrow> (json list \<times> string) option" where
  "parse_val 0 d s = None"
| "parse_val (Suc k) d s =
     (case next_token s of
        None \<Rightarrow> None
      | Some (c, r) \<Rightarrow>
          if c = CHR ''{'' then
            (case d of
               0 \<Rightarrow> None
             | Suc d' \<Rightarrow>
                 (case next_token r of
                    None \<Rightarrow> None
                  | Some (c', r') \<Rightarrow>
                      if c' = CHR ''}'' then Some (JObj [], r')
                      else map_option (\<lambda>(ms, r). (JObj ms, r)) (parse_members k d' r)))
          else if c = CHR ''['' then
            (case d of
               0 \<Rightarrow> None
             | Suc d' \<Rightarrow>
                 (case next_token r of
                    None \<Rightarrow> None
                  | Some (c', r') \<Rightarrow>
                      if c' = CHR '']'' then Some (JArr [], r')
                      else map_option (\<lambda>(vs, r). (JArr vs, r)) (parse_elements k d' r)))
          else scalar (c # r))"
| "parse_members 0 d s = None"
| "parse_members (Suc k) d s =
     (case next_token s of
        None \<Rightarrow> None
      | Some (c, r) \<Rightarrow>
          if c \<noteq> CHR 0x22 then None
          else
            (case unquote r of
               None \<Rightarrow> None
             | Some (key, r1) \<Rightarrow>
                 (case next_token r1 of
                    None \<Rightarrow> None
                  | Some (c1, r2) \<Rightarrow>
                      if c1 \<noteq> CHR '':'' then None
                      else
                        (case parse_val k d r2 of
                           None \<Rightarrow> None
                         | Some (v, r3) \<Rightarrow>
                             (case next_token r3 of
                                None \<Rightarrow> None
                              | Some (c2, r4) \<Rightarrow>
                                  if c2 = CHR ''}'' then Some ([(key, v)], r4)
                                  else if c2 = CHR '','' then
                                    map_option (\<lambda>(ms, r). ((key, v) # ms, r)) (parse_members k d r4)
                                  else None)))))"
| "parse_elements 0 d s = None"
| "parse_elements (Suc k) d s =
     (case parse_val k d s of
        None \<Rightarrow> None
      | Some (v, r) \<Rightarrow>
          (case next_token r of
             None \<Rightarrow> None
           | Some (c, r1) \<Rightarrow>
               if c = CHR '']'' then Some ([v], r1)
               else if c = CHR '','' then map_option (\<lambda>(vs, r). (v # vs, r)) (parse_elements k d r1)
               else None))"

declare parse_val.simps [simp del] parse_members.simps [simp del] parse_elements.simps [simp del]

text \<open>The scanner refuses more than \<open>maxNestingDepth\<close> open brackets.\<close>

definition max_depth :: nat where
  "max_depth = 10000"

definition parse_value :: "string \<Rightarrow> (json \<times> string) option" where
  "parse_value s = parse_val (Suc (2 * length s)) max_depth s"

text \<open>\<open>Marshal\<close>.\<close>

fun print_json :: "json \<Rightarrow> string"
  and print_members :: "(string \<times> json) list \<Rightarrow> string"
  and print_elements :: "json list \<Rightarrow> string" where
  "print_json JNull = ''null''"
| "print_json (JBool b) = (if b then ''true'' else ''false'')"
| "print_json (JNum t) = t"
| "print_json (JStr t) = quote t"
| "print_json (JArr vs) = CHR ''['' # print_elements vs @ '']''"
| "print_json (JObj ms) = CHR ''{'' # print_members ms @ ''}''"
| "print_members [] = []"
| "print_members [(k, v)] = quote k @ CHR '':'' # print_json v"
| "print_members ((k, v) # m # ms) = quote k @ CHR '':'' # print_json v @ CHR '','' # print_members (m # ms)"
| "print_elements [] = []"
| "print_elements [v] = print_json v"
| "print_elements (v # w # ws) = print_json v @ CHR '','' # print_elements (w # ws)"

text \<open>The value that is read back: strings become UTF-8.\<close>

fun valid_json :: "json \<Rightarrow> json" where
  "valid_json (JStr t) = JStr (to_valid t)"
| "valid_json (JArr vs) = JArr (map valid_json vs)"
| "valid_json (JObj ms) = JObj (map (\<lambda>(k, v). (to_valid k, valid_json v)) ms)"
| "valid_json v = v"

text \<open>What may follow a number.\<close>

definition number_ends :: "string \<Rightarrow> bool" where
  "number_ends s \<longleftrightarrow> (case s of [] \<Rightarrow> True | c # _ \<Rightarrow> \<not> json_digit c \<and> c \<noteq> CHR ''.'' \<and> c \<noteq> CHR ''e'' \<and> c \<noteq> CHR ''E'')"

fun json_depth :: "json \<Rightarrow> nat" where
  "json_depth (JArr vs) = Suc (Max (insert 0 (json_depth ` set vs)))"
| "json_depth (JObj ms) = Suc (Max (insert 0 ((json_depth \<circ> snd) ` set ms)))"
| "json_depth v = 0"

text \<open>Numbers as \<open>Marshal\<close> writes them.\<close>

fun json_ok :: "json \<Rightarrow> bool" where
  "json_ok (JNum t) = (json_number t = Some (t, []))"
| "json_ok (JArr vs) = list_all json_ok vs"
| "json_ok (JObj ms) = list_all (json_ok \<circ> snd) ms"
| "json_ok v = True"

text \<open>A piece that validation passes over.\<close>

definition utf8_piece :: "string \<Rightarrow> bool" where
  "utf8_piece x \<longleftrightarrow> (\<forall>t. to_valid (x @ t) = x @ to_valid t)"

section \<open>Lemmas\<close>

lemmas parse_simps = parse_val.simps parse_members.simps parse_elements.simps

subsection \<open>UTF-8\<close>

lemma rune_len_bounds: "rune_len s = 0 \<or> 2 \<le> rune_len s \<and> rune_len s \<le> 4 \<and> rune_len s \<le> length s"
  by (cases s rule: rune_len.cases) (auto simp: Let_def Suc_le_eq)

lemma rune_len_append: "rune_len s = Suc k \<Longrightarrow> rune_len (take (Suc k) s @ r) = Suc k"
proof (cases s rule: rune_len.cases)
  case (1 a b t)
  assume "rune_len s = Suc k"
  with 1 show ?thesis
    by (cases t; cases "tl t") (auto simp: Let_def split: if_splits)
qed simp_all

lemma rune_len_lead: "rune_len (c # s) = Suc k \<Longrightarrow> 0xC2 \<le> byte c"
  by (cases s) (auto simp: Let_def split: if_splits)

lemma to_valid_simps [simp]:
  "to_valid [] = []"
  "byte c < 0x80 \<Longrightarrow> to_valid (c # s) = c # to_valid s"
  by (subst to_valid.simps, simp)+

lemma to_valid_ascii: "list_all (\<lambda>c. byte c < 0x80) s \<Longrightarrow> to_valid s = s"
  by (induction s) auto

subsection \<open>Strings\<close>

lemma unquote_end [simp]: "unquote (CHR 0x22 # r) = Some ([], r)"
  by (subst unquote.simps) simp

lemma unquote_step:
  assumes "string_step (s @ r) = Some (x, length s - 1)" "s \<noteq> []" "hd s \<noteq> CHR 0x22"
  shows "unquote (s @ r) = map_option (\<lambda>(t, r). (x @ t, r)) (unquote r)"
  using assms by (subst unquote.simps) (auto simp: neq_Nil_conv)

lemma byte_eqD: "byte c = n \<Longrightarrow> c = char_of n"
  by (metis char_of_char)

lemmas char_eval = char_of_def bit_numeral_rec bit_Suc_0_iff

lemma hex_digit_hex_char: "d < 16 \<Longrightarrow> hex_digit (hex_char d) = Some d"
proof -
  assume "d < 16"
  then have "byte_lower (hex_char d) = hex_char d"
    by (auto simp: byte_lower_def hex_char_def Let_def)
  then show ?thesis using \<open>d < 16\<close> by (simp add: hex_digit_def hex_value_hex_char)
qed

lemma hex4_hex: "a < 16 \<Longrightarrow> b < 16 \<Longrightarrow> hex4 (CHR ''0'' # CHR ''0'' # hex_char a # hex_char b # r) = Some (16 * a + b)"
proof -
  assume "a < 16" "b < 16"
  moreover have "hex_digit (CHR ''0'') = Some 0" by code_simp
  ultimately show ?thesis by (simp add: hex4_def hex_digit_hex_char value16_def)
qed

lemma encode_ascii: "n < 0x80 \<Longrightarrow> encode_rune n = [char_of n]"
  by (simp add: encode_rune_def bytes_def)

lemma unicode_step:
  assumes "hex4 [a, b, c, d] = Some n" "n < 0xD800 \<or> 0xE000 \<le> n"
  shows "string_step (CHR 0x5C # CHR ''u'' # a # b # c # d # r) = Some (encode_rune n, 5)"
proof -
  have "hex4 (a # b # c # d # r) = Some n" using assms(1) by (simp add: hex4_def)
  then show ?thesis using assms(2) by (auto simp: string_step_def unescape_def)
qed

lemma hex_escape_step:
  assumes "byte c < 0x80"
  shows "string_step (CHR 0x5C # CHR ''u'' # CHR ''0'' # CHR ''0'' # hex_char (byte c div 16) # hex_char (byte c mod 16) # r) = Some ([c], 5)"
  using unicode_step [OF hex4_hex, of "byte c div 16" "byte c mod 16" r] assms by (simp add: encode_ascii)

lemma quote_escapes: "map (\<lambda>(e, b). (char_of b, e)) (filter (\<lambda>x. fst x \<noteq> CHR ''/'') escapes) =
    [(CHR 0x22, CHR 0x22), (CHR 0x5C, CHR 0x5C), (CHR 0x08, CHR ''b''), (CHR 0x0C, CHR ''f''), (CHR 0x0A, CHR ''n''),
     (CHR 0x0D, CHR ''r''), (CHR 0x09, CHR ''t'')]"
  by code_simp

lemma escape_steps: "list_all (\<lambda>(c, e). string_step (CHR 0x5C # e # r) = Some ([c], 1))
    (map (\<lambda>(e, b). (char_of b, e)) (filter (\<lambda>x. fst x \<noteq> CHR ''/'') escapes))"
  unfolding quote_escapes by (simp add: string_step_def unescape_def escapes_def char_eval)

lemma quote_byte_step:
  assumes "byte c < 0x80"
  shows "string_step (quote_byte c @ r) = Some ([c], length (quote_byte c) - 1) \<and> quote_byte c \<noteq> [] \<and> hd (quote_byte c) \<noteq> CHR 0x22"
proof (cases "map_of (map (\<lambda>(e, b). (char_of b, e)) (filter (\<lambda>x. fst x \<noteq> CHR ''/'') escapes)) c")
  case None
  then have c: "c \<noteq> CHR 0x22" "c \<noteq> CHR 0x5C" unfolding quote_escapes by (auto split: if_splits)
  show ?thesis
  proof (cases "byte c < 0x20 \<or> c = CHR ''<'' \<or> c = CHR ''>'' \<or> c = CHR ''&''")
    case True
    then show ?thesis using hex_escape_step [OF assms, of r] None by (simp add: quote_byte_def)
  next
    case False
    then show ?thesis using None c assms by (simp add: quote_byte_def string_step_def)
  qed
next
  case (Some e)
  then have "string_step (CHR 0x5C # e # r) = Some ([c], 1)"
    using escape_steps [of r] map_of_SomeD by (fastforce simp: list_all_iff)
  then show ?thesis using Some by (simp add: quote_byte_def)
qed

lemma quote_rune_step:
  assumes "rune_len (c # s) = Suc k" "x = take (Suc k) (c # s)"
  shows "string_step (quote_rune x @ r) = Some (x, length (quote_rune x) - 1) \<and> quote_rune x \<noteq> [] \<and> hd (quote_rune x) \<noteq> CHR 0x22"
proof -
  have c: "0xC2 \<le> byte c" by (rule rune_len_lead [OF assms(1)])
  then have ne: "c \<noteq> CHR 0x5C" "c \<noteq> CHR 0x22" by auto
  have k: "Suc k \<le> length (c # s)" using rune_len_bounds [of "c # s"] assms(1) by simp
  have "rune_len (x @ r) = Suc k" using rune_len_append [OF assms(1)] assms(2) by simp
  then have "string_step (x @ r) = Some (x, length x - 1)" using assms c ne k by (simp add: string_step_def)
  moreover have "hex4 ''2028'' = Some 0x2028" "hex4 ''2029'' = Some 0x2029"
    by (simp_all add: hex4_def hex_digit_def hex_value_def byte_lower_def value16_def)
  note this [THEN unicode_step, of r]
  moreover have "encode_rune 0x2028 = [CHR 0xE2, CHR 0x80, CHR 0xA8]" "encode_rune 0x2029 = [CHR 0xE2, CHR 0x80, CHR 0xA9]"
    by (simp_all add: encode_rune_def bytes_def char_eval)
  ultimately show ?thesis using assms(2) ne by (auto simp: quote_rune_def)
qed

lemma bad_byte_step: "string_step (CHR 0x5C # CHR ''u'' # CHR ''f'' # CHR ''f'' # CHR ''f'' # CHR ''d'' # r) = Some (rune_error, 5)"
proof -
  have "hex4 ''fffd'' = Some 0xFFFD" by (simp add: hex4_def hex_digit_def hex_value_def byte_lower_def value16_def)
  moreover have "encode_rune 0xFFFD = rune_error" by (simp add: encode_rune_def bytes_def char_eval rune_error_def)
  ultimately show ?thesis using unicode_step [of "CHR ''f''" "CHR ''f''" "CHR ''f''" "CHR ''d''" "0xFFFD" r] by simp
qed

text \<open>Quoting round-trips, up to what is not UTF-8.\<close>

lemma unquote_quote: "unquote (quote_body s @ CHR 0x22 # r) = Some (to_valid s, r)"
proof (induction s rule: quote_body.induct)
  case (1 s)
  show ?case
  proof (cases s)
    case Nil
    then show ?thesis by (simp add: quote_body.simps)
  next
    case (Cons c t)
    consider (ascii) "byte c < 0x80" | (bad) "\<not> byte c < 0x80" "rune_len s = 0" | (rune) k where "\<not> byte c < 0x80" "rune_len s = Suc k"
      by (cases "rune_len s") auto
    then show ?thesis
    proof cases
      case ascii
      let ?q = "quote_byte c" and ?r = "quote_body t @ CHR 0x22 # r"
      have "quote_body s @ CHR 0x22 # r = ?q @ ?r" using Cons ascii by (simp add: quote_body.simps)
      then show ?thesis using unquote_step [of ?q ?r] quote_byte_step [OF ascii, of ?r] 1(1) [OF Cons ascii] Cons ascii by simp
    next
      case bad
      let ?q = "CHR 0x5C # ''ufffd''" and ?r = "quote_body t @ CHR 0x22 # r"
      have "quote_body s @ CHR 0x22 # r = ?q @ ?r" using Cons bad by (simp add: quote_body.simps)
      moreover have "to_valid s = rune_error @ to_valid t" using Cons bad by (subst to_valid.simps) simp
      ultimately show ?thesis using unquote_step [of ?q ?r] bad_byte_step [of ?r] 1(2) [OF Cons bad] by simp
    next
      case rune
      let ?q = "quote_rune (take (Suc k) s)" and ?r = "quote_body (drop k t) @ CHR 0x22 # r"
      have "quote_body s @ CHR 0x22 # r = ?q @ ?r" using Cons rune by (subst quote_body.simps) simp
      moreover have "to_valid s = take (Suc k) s @ to_valid (drop k t)" using Cons rune by (subst to_valid.simps) simp
      moreover have "string_step (?q @ ?r) = Some (take (Suc k) s, length ?q - 1) \<and> ?q \<noteq> [] \<and> hd ?q \<noteq> CHR 0x22"
        using quote_rune_step [of c t k "take (Suc k) s" ?r] rune(2) Cons by simp
      ultimately show ?thesis using unquote_step [of ?q ?r] 1(3) [OF Cons rune] by simp
    qed
  qed
qed

lemma string_step_ok: "string_step s \<noteq> None \<longrightarrow> s \<noteq> []"
  by (auto simp: string_step_def)

lemma unquote_shorter: "unquote s = Some (t, r) \<Longrightarrow> length r < length s"
proof (induction s arbitrary: t rule: unquote.induct)
  case (1 s)
  show ?case
  proof (cases s)
    case Nil
    then show ?thesis using 1(2) by (simp add: unquote.simps)
  next
    case (Cons c s')
    show ?thesis
    proof (cases "c = CHR 0x22")
      case True
      then show ?thesis using 1(2) Cons by simp
    next
      case False
      then obtain x k t' where x: "string_step s = Some (x, k)" "unquote (drop k s') = Some (t', r)"
        using 1(2) Cons by (subst (asm) unquote.simps) (auto split: option.splits)
      then have "length r < length (drop k s')" using 1(1) [OF Cons False x(1) refl] by blast
      then show ?thesis using Cons by simp
    qed
  qed
qed

text \<open>Letters, digits and most marks are quoted as they are.\<close>

lemma quote_byte_plain:
  assumes "0x20 \<le> byte c" "c \<noteq> CHR 0x22" "c \<noteq> CHR 0x5C" "c \<noteq> CHR ''<''" "c \<noteq> CHR ''>''" "c \<noteq> CHR ''&''"
  shows "quote_byte c = [c]"
proof -
  have "c \<noteq> CHR 0x08" "c \<noteq> CHR 0x0C" "c \<noteq> CHR 0x0A" "c \<noteq> CHR 0x0D" "c \<noteq> CHR 0x09" using assms(1) by auto
  then show ?thesis using assms unfolding quote_byte_def quote_escapes by simp
qed

lemma quote_plain:
  "list_all (\<lambda>c. 0x20 \<le> byte c \<and> byte c < 0x80 \<and> c \<noteq> CHR 0x22 \<and> c \<noteq> CHR 0x5C \<and> c \<noteq> CHR ''<'' \<and> c \<noteq> CHR ''>'' \<and> c \<noteq> CHR ''&'') s \<Longrightarrow>
   quote_body s = s"
  by (induction s) (subst quote_body.simps, simp add: quote_byte_plain)+

subsection \<open>Numbers\<close>

lemma takeWhile_append_stop:
  "(takeWhile P s = s \<longrightarrow> r = [] \<or> \<not> P (hd r)) \<Longrightarrow> takeWhile P (s @ r) = takeWhile P s \<and> dropWhile P (s @ r) = dropWhile P s @ r"
  by (induction s) (auto, (cases r; simp)+)

lemma stops_hd: "number_ends r \<Longrightarrow> r = [] \<or> \<not> json_digit (hd r)"
  by (auto simp: number_ends_def split: list.splits)

lemma digits1_append:
  assumes "digits1 s = Some (a, x)" "x = [] \<Longrightarrow> number_ends r"
  shows "digits1 (s @ r) = Some (a, x @ r)"
proof -
  have x: "dropWhile json_digit s = x" "takeWhile json_digit s = a" using assms(1) by (auto simp: digits1_def split: list.splits)
  have "takeWhile json_digit s = s \<longrightarrow> r = [] \<or> \<not> json_digit (hd r)"
    using assms(2) stops_hd [of r] x(1) by (auto simp: takeWhile_eq_all_conv dropWhile_eq_Nil_conv)
  from takeWhile_append_stop [OF this] show ?thesis using assms(1) unfolding digits1_def by (auto split: list.splits)
qed

lemma digits1_shape: "digits1 s = Some (a, x) \<Longrightarrow> a \<noteq> [] \<and> json_digit (hd a) \<and> s = a @ x"
  by (cases s) (auto simp: digits1_def split: if_splits)

lemma whole_append: "json_whole s = Some (a, x) \<Longrightarrow> (x = [] \<Longrightarrow> number_ends r) \<Longrightarrow> json_whole (s @ r) = Some (a, x @ r)"
  using digits1_append [of s a x r] by (auto simp: json_whole_def split: list.splits if_splits)

lemma whole_shape: "json_whole s = Some (a, x) \<Longrightarrow> a \<noteq> [] \<and> json_digit (hd a) \<and> s = a @ x"
proof -
  have "json_digit (CHR ''0'')" by (simp add: digit_value_def)
  moreover assume "json_whole s = Some (a, x)"
  ultimately show ?thesis using digits1_shape [of s a x] by (auto simp: json_whole_def split: list.splits if_splits)
qed

lemma fraction_append: "json_fraction s = Some (a, x) \<Longrightarrow> (x = [] \<Longrightarrow> number_ends r) \<Longrightarrow> json_fraction (s @ r) = Some (a, x @ r)"
proof (cases s)
  case (Cons p s')
  assume "json_fraction s = Some (a, x)" "x = [] \<Longrightarrow> number_ends r"
  then show ?thesis using Cons digits1_append [of s' _ x r] by (auto simp: json_fraction_def split: if_splits)
qed (auto simp: json_fraction_def number_ends_def split: list.splits)

lemma fraction_shape: "json_fraction s = Some (a, x) \<Longrightarrow> s = a @ x"
  by (cases s) (auto simp: json_fraction_def split: if_splits dest: digits1_shape)

lemma sign_append: "s \<noteq> [] \<Longrightarrow> sign_part cs (s @ r) = (fst (sign_part cs s), snd (sign_part cs s) @ r)"
  by (cases s) (auto simp: sign_part_def)

lemma sign_shape: "sign_part cs s = (a, x) \<Longrightarrow> s = a @ x \<and> (a = [] \<or> hd a \<in> set cs \<and> a = [hd a])"
  by (cases s) (auto simp: sign_part_def split: if_splits)

lemma exponent_append: "json_exponent s = Some (a, x) \<Longrightarrow> (x = [] \<Longrightarrow> number_ends r) \<Longrightarrow> json_exponent (s @ r) = Some (a, x @ r)"
proof (cases s)
  case (Cons e s')
  assume as: "json_exponent s = Some (a, x)" "x = [] \<Longrightarrow> number_ends r"
  show ?thesis
  proof (cases "e = CHR ''e'' \<or> e = CHR ''E''")
    case True
    obtain sg s2 where sg: "sign_part ''+-'' s' = (sg, s2)" by fastforce
    then obtain ds where ds: "digits1 s2 = Some (ds, x)" "a = e # sg @ ds"
      using as(1) Cons True by (auto simp: json_exponent_def)
    then have "s' \<noteq> []" using sg digits1_shape [of s2] by (auto simp: sign_part_def)
    then show ?thesis using sign_append [of s' "''+-''" r] sg ds digits1_append [OF ds(1) as(2)] Cons True
      by (auto simp: json_exponent_def)
  qed (use as Cons in \<open>auto simp: json_exponent_def\<close>)
qed (auto simp: json_exponent_def number_ends_def split: list.splits)

lemma exponent_shape: "json_exponent s = Some (a, x) \<Longrightarrow> s = a @ x"
  by (cases s) (auto simp: json_exponent_def split: if_splits prod.splits dest!: digits1_shape sign_shape)

lemma number_parts:
  assumes "json_number s = Some (a, x)"
  obtains sg s1 w s2 f s3 e where "sign_part ''-'' s = (sg, s1)" "json_whole s1 = Some (w, s2)" "json_fraction s2 = Some (f, s3)"
    "json_exponent s3 = Some (e, x)" "a = sg @ w @ f @ e"
  using assms by (auto simp: json_number_def split: prod.splits option.splits)

lemma number_append:
  assumes "json_number s = Some (a, x)" "x = [] \<Longrightarrow> number_ends r"
  shows "json_number (s @ r) = Some (a, x @ r)"
  using assms(1)
proof (elim number_parts)
  fix sg s1 w s2 f s3 e
  assume p: "sign_part ''-'' s = (sg, s1)" "json_whole s1 = Some (w, s2)" "json_fraction s2 = Some (f, s3)"
    "json_exponent s3 = Some (e, x)" "a = sg @ w @ f @ e"
  have "s \<noteq> []" using p(1,2) by (auto simp: sign_part_def json_whole_def)
  moreover have "s3 = [] \<Longrightarrow> number_ends r" "s2 = [] \<Longrightarrow> number_ends r"
    using exponent_shape [OF p(4)] fraction_shape [OF p(3)] assms(2) by auto
  ultimately show ?thesis
    using p sign_append [of s "''-''" r] whole_append [OF p(2)] fraction_append [OF p(3)] exponent_append [OF p(4) assms(2)]
    by (simp add: json_number_def)
qed

lemma number_shape: "json_number s = Some (a, x) \<Longrightarrow> a \<noteq> [] \<and> (hd a = CHR ''-'' \<or> json_digit (hd a)) \<and> s = a @ x"
proof (elim number_parts)
  fix sg s1 w s2 f s3 e
  assume p: "sign_part ''-'' s = (sg, s1)" "json_whole s1 = Some (w, s2)" "json_fraction s2 = Some (f, s3)"
    "json_exponent s3 = Some (e, x)" "a = sg @ w @ f @ e"
  then show ?thesis
    using sign_shape [OF p(1)] whole_shape [OF p(2)] fraction_shape [OF p(3)] exponent_shape [OF p(4)]
    by (auto simp: hd_append)
qed

text \<open>The texts of \<open>strconv.Itoa\<close>.\<close>

lemma decimal_is_digit: "c \<in> set (decimal n) \<Longrightarrow> json_digit c"
  using decimal_digits [of c n] digit_value_char by auto

lemma decimal_ascii: "list_all (\<lambda>c. byte c < 0x80) (decimal n)"
proof -
  have "byte c < 0x80" if "c \<in> set (decimal n)" for c
    using decimal_digits [OF that] by (auto simp: digit_char_def of_char_of)
  then show ?thesis by (simp add: list_all_iff)
qed

lemma decimal_head: "hd (decimal n) = CHR ''0'' \<Longrightarrow> decimal n = ''0''"
proof (induction n rule: decimal.induct)
  case (1 n)
  show ?case
  proof (cases "n < 10")
    case True
    then show ?thesis using 1(2) by (auto simp: decimal.simps)
  next
    case False
    then have "hd (decimal (n div 10)) = CHR ''0''" using 1(2) by (subst (asm) decimal.simps) (simp add: hd_append)
    then have "decimal (n div 10) = ''0''" using 1(1) False by simp
    then have "decimal_value 0 (decimal (n div 10)) = Some 0" by (simp add: digit_value_def)
    then have "n div 10 = 0" using decimal_value_decimal [of "n div 10"] by simp
    then show ?thesis using False by simp
  qed
qed

lemma whole_decimal: "json_whole (decimal n) = Some (decimal n, [])"
proof -
  have t: "takeWhile json_digit (decimal n) = decimal n" "dropWhile json_digit (decimal n) = []"
    using decimal_is_digit by (auto simp: takeWhile_eq_all_conv dropWhile_eq_Nil_conv)
  have "digits1 (decimal n) = Some (decimal n, [])"
    unfolding digits1_def t using decimal_nonempty [of n] by (cases "decimal n") simp_all
  then show ?thesis using decimal_head [of n] by (cases "decimal n") (auto simp: json_whole_def)
qed

lemma number_itoa: "json_number (itoa x) = Some (itoa x, [])"
proof -
  have s: "sign_part ''-'' (decimal n) = ([], decimal n)" for n
    using decimal_digits [of "hd (decimal n)" n] digit_char_sign by (cases "decimal n") (auto simp: sign_part_def)
  have "json_fraction [] = Some ([], [])" "json_exponent [] = Some ([], [])" by (simp_all add: json_fraction_def json_exponent_def)
  then show ?thesis
    using s [of "nat x"] by (auto simp: json_number_def itoa_def whole_decimal sign_part_def)
qed

subsection \<open>Fuel\<close>

lemma token_shorter: "next_token s = Some (c, r) \<Longrightarrow> length r < length s"
proof -
  assume "next_token s = Some (c, r)"
  then have "skip_ws s = c # r" by (simp add: next_token_def split: list.splits)
  then show ?thesis using length_dropWhile_le [of json_space s] by (simp add: skip_ws_def)
qed

lemma scalar_shorter: "scalar s = Some (v, r) \<Longrightarrow> length r < length s"
  using unquote_shorter [of "tl s"] number_shape [of s _ r]
  by (auto simp: scalar_def has_prefix_iff split: if_splits)

lemma token_scalar: "next_token s = Some (c, r) \<Longrightarrow> length (c # r) \<le> length s"
  using token_shorter [of s c r] by simp

lemma parse_shorter_step:
  assumes "\<And>d s ms r. parse_members k d s = Some (ms, r) \<Longrightarrow> length r < length s"
    and "\<And>d s vs r. parse_elements k d s = Some (vs, r) \<Longrightarrow> length r < length s"
    and "parse_val (Suc k) d s = Some (v, r)"
  shows "length r < length s"
proof -
  obtain c s1 where t: "next_token s = Some (c, s1)" using assms(3) by (auto simp: parse_simps split: option.splits)
  note l = token_shorter [OF t]
  show ?thesis
  proof (cases "c = CHR ''{'' \<or> c = CHR ''[''")
    case False
    then have "scalar (c # s1) = Some (v, r)" using assms(3) t by (simp add: parse_simps)
    from scalar_shorter [OF this] l show ?thesis by simp
  next
    case True
    then obtain d' c' s2 where d: "d = Suc d'" "next_token s1 = Some (c', s2)"
      using assms(3) t by (auto simp: parse_simps split: nat.splits option.splits if_splits)
    then have "r = s2 \<or> (\<exists>ms. parse_members k d' s1 = Some (ms, r)) \<or> (\<exists>vs. parse_elements k d' s1 = Some (vs, r))"
      using assms(3) t True by (auto simp: parse_simps split: if_splits)
    then show ?thesis using l token_shorter [OF d(2)] assms(1,2) by (meson order.strict_trans)
  qed
qed

lemma parse_members_step:
  assumes "parse_members (Suc k) d s = Some (ms, r)"
  obtains r0 key r1 r2 v r3 c r4 where "next_token s = Some (CHR 0x22, r0)" "unquote r0 = Some (key, r1)" "next_token r1 = Some (CHR '':'', r2)"
    "parse_val k d r2 = Some (v, r3)" "next_token r3 = Some (c, r4)" "r = r4 \<or> (\<exists>ms'. parse_members k d r4 = Some (ms', r))"
  using assms by (auto simp: parse_simps split: option.splits if_splits)

lemma parse_shorter:
  "(\<forall>d s v r. parse_val k d s = Some (v, r) \<longrightarrow> length r < length s) \<and>
   (\<forall>d s ms r. parse_members k d s = Some (ms, r) \<longrightarrow> length r < length s) \<and>
   (\<forall>d s vs r. parse_elements k d s = Some (vs, r) \<longrightarrow> length r < length s)"
proof (induction k)
  case (Suc k)
  have "length r < length s" if "parse_val (Suc k) d s = Some (v, r)" for d s v r
    using parse_shorter_step [OF _ _ that] Suc by blast
  moreover have "length r < length s" if p: "parse_members (Suc k) d s = Some (ms, r)" for d s ms r
  proof -
    from p show ?thesis
    proof (rule parse_members_step)
      fix r0 key r1 r2 v r3 c r4
      assume a: "next_token s = Some (CHR 0x22, r0)" "unquote r0 = Some (key, r1)" "next_token r1 = Some (CHR '':'', r2)"
        "parse_val k d r2 = Some (v, r3)" "next_token r3 = Some (c, r4)" "r = r4 \<or> (\<exists>ms'. parse_members k d r4 = Some (ms', r))"
      have "length r3 < length r2" "length r \<le> length r4" using Suc a(4,6) by (blast, fastforce)
      then show ?thesis using a(1,3,5) [THEN token_shorter] unquote_shorter [OF a(2)] by simp
    qed
  qed
  moreover have "length r < length s" if p: "parse_elements (Suc k) d s = Some (vs, r)" for d s vs r
  proof -
    obtain v r1 c r2 where a: "parse_val k d s = Some (v, r1)" "next_token r1 = Some (c, r2)"
      "r = r2 \<or> (\<exists>vs'. parse_elements k d r2 = Some (vs', r))"
      using p by (auto simp: parse_simps split: option.splits if_splits)
    have "length r1 < length s" "length r \<le> length r2" using Suc a(1,3) by (blast, fastforce)
    then show ?thesis using token_shorter [OF a(2)] by simp
  qed
  ultimately show ?case by blast
qed (simp add: parse_simps)

text \<open>More fuel than bytes does not change the result.\<close>

lemma parse_fuel_step:
  "(\<forall>d s. 2 * length s < k \<longrightarrow> parse_val (Suc k) d s = parse_val k d s) \<and>
   (\<forall>d s. 2 * length s < k \<longrightarrow> parse_members (Suc k) d s = parse_members k d s) \<and>
   (\<forall>d s. 2 * length s + 1 < k \<longrightarrow> parse_elements (Suc k) d s = parse_elements k d s)"
proof (induction k)
  case (Suc k)
  have "parse_val (Suc (Suc k)) d s = parse_val (Suc k) d s" if l: "2 * length s < Suc k" for d s
  proof (cases "next_token s")
    case (Some x)
    obtain c r where x: "x = (c, r)" by fastforce
    then have "2 * length r + 1 < k" using token_shorter [of s c r] Some l by simp
    then have "parse_members (Suc k) d' r = parse_members k d' r" "parse_elements (Suc k) d' r = parse_elements k d' r" for d'
      using Suc by simp_all
    then show ?thesis using Some x unfolding parse_val.simps(2) [of "Suc k" d s] parse_val.simps(2) [of k d s] by (simp split: nat.split option.split)
  qed (simp add: parse_simps)
  moreover have "parse_members (Suc (Suc k)) d s = parse_members (Suc k) d s" if l: "2 * length s < Suc k" for d s
  proof -
    have v: "parse_val (Suc k) d r2 = parse_val k d r2" and m: "parse_val k d r2 = Some (v, r3) \<Longrightarrow> next_token r3 = Some (c, r4) \<Longrightarrow>
        parse_members (Suc k) d r4 = parse_members k d r4"
      if t: "next_token s = Some (c0, r0)" "unquote r0 = Some (key, r1)" "next_token r1 = Some (c1, r2)" for c0 r0 key r1 c1 r2 v r3 c r4
    proof -
      have r2: "2 * length r2 < k" using t(1,3) [THEN token_shorter] unquote_shorter [OF t(2)] l by simp
      then show "parse_val (Suc k) d r2 = parse_val k d r2" using Suc by blast
      assume v: "parse_val k d r2 = Some (v, r3)" "next_token r3 = Some (c, r4)"
      have "length r3 < length r2" using parse_shorter [of k] v(1) by blast
      then have "2 * length r4 < k" using r2 token_shorter [OF v(2)] by simp
      then show "parse_members (Suc k) d r4 = parse_members k d r4" using Suc by blast
    qed
    show ?thesis unfolding parse_members.simps(2) [of "Suc k" d s] parse_members.simps(2) [of k d s] by (simp add: v m split: option.split)
  qed
  moreover have "parse_elements (Suc (Suc k)) d s = parse_elements (Suc k) d s" if l: "2 * length s + 1 < Suc k" for d s
  proof -
    have v: "parse_val (Suc k) d s = parse_val k d s" using Suc l by simp
    have m: "parse_elements (Suc k) d r1 = parse_elements k d r1" if "parse_val k d s = Some (v, r)" "next_token r = Some (c, r1)" for v r c r1
    proof -
      have "length r < length s" using parse_shorter [of k] that(1) by blast
      then have "2 * length r1 + 1 < k" using l token_shorter [OF that(2)] by simp
      then show ?thesis using Suc by blast
    qed
    show ?thesis unfolding parse_elements.simps(2) [of "Suc k" d s] parse_elements.simps(2) [of k d s] by (simp add: v m split: option.split)
  qed
  ultimately show ?case by blast
qed simp

lemma parse_fuel:
  "2 * length s < k \<Longrightarrow> parse_val k max_depth s = parse_value s"
proof (induction k)
  case (Suc k)
  show ?case
  proof (cases "2 * length s < k")
    case True
    then show ?thesis using Suc(1) parse_fuel_step [of k] by simp
  next
    case False
    then have "k = 2 * length s" using Suc(2) by simp
    then show ?thesis by (simp add: parse_value_def)
  qed
qed simp

subsection \<open>Reading back\<close>

lemma token_char: "\<not> json_space c \<Longrightarrow> next_token (c # r) = Some (c, r)"
  by (simp add: next_token_def skip_ws_def)

lemma json_chars [simp]:
  "\<not> json_space (CHR 0x22)" "\<not> json_space (CHR ''{'')" "\<not> json_space (CHR ''['')" "\<not> json_space (CHR ''}'')"
  "\<not> json_space (CHR '']'')" "\<not> json_space (CHR '':'')" "\<not> json_space (CHR '','')"
  by (simp_all add: json_space_def)

lemma number_chars:
  assumes "c = CHR ''-'' \<or> json_digit c"
  shows "\<not> json_space c" "c \<noteq> CHR 0x22" "c \<noteq> CHR ''{''" "c \<noteq> CHR ''[''" "c \<noteq> CHR '']''"
    "c \<noteq> CHR ''t''" "c \<noteq> CHR ''f''" "c \<noteq> CHR ''n''"
  using assms by (auto simp: json_space_def digit_value_def Let_def)

lemma number_head:
  assumes "json_number t = Some (t, [])"
  obtains c t' where "t = c # t'" "c = CHR ''-'' \<or> json_digit c"
  using number_shape [OF assms] by (cases t) auto

lemma print_start:
  assumes "json_ok v"
  obtains c t where "print_json v = c # t" "\<not> json_space c" "c \<noteq> CHR '']''"
proof (cases v)
  case (JNum t)
  then have "json_number t = Some (t, [])" using assms by simp
  then show ?thesis
  proof (rule number_head)
    fix c t'
    assume "t = c # t'" "c = CHR ''-'' \<or> json_digit c"
    then show ?thesis using that [of c t'] number_chars [of c] JNum by simp
  qed
next
  case (JBool b)
  then show ?thesis using that by (cases b) (auto simp: json_space_def)
qed (use that in \<open>auto simp: quote_def json_space_def\<close>)

lemma scalar_number:
  assumes "json_number t = Some (t, [])" "number_ends r" "0 < k"
  shows "parse_val k d (t @ r) = Some (JNum t, r)"
proof -
  obtain c t' where t: "t = c # t'" "c = CHR ''-'' \<or> json_digit c" by (rule number_head [OF assms(1)])
  obtain k' where k: "k = Suc k'" using assms(3) by (cases k) auto
  have "json_number (c # t' @ r) = Some (c # t', r)" using number_append [of t t "[]" r] assms(1,2) t(1) by simp
  then have "scalar (c # t' @ r) = Some (JNum t, r)" using number_chars [OF t(2)] t(1) by (simp add: scalar_def)
  then show ?thesis using number_chars [OF t(2)] t(1) k by (simp add: parse_simps token_char)
qed

lemma scalar_string: "scalar (quote t @ r) = Some (JStr (to_valid t), r)"
  by (simp add: scalar_def quote_def unquote_quote)

lemma depth_parts: "v \<in> set vs \<Longrightarrow> json_depth (JArr vs) \<le> Suc d \<Longrightarrow> json_depth v \<le> d"
  "m \<in> set ms \<Longrightarrow> json_depth (JObj ms) \<le> Suc d \<Longrightarrow> json_depth (snd m) \<le> d"
  by auto

lemma stops_marks [simp]: "number_ends (CHR ''}'' # r)" "number_ends (CHR '']'' # r)" "number_ends (CHR '','' # r)" "number_ends []" "number_ends (CHR 0x0A # r)"
  by (simp_all add: number_ends_def digit_value_def)

lemma parse_member:
  assumes "parse_val k d (print_json v @ r) = Some (v', r)" "r = c # r'" "c = CHR ''}'' \<or> c = CHR '',''"
  shows "parse_members (Suc k) d (quote key @ CHR '':'' # print_json v @ r) =
    (if c = CHR ''}'' then Some ([(to_valid key, v')], r')
     else map_option (\<lambda>(ms, r). ((to_valid key, v') # ms, r)) (parse_members k d r'))"
  using assms by (auto simp: parse_simps token_char quote_def unquote_quote)

lemma parse_print_all:
  "json_ok v \<Longrightarrow> json_depth v \<le> d \<Longrightarrow> (\<And>t. v = JNum t \<Longrightarrow> number_ends r) \<Longrightarrow> 2 * length (print_json v @ r) < k \<Longrightarrow>
     parse_val k d (print_json v @ r) = Some (valid_json v, r)"
  "ms \<noteq> [] \<Longrightarrow> list_all (\<lambda>m. json_ok (snd m) \<and> json_depth (snd m) \<le> d) ms \<Longrightarrow> 2 * length (print_members ms @ CHR ''}'' # r) < k \<Longrightarrow>
     parse_members k d (print_members ms @ CHR ''}'' # r) = Some (map (\<lambda>(k, v). (to_valid k, valid_json v)) ms, r)"
  "vs \<noteq> [] \<Longrightarrow> list_all (\<lambda>v. json_ok v \<and> json_depth v \<le> d) vs \<Longrightarrow> 2 * length (print_elements vs @ CHR '']'' # r) + 1 < k \<Longrightarrow>
     parse_elements k d (print_elements vs @ CHR '']'' # r) = Some (map valid_json vs, r)"
proof (induction v and ms and vs arbitrary: d r k and d r k and d r k rule: print_json_print_members_print_elements.induct)
  case 1
  then show ?case by (cases k) (auto simp: parse_simps token_char json_space_def scalar_def)
next
  case (2 b)
  then show ?case by (cases k) (auto simp: parse_simps token_char json_space_def scalar_def)
next
  case (3 t)
  then show ?case using scalar_number [of t r k d] by simp
next
  case (4 t)
  then obtain k' where "k = Suc k'" by (cases k) auto
  then show ?case using scalar_string [of t r] by (simp add: parse_simps token_char quote_def)
next
  case (5 vs)
  then obtain k' d' where k: "k = Suc k'" "d = Suc d'" by (cases k; cases d) auto
  show ?case
  proof (cases vs)
    case Nil
    then show ?thesis using k by (simp add: parse_simps token_char)
  next
    case (Cons v ws)
    have ok: "list_all (\<lambda>v. json_ok v \<and> json_depth v \<le> d') vs"
      using 5(2,3) depth_parts(1) [of _ vs d'] k(2) by (auto simp: list_all_iff)
    then have "parse_elements k' d' (print_elements vs @ CHR '']'' # r) = Some (map valid_json vs, r)"
      using 5(1) [of d' r k'] 5(5) k Cons by simp
    moreover have "json_ok v" using ok Cons by simp
    then obtain c t where "print_json v = c # t" "\<not> json_space c" "c \<noteq> CHR '']''" by (rule print_start)
    then have "\<exists>t. print_elements vs @ CHR '']'' # r = c # t \<and> \<not> json_space c \<and> c \<noteq> CHR '']''" using Cons by (cases ws) auto
    ultimately show ?thesis using k by (auto simp: parse_simps token_char)
  qed
next
  case (6 ms)
  then obtain k' d' where k: "k = Suc k'" "d = Suc d'" by (cases k; cases d) auto
  show ?case
  proof (cases ms)
    case Nil
    then show ?thesis using k by (simp add: parse_simps token_char)
  next
    case (Cons m ns)
    have "list_all (\<lambda>m. json_ok (snd m) \<and> json_depth (snd m) \<le> d') ms"
      using 6(2,3) depth_parts(2) [of _ ms d'] k(2) by (auto simp: list_all_iff)
    then have "parse_members k' d' (print_members ms @ CHR ''}'' # r) = Some (map (\<lambda>(k, v). (to_valid k, valid_json v)) ms, r)"
      using 6(1) [of d' r k'] 6(5) k Cons by simp
    moreover have "\<exists>t. print_members ms @ CHR ''}'' # r = CHR 0x22 # t" using Cons by (cases m; cases ns) (auto simp: quote_def)
    ultimately show ?thesis using k by (auto simp: parse_simps token_char)
  qed
next
  case (8 key v)
  then obtain k' where k: "k = Suc k'" by (cases k) auto
  have "parse_val k' d (print_json v @ CHR ''}'' # r) = Some (valid_json v, CHR ''}'' # r)"
    using 8(1) [of d "CHR ''}'' # r" k'] 8(3,4) k by (simp add: quote_def)
  from parse_member [OF this refl] show ?case using k by simp
next
  case (9 key v m ms)
  then obtain k' where k: "k = Suc k'" by (cases k) auto
  let ?r = "CHR '','' # print_members (m # ms) @ CHR ''}'' # r"
  have v: "parse_val k' d (print_json v @ ?r) = Some (valid_json v, ?r)"
    using 9(1) [of d ?r k'] 9(4,5) k by (simp add: quote_def)
  have "parse_members k' d (print_members (m # ms) @ CHR ''}'' # r) = Some (map (\<lambda>(k, v). (to_valid k, valid_json v)) (m # ms), r)"
    using 9(2) [of d r k'] 9(4,5) k by (simp add: quote_def)
  then show ?case using parse_member [OF v refl, of key] k by simp
next
  case (11 v)
  then obtain k' where k: "k = Suc k'" by (cases k) auto
  have "parse_val k' d (print_json v @ CHR '']'' # r) = Some (valid_json v, CHR '']'' # r)"
    using 11(1) [of d "CHR '']'' # r" k'] 11(3,4) k by simp
  then show ?case using k by (simp add: parse_simps token_char)
next
  case (12 v w ws)
  then obtain k' where k: "k = Suc k'" by (cases k) auto
  let ?r = "CHR '','' # print_elements (w # ws) @ CHR '']'' # r"
  have v: "parse_val k' d (print_json v @ ?r) = Some (valid_json v, ?r)"
    using 12(1) [of d ?r k'] 12(4,5) k by simp
  have "parse_elements k' d (print_elements (w # ws) @ CHR '']'' # r) = Some (map valid_json (w # ws), r)"
    using 12(2) [of d r k'] 12(4,5) k by simp
  then show ?case using v k by (simp add: parse_simps token_char)
qed simp_all

lemma parse_print:
  "json_ok v \<Longrightarrow> json_depth v \<le> max_depth \<Longrightarrow> (\<And>t. v = JNum t \<Longrightarrow> number_ends r) \<Longrightarrow> parse_value (print_json v @ r) = Some (valid_json v, r)"
  unfolding parse_value_def by (rule parse_print_all(1)) simp_all

subsection \<open>Sizes\<close>

lemma length_quote_body: "length (quote_body s) \<le> 6 * length s"
proof (induction s rule: quote_body.induct)
  case (1 s)
  show ?case
  proof (cases s)
    case Nil
    then show ?thesis by (simp add: quote_body.simps)
  next
    case (Cons c t)
    have b: "length (quote_byte c) \<le> 6" by (simp add: quote_byte_def split: option.splits)
    have r: "length (quote_rune x) \<le> 6 \<or> quote_rune x = x" for x by (simp add: quote_rune_def)
    consider (ascii) "byte c < 0x80" | (bad) "\<not> byte c < 0x80" "rune_len s = 0" | (rune) k where "\<not> byte c < 0x80" "rune_len s = Suc k"
      by (cases "rune_len s") auto
    then show ?thesis
    proof cases
      case ascii
      then show ?thesis using 1(1) [OF Cons ascii] Cons b by (subst quote_body.simps) simp
    next
      case bad
      then show ?thesis using 1(2) [OF Cons bad] Cons by (subst quote_body.simps) simp
    next
      case rune
      then have "length (quote_rune (take (Suc k) s)) \<le> 6 * Suc k" using r [of "take (Suc k) s"] by auto
      moreover have "k \<le> length t" using rune_len_bounds [of s] rune(2) Cons by simp
      ultimately show ?thesis using 1(3) [OF Cons rune] Cons rune by (subst quote_body.simps) simp
    qed
  qed
qed

lemma length_quote: "length (quote s) \<le> 6 * length s + 2"
  using length_quote_body [of s] by (simp add: quote_def)

subsection \<open>Strings read are UTF-8\<close>

lemma piece_ascii: "byte c < 0x80 \<Longrightarrow> utf8_piece [c]"
  by (simp add: utf8_piece_def)

lemma piece_rune:
  assumes "\<And>t. rune_len (x @ t) = length x" "x \<noteq> []" "\<not> byte (hd x) < 0x80"
  shows "utf8_piece x"
proof -
  have "to_valid (x @ t) = x @ to_valid t" for t
  proof -
    obtain c y where x: "x = c # y" using assms(2) by (cases x) auto
    show ?thesis using assms(1) [of t] assms(3) x by (subst to_valid.simps) simp
  qed
  then show ?thesis by (simp add: utf8_piece_def)
qed

lemma byte_char_of: "n < 256 \<Longrightarrow> byte (char_of n) = n"
  by (simp add: of_char_of)

lemma cont_char_of: "cont_byte (char_of (0x80 + n mod 64 :: nat))"
  by (simp add: cont_byte_def Let_def byte_char_of)

lemma piece_encode:
  assumes "n < 0xD800 \<or> 0xE000 \<le> n" "n < 0x110000"
  shows "utf8_piece (encode_rune n)"
proof -
  consider "n < 0x80" | "0x80 \<le> n" "n < 0x800" | "0x800 \<le> n" "n < 0x10000" | "0x10000 \<le> n" by linarith
  then show ?thesis
  proof cases
    case 1
    then show ?thesis by (simp add: encode_ascii piece_ascii byte_char_of)
  next
    case 2
    then have b: "byte (char_of (0xC0 + n div 64)) = 0xC0 + n div 64" "2 \<le> n div 64" "n div 64 < 32"
      by (auto simp: byte_char_of less_mult_imp_div_less Suc_le_eq div_greater_zero_iff intro: byte_char_of)
    show ?thesis using 2 b by (intro piece_rune) (simp_all add: encode_rune_def bytes_def cont_char_of)
  next
    case 3
    define a m where "a = n div 4096" and "m = n div 64 mod 64"
    have e: "n div 64 = 64 * a + m" using mult_div_mod_eq [of 64 "n div 64"] by (simp add: a_def m_def div_mult2_eq [symmetric])
    have m: "m < 64" by (simp add: m_def)
    have n: "32 \<le> n div 64" "n div 64 < 1024" "n div 64 < 864 \<or> 896 \<le> n div 64" using 3 assms(1) by linarith+
    then have a: "a < 16" "a = 0 \<longrightarrow> 32 \<le> m" "a = 13 \<longrightarrow> m < 32" using e m by linarith+
    have b: "byte (char_of (0xE0 + a)) = 0xE0 + a" "byte (char_of (0x80 + m)) = 0x80 + m" using a(1) m by (simp_all add: byte_char_of)
    have "encode_rune n = [char_of (0xE0 + a), char_of (0x80 + m), char_of (0x80 + n mod 64)]"
      using 3 by (simp add: encode_rune_def bytes_def a_def m_def)
    then show ?thesis using a m by (intro piece_rune) (auto simp: b cont_char_of)
  next
    case 4
    define a m where "a = n div 262144" and "m = n div 4096 mod 64"
    have e: "n div 4096 = 64 * a + m" using mult_div_mod_eq [of 64 "n div 4096"] by (simp add: a_def m_def div_mult2_eq [symmetric])
    have m: "m < 64" by (simp add: m_def)
    have n: "16 \<le> n div 4096" "n div 4096 < 272" using 4 assms(2) by linarith+
    then have a: "a \<le> 4" "a = 0 \<longrightarrow> 16 \<le> m" "a = 4 \<longrightarrow> m < 16" using e m by linarith+
    have b: "byte (char_of (0xF0 + a)) = 0xF0 + a" "byte (char_of (0x80 + m)) = 0x80 + m" using a(1) m by (simp_all add: byte_char_of)
    have "encode_rune n = [char_of (0xF0 + a), char_of (0x80 + m), char_of (0x80 + n div 64 mod 64), char_of (0x80 + n mod 64)]"
      using 4 by (simp add: encode_rune_def bytes_def a_def m_def)
    then show ?thesis using a m by (intro piece_rune) (auto simp: b cont_char_of)
  qed
qed

lemma piece_error: "utf8_piece rune_error"
  by (rule piece_rune) (simp_all add: rune_error_def cont_byte_def)

lemma hex_digit_less: "hex_digit c = Some d \<Longrightarrow> d < 16"
  by (auto simp: hex_digit_def hex_value_def Let_def split: if_splits)

lemma hex4_Some:
  assumes "hex4 s = Some n"
  obtains a b c d where "map hex_digit (take 4 s) = [Some a, Some b, Some c, Some d]" "n = value16 [a, b, c, d]" "4 \<le> length s"
proof -
  obtain a b c d where m: "map hex_digit (take 4 s) = [Some a, Some b, Some c, Some d]" "n = value16 [a, b, c, d]"
    using assms by (auto simp: hex4_def split: list.splits option.splits)
  from arg_cong [OF m(1), of length] show ?thesis using that [OF m] by simp
qed

lemma hex4_less:
  assumes "hex4 s = Some n"
  shows "n < 0x10000"
proof -
  obtain a b c d where m: "map hex_digit (take 4 s) = [Some a, Some b, Some c, Some d]" and n: "n = value16 [a, b, c, d]"
    by (rule hex4_Some [OF assms])
  have "\<forall>x \<in> set (map hex_digit (take 4 s)). \<forall>e. x = Some e \<longrightarrow> e < 16" using hex_digit_less by auto
  then have "a < 16" "b < 16" "c < 16" "d < 16" unfolding m by auto
  then show ?thesis by (simp add: n value16_def)
qed

lemma unescape_piece: "unescape s = Some (x, k) \<Longrightarrow> utf8_piece x"
proof -
  assume u: "unescape s = Some (x, k)"
  then obtain e s' where s: "s = e # s'" by (cases s) (auto simp: unescape_def)
  show ?thesis
  proof (cases "e = CHR ''u''")
    case False
    then obtain b where "map_of escapes e = Some b" "x = [char_of b]" using u s by (auto simp: unescape_def split: option.splits)
    moreover have "\<forall>(c, b) \<in> set escapes. b < 0x80" by (simp add: escapes_def)
    ultimately have "b < 0x80" using map_of_SomeD [of escapes e b] by auto
    then show ?thesis using \<open>x = [char_of b]\<close> by (simp add: piece_ascii byte_char_of)
  next
    case True
    then obtain n where n: "hex4 s' = Some n" using u s by (auto simp: unescape_def split: option.splits)
    have low: "low_surrogate t = Some m \<Longrightarrow> 0xDC00 \<le> m \<and> m < 0xE000" for t m
      by (auto simp: low_surrogate_def split: option.splits if_splits)
    consider "x = rune_error" | "x = encode_rune n" "n < 0xD800 \<or> 0xE000 \<le> n"
      | m where "x = encode_rune (0x10000 + (n - 0xD800) * 1024 + (m - 0xDC00))" "0xD800 \<le> n" "n < 0xDC00" "0xDC00 \<le> m" "m < 0xE000"
      using u s True n low by (auto simp: unescape_def split: option.splits if_splits)
    then show ?thesis
      using piece_error hex4_less [OF n] by cases (auto intro!: piece_encode)
  qed
qed

lemma string_step_piece: "string_step s = Some (x, k) \<Longrightarrow> utf8_piece x"
proof -
  assume st: "string_step s = Some (x, k)"
  then obtain c s' where s: "s = c # s'" by (cases s) (auto simp: string_step_def)
  consider "unescape s' = Some (x, k)" | "x = [c]" "byte c < 0x80" | "x = rune_error"
    | "x = take (Suc k) s" "rune_len s = Suc k" "\<not> byte c < 0x80"
    using st s by (auto simp: string_step_def split: if_splits nat.splits)
  then show ?thesis
  proof cases
    case 4
    have "length x = Suc k" using rune_len_bounds [of s] 4(1,2) by simp
    then show ?thesis using rune_len_append [OF 4(2)] 4 s by (intro piece_rune) auto
  qed (use unescape_piece piece_ascii piece_error in auto)
qed

lemma unquote_valid: "unquote s = Some (t, r) \<Longrightarrow> to_valid t = t"
proof (induction s arbitrary: t rule: unquote.induct)
  case (1 s)
  show ?case
  proof (cases s)
    case Nil
    then show ?thesis using 1(2) by (simp add: unquote.simps)
  next
    case (Cons c s')
    show ?thesis
    proof (cases "c = CHR 0x22")
      case True
      then show ?thesis using 1(2) Cons by simp
    next
      case False
      then obtain x k t' where x: "string_step s = Some (x, k)" "unquote (drop k s') = Some (t', r)" "t = x @ t'"
        using 1(2) Cons by (subst (asm) unquote.simps) (auto split: option.splits)
      then have "to_valid t' = t'" using 1(1) [OF Cons False x(1) refl] by blast
      then show ?thesis using string_step_piece [OF x(1)] x(3) by (simp add: utf8_piece_def)
    qed
  qed
qed

lemma scalar_valid: "scalar s = Some (v, r) \<Longrightarrow> valid_json v = v"
  using unquote_valid [of "tl s"] by (auto simp: scalar_def split: if_splits)

lemma parse_valid_all:
  "(\<forall>d s v r. parse_val k d s = Some (v, r) \<longrightarrow> valid_json v = v) \<and>
   (\<forall>d s ms r. parse_members k d s = Some (ms, r) \<longrightarrow> map (\<lambda>(k, v). (to_valid k, valid_json v)) ms = ms) \<and>
   (\<forall>d s vs r. parse_elements k d s = Some (vs, r) \<longrightarrow> map valid_json vs = vs)"
proof (induction k)
  case (Suc k)
  have v: "\<And>d s v r. parse_val k d s = Some (v, r) \<Longrightarrow> valid_json v = v"
    and m: "\<And>d s ms r. parse_members k d s = Some (ms, r) \<Longrightarrow> map (\<lambda>(k, v). (to_valid k, valid_json v)) ms = ms"
    and e: "\<And>d s vs r. parse_elements k d s = Some (vs, r) \<Longrightarrow> map valid_json vs = vs"
    using Suc by blast+
  have "valid_json v = v" if "parse_val (Suc k) d s = Some (v, r)" for d s v r
    using that by (auto simp: parse_simps split: option.splits if_splits nat.splits) (erule m e scalar_valid)+
  moreover have "map (\<lambda>(k, v). (to_valid k, valid_json v)) ms = ms" if "parse_members (Suc k) d s = Some (ms, r)" for d s ms r
    using that by (auto simp: parse_simps split: option.splits if_splits) (erule v m unquote_valid)+
  moreover have "map valid_json vs = vs" if "parse_elements (Suc k) d s = Some (vs, r)" for d s vs r
    using that by (auto simp: parse_simps split: option.splits if_splits) (erule v e)+
  ultimately show ?case by blast
qed (simp add: parse_simps)

lemma parse_valid: "parse_value s = Some (v, r) \<Longrightarrow> valid_json v = v"
  unfolding parse_value_def using parse_valid_all by blast

subsection \<open>A value and what follows it\<close>

lemma unquote_quote_mark: "unquote s = Some (t, r) \<Longrightarrow> CHR 0x22 \<in> set s"
proof (induction s arbitrary: t rule: unquote.induct)
  case (1 s)
  then show ?case
  proof (cases s)
    case (Cons c s')
    show ?thesis
    proof (cases "c = CHR 0x22")
      case False
      then obtain x k t' where x: "string_step s = Some (x, k)" "unquote (drop k s') = Some (t', r)"
        using 1(2) Cons by (subst (asm) unquote.simps) (auto split: option.splits)
      then have "CHR 0x22 \<in> set (drop k s')" using 1(1) [OF Cons False x(1) refl] by blast
      then show ?thesis using Cons by (auto dest: in_set_dropD)
    qed (use Cons in simp)
  qed (simp add: unquote.simps)
qed

lemma rune_len_tail: "rune_len (c # w) = Suc j \<Longrightarrow> b \<in> set (take j w) \<Longrightarrow> 0x80 \<le> byte b"
  by (cases w; cases "tl w"; cases "tl (tl w)") (auto simp: Let_def cont_byte_def split: if_splits)

lemma hex4_append:
  assumes "hex4 s = Some n"
  shows "hex4 (s @ q) = Some n" "drop 4 (s @ q) = drop 4 s @ q"
proof -
  have "4 \<le> length s" by (rule hex4_Some [OF assms])
  then show "hex4 (s @ q) = Some n" "drop 4 (s @ q) = drop 4 s @ q" using assms by (simp_all add: hex4_def)
qed

lemma rune_len_zero_append:
  assumes "rune_len (c # s) = 0" "CHR 0x22 \<in> set s"
  shows "rune_len (c # s @ q) = 0"
proof (rule ccontr)
  assume "rune_len (c # s @ q) \<noteq> 0"
  then obtain j where j: "rune_len (c # s @ q) = Suc j" by (cases "rune_len (c # s @ q)") auto
  show False
  proof (cases "j \<le> length s")
    case True
    then show False using rune_len_append [OF j, of "drop j s"] assms(1) by simp
  next
    case False
    then have "CHR 0x22 \<in> set (take j (s @ q))" using assms(2) by simp
    then show False using rune_len_tail [OF j] by fastforce
  qed
qed

lemma low_surrogate_append:
  assumes "unquote z = Some (t, r)"
  shows "low_surrogate (z @ q) = low_surrogate z"
proof (cases "has_prefix [CHR 0x5C, CHR ''u''] (z @ q)")
  case True
  obtain c z' where z: "z = c # z'" using assms by (cases z) (auto simp: unquote.simps)
  then have "unescape z' \<noteq> None"
    using assms True by (subst (asm) unquote.simps) (auto simp: string_step_def split: option.splits)
  moreover then obtain e z2 where "z' = e # z2" by (cases z') (auto simp: unescape_def)
  ultimately have h: "z = CHR 0x5C # CHR ''u'' # z2" "hex4 z2 \<noteq> None" using z True by (auto simp: unescape_def split: option.splits)
  then show ?thesis using hex4_append [of z2 _ q] by (auto simp: low_surrogate_def)
next
  case False
  then have "\<not> has_prefix [CHR 0x5C, CHR ''u''] z" by (auto simp: has_prefix_iff)
  then show ?thesis using False by (simp add: low_surrogate_def)
qed

lemma low_surrogate_more: "low_surrogate z = Some m \<Longrightarrow> low_surrogate (z @ q) = Some m"
  by (auto simp: low_surrogate_def has_prefix_iff hex4_append(1) split: if_splits option.splits)

lemma unescape_append:
  assumes "unescape s = Some (x, k)" "unquote (drop k s) = Some (t, r)"
  shows "unescape (s @ q) = Some (x, k)"
proof -
  obtain e z where s: "s = e # z" using assms(1) by (cases s) (auto simp: unescape_def)
  show ?thesis
  proof (cases "e = CHR ''u''")
    case True
    then obtain n where n: "hex4 z = Some n" using assms(1) s by (auto simp: unescape_def split: option.splits)
    have low: "low_surrogate (drop 4 z @ q) = low_surrogate (drop 4 z)" if "k = 5"
      using low_surrogate_append [of "drop 4 z" t r q] assms(2) s that by simp
    show ?thesis
      using assms(1) s True n hex4_append [OF n, of q] low low_surrogate_more [of "drop 4 z" _ q]
      by (auto simp: unescape_def split: option.splits if_splits)
  qed (use assms(1) s in \<open>auto simp: unescape_def\<close>)
qed

lemma string_step_append:
  assumes "string_step (c # s) = Some (x, k)" "unquote (drop k s) = Some (t, r)"
  shows "string_step (c # s @ q) = Some (x, k)"
proof -
  consider "c = CHR 0x5C" | "c \<noteq> CHR 0x5C" "byte c < 0x80" | "c \<noteq> CHR 0x5C" "\<not> byte c < 0x80" "rune_len (c # s) = 0"
    | j where "c \<noteq> CHR 0x5C" "\<not> byte c < 0x80" "rune_len (c # s) = Suc j"
    by (cases "rune_len (c # s)") auto
  then show ?thesis
  proof cases
    case 1
    then show ?thesis using unescape_append [of s x k t r q] assms by (simp add: string_step_def)
  next
    case 3
    then have "k = 0" using assms(1) by (auto simp: string_step_def split: if_splits)
    then have "CHR 0x22 \<in> set s" using unquote_quote_mark assms(2) by fastforce
    then show ?thesis using rune_len_zero_append [OF 3(3)] 3 assms(1) by (simp add: string_step_def)
  next
    case 4
    have j: "j \<le> length s" using rune_len_bounds [of "c # s"] 4(3) by simp
    have "rune_len (c # s @ q) = Suc j" using rune_len_append [OF 4(3), of "drop j s @ q"] j by (simp flip: append_assoc)
    then show ?thesis using 4 assms(1) j by (auto simp: string_step_def split: if_splits)
  qed (use assms(1) in \<open>auto simp: string_step_def\<close>)
qed

lemma unquote_append: "unquote s = Some (t, r) \<Longrightarrow> unquote (s @ q) = Some (t, r @ q)"
proof (induction s arbitrary: t rule: unquote.induct)
  case (1 s)
  then show ?case
  proof (cases s)
    case (Cons c s')
    show ?thesis
    proof (cases "c = CHR 0x22")
      case False
      then obtain x k t' where x: "string_step s = Some (x, k)" "unquote (drop k s') = Some (t', r)" "t = x @ t'"
        using 1(2) Cons by (subst (asm) unquote.simps) (auto split: option.splits)
      then have u: "unquote (drop k s' @ q) = Some (t', r @ q)" using 1(1) [OF Cons False x(1) refl] by blast
      have "k \<le> length s'" using x(2) by (cases "k \<le> length s'") (auto simp: unquote.simps)
      then have "drop k (s' @ q) = drop k s' @ q" by simp
      moreover have "string_step (c # s' @ q) = Some (x, k)" using string_step_append x(1,2) Cons by blast
      ultimately show ?thesis using u x(3) Cons False by (simp only: append_Cons, subst unquote.simps) simp
    qed (use 1(2) Cons in simp)
  qed (simp add: unquote.simps)
qed

lemma token_append: "next_token s = Some (c, r) \<Longrightarrow> next_token (s @ q) = Some (c, r @ q)"
proof -
  assume "next_token s = Some (c, r)"
  then have d: "dropWhile json_space s = c # r" by (simp add: next_token_def skip_ws_def split: list.splits)
  then have "\<not> json_space c" by (metis list.distinct(1) list.sel(1) hd_dropWhile)
  then have "dropWhile json_space (s @ q) = c # r @ q" using d by (induction s) (auto split: if_splits)
  then show ?thesis by (simp add: next_token_def skip_ws_def)
qed

lemma scalar_append:
  assumes "scalar s = Some (v, r)" "\<And>t. v = JNum t \<Longrightarrow> r = [] \<Longrightarrow> number_ends q"
  shows "scalar (s @ q) = Some (v, r @ q)"
proof (cases v)
  case (JNum t)
  then have n: "json_number s = Some (t, r)" using assms(1) by (auto simp: scalar_def split: if_splits)
  from number_shape [OF this] obtain c s' where s: "s = c # s'" "c = CHR ''-'' \<or> json_digit c"
    by (cases t) (auto)
  then show ?thesis
    using number_append [OF n, of q] assms(2) JNum number_chars [OF s(2)] by (simp add: scalar_def)
next
  case (JStr t)
  then obtain s' where "s = CHR 0x22 # s'" "unquote s' = Some (t, r)"
    using assms(1) by (auto simp: scalar_def has_prefix_iff split: if_splits)
  then show ?thesis using unquote_append [of s' t r q] JStr by (simp add: scalar_def)
qed (use assms(1) in \<open>auto simp: scalar_def has_prefix_iff split: if_splits\<close>)

lemma parse_append_val:
  assumes "\<And>d s ms r. parse_members k d s = Some (ms, r) \<Longrightarrow> parse_members k d (s @ q) = Some (ms, r @ q)"
    and "\<And>d s vs r. parse_elements k d s = Some (vs, r) \<Longrightarrow> parse_elements k d (s @ q) = Some (vs, r @ q)"
    and "parse_val (Suc k) d s = Some (v, r)" "\<And>t. v = JNum t \<Longrightarrow> r = [] \<Longrightarrow> number_ends q"
  shows "parse_val (Suc k) d (s @ q) = Some (v, r @ q)"
proof -
  obtain c s1 where t: "next_token s = Some (c, s1)" using assms(3) by (auto simp: parse_simps split: option.splits)
  note t' = token_append [OF t, of q]
  show ?thesis
  proof (cases "c = CHR ''{'' \<or> c = CHR ''[''")
    case False
    then have "scalar (c # s1) = Some (v, r)" using assms(3) t by (simp add: parse_simps)
    from scalar_append [OF this, of q] assms(4) False show ?thesis using t' by (simp add: parse_simps)
  next
    case True
    then obtain d' c' s2 where d: "d = Suc d'" "next_token s1 = Some (c', s2)"
      using assms(3) t by (auto simp: parse_simps split: nat.splits option.splits if_splits)
    note d' = token_append [OF d(2), of q]
    show ?thesis using assms(3) t t' d(1,2) d' True
      by (auto simp: parse_simps assms(1,2) split: if_splits)
  qed
qed

lemma parse_append_all:
  "(\<forall>d s v r. parse_val k d s = Some (v, r) \<longrightarrow> (\<forall>t. v = JNum t \<longrightarrow> r = [] \<longrightarrow> number_ends q) \<longrightarrow> parse_val k d (s @ q) = Some (v, r @ q)) \<and>
   (\<forall>d s ms r. parse_members k d s = Some (ms, r) \<longrightarrow> parse_members k d (s @ q) = Some (ms, r @ q)) \<and>
   (\<forall>d s vs r. parse_elements k d s = Some (vs, r) \<longrightarrow> parse_elements k d (s @ q) = Some (vs, r @ q))"
proof (induction k)
  case (Suc k)
  have "parse_val (Suc k) d (s @ q) = Some (v, r @ q)"
    if "parse_val (Suc k) d s = Some (v, r)" "\<forall>t. v = JNum t \<longrightarrow> r = [] \<longrightarrow> number_ends q" for d s v r
    using parse_append_val [OF _ _ that(1)] Suc that(2) by blast
  moreover have "parse_members (Suc k) d (s @ q) = Some (ms, r @ q)" if p: "parse_members (Suc k) d s = Some (ms, r)" for d s ms r
    using p
  proof (rule parse_members_step)
    fix r0 key r1 r2 v r3 c r4
    assume a: "next_token s = Some (CHR 0x22, r0)" "unquote r0 = Some (key, r1)" "next_token r1 = Some (CHR '':'', r2)"
      "parse_val k d r2 = Some (v, r3)" "next_token r3 = Some (c, r4)"
    have "r3 \<noteq> []" using a(5) by (auto simp: next_token_def skip_ws_def)
    then have v: "parse_val k d (r2 @ q) = Some (v, r3 @ q)" using Suc a(4) by blast
    have m: "parse_members k d (r4 @ q) = Some (ms', r' @ q)" if "parse_members k d r4 = Some (ms', r')" for ms' r' using Suc that by blast
    show ?thesis
      using p a v a(1,3,5) [THEN token_append, of q] unquote_append [OF a(2), of q]
      by (auto simp: parse_simps m split: if_splits)
  qed
  moreover have "parse_elements (Suc k) d (s @ q) = Some (vs, r @ q)" if p: "parse_elements (Suc k) d s = Some (vs, r)" for d s vs r
  proof -
    obtain v r1 c r2 where a: "parse_val k d s = Some (v, r1)" "next_token r1 = Some (c, r2)"
      using p by (auto simp: parse_simps split: option.splits if_splits)
    have "r1 \<noteq> []" using a(2) by (auto simp: next_token_def skip_ws_def)
    then have v: "parse_val k d (s @ q) = Some (v, r1 @ q)" using Suc a(1) by blast
    have m: "parse_elements k d (r2 @ q) = Some (vs', r' @ q)" if "parse_elements k d r2 = Some (vs', r')" for vs' r' using Suc that by blast
    show ?thesis using p a v token_append [OF a(2), of q] by (auto simp: parse_simps m split: if_splits)
  qed
  ultimately show ?case by blast
qed (simp add: parse_simps)

lemma parse_append:
  assumes "parse_value s = Some (v, r)" "\<And>t. v = JNum t \<Longrightarrow> r = [] \<Longrightarrow> number_ends q"
  shows "parse_value (s @ q) = Some (v, r @ q)"
proof -
  let ?k = "Suc (2 * length (s @ q))"
  have "parse_val ?k max_depth s = Some (v, r)" using parse_fuel [of s ?k] assms(1) by simp
  then have "parse_val ?k max_depth (s @ q) = Some (v, r @ q)" using parse_append_all [of ?k q] assms(2) by blast
  then show ?thesis by (simp only: parse_value_def)
qed

text \<open>An object cut short is not a value.\<close>

lemma parse_cut:
  assumes "parse_value s = Some (JObj ms, [])" "n < length s"
  shows "parse_value (take n s) = None \<or> (\<exists>v r. parse_value (take n s) = Some (v, r) \<and> (\<exists>t. v = JNum t))"
proof (rule ccontr)
  assume n: "\<not> ?thesis"
  then obtain v r where v: "parse_value (take n s) = Some (v, r)" "\<nexists>t. v = JNum t" by (cases "parse_value (take n s)") auto
  then have "parse_value (take n s @ drop n s) = Some (v, r @ drop n s)" by (intro parse_append) auto
  then show False using assms by simp
qed

end
