(* ===== verification/Order_Json.thy ===== *)
theory Order_Json
  imports Json Store_Properties
begin

text \<open>
  The JSON of the program: how \<open>createOrder\<close> decodes a request body into \<open>domain.NewOrder\<close>, the
  bodies that the load generator marshals, its \<open>extractID\<close>, and the text of an order with its
  timestamps. Field names are matched as encoding/json does, exactly or after case folding; a null leaves
  a field alone, a repeated field overwrites.
\<close>

section \<open>Definitions\<close>

subsection \<open>Decoding an order\<close>

definition maxBodyBytes :: nat where
  "maxBodyBytes = 64 * 2 ^ 10"

text \<open>\<open>foldName\<close>: the runes outside ASCII that fold to a letter are the long s and the Kelvin sign.\<close>

definition fold_name :: "string \<Rightarrow> string" where
  "fold_name s = map byte_upper (replace_runes [([CHR 0xC5, CHR 0xBF], CHR ''S''), ([CHR 0xE2, CHR 0x84, CHR 0xAA], CHR ''K'')] 0 s)"

definition names_field :: "string \<Rightarrow> string \<Rightarrow> bool" where
  "names_field key field \<longleftrightarrow> fold_name key = fold_name field"

definition set_field :: "string \<Rightarrow> json \<Rightarrow> NewOrder \<Rightarrow> NewOrder option" where
  "set_field key v n =
     (if names_field key ''customer_id'' then
        (case v of JNull \<Rightarrow> Some n | JStr t \<Rightarrow> Some (n\<lparr>NewCustomerID := t\<rparr>) | _ \<Rightarrow> None)
      else if names_field key ''amount_cents'' then
        (case v of
           JNull \<Rightarrow> Some n
         | JNum t \<Rightarrow> (case atoi t of Some x \<Rightarrow> Some (n\<lparr>NewAmountCents := x\<rparr>) | None \<Rightarrow> None)
         | _ \<Rightarrow> None)
      else if names_field key ''currency'' then
        (case v of JNull \<Rightarrow> Some n | JStr t \<Rightarrow> Some (n\<lparr>NewCurrency := t\<rparr>) | _ \<Rightarrow> None)
      else None)"

fun set_fields :: "(string \<times> json) list \<Rightarrow> NewOrder \<Rightarrow> NewOrder option" where
  "set_fields [] n = Some n"
| "set_fields ((key, v) # ms) n = (case set_field key v n of None \<Rightarrow> None | Some n' \<Rightarrow> set_fields ms n')"

definition zero_order :: NewOrder where
  "zero_order = \<lparr>NewCustomerID = [], NewAmountCents = 0, NewCurrency = []\<rparr>"

text \<open>
  \<open>Decode\<close> with \<open>DisallowUnknownFields\<close> behind \<open>LimitReader\<close>: the first value of the
  first \<^term>\<open>maxBodyBytes\<close> bytes; \<^term>\<open>None\<close> is any of its errors.
\<close>

definition decode_order :: "string \<Rightarrow> NewOrder option" where
  "decode_order body =
     (case parse_value (take maxBodyBytes body) of
        Some (JObj ms, r) \<Rightarrow> set_fields ms zero_order
      | Some (JNull, r) \<Rightarrow> Some zero_order
      | _ \<Rightarrow> None)"

text \<open>
  What the members of an object amount to: each of them has to be acceptable, and of the values of a
  field that are not null the last one counts.
\<close>

definition member_ok :: "string \<times> json \<Rightarrow> bool" where
  "member_ok m =
     (if names_field (fst m) ''customer_id'' \<or> names_field (fst m) ''currency''
      then (case snd m of JNull \<Rightarrow> True | JStr t \<Rightarrow> True | _ \<Rightarrow> False)
      else names_field (fst m) ''amount_cents'' \<and>
           (case snd m of JNull \<Rightarrow> True | JNum t \<Rightarrow> atoi t \<noteq> None | _ \<Rightarrow> False))"

definition last_value :: "string \<Rightarrow> (string \<times> json) list \<Rightarrow> json" where
  "last_value field ms = last (JNull # map snd (filter (\<lambda>m. names_field (fst m) field \<and> snd m \<noteq> JNull) ms))"

definition text_or :: "string \<Rightarrow> json \<Rightarrow> string" where
  "text_or d v = (case v of JStr t \<Rightarrow> t | _ \<Rightarrow> d)"

definition int_or :: "int \<Rightarrow> json \<Rightarrow> int" where
  "int_or d v = (case v of JNum t \<Rightarrow> (case atoi t of Some x \<Rightarrow> x | None \<Rightarrow> d) | _ \<Rightarrow> d)"

definition fields_of :: "(string \<times> json) list \<Rightarrow> NewOrder \<Rightarrow> NewOrder" where
  "fields_of ms n =
     \<lparr>NewCustomerID = text_or (NewCustomerID n) (last_value ''customer_id'' ms),
      NewAmountCents = int_or (NewAmountCents n) (last_value ''amount_cents'' ms),
      NewCurrency = text_or (NewCurrency n) (last_value ''currency'' ms)\<rparr>"

subsection \<open>The load generator's side\<close>

text \<open>\<open>json.Marshal\<close> of the map, which sorts the keys.\<close>

definition order_text :: "NewOrder \<Rightarrow> string" where
  "order_text n = print_json
     (JObj [(''amount_cents'', JNum (itoa (NewAmountCents n))), (''currency'', JStr (NewCurrency n)),
            (''customer_id'', JStr (NewCustomerID n))])"

text \<open>\<open>Unmarshal\<close> takes a json_whole text and goes on after a value of the wrong type.\<close>

definition extractID :: "string \<Rightarrow> string" where
  "extractID body =
     (case parse_value body of
        Some (JObj ms, r) \<Rightarrow>
          if skip_ws r = []
          then fold (\<lambda>(key, v) i. case v of JStr t \<Rightarrow> if names_field key ''id'' then t else i | _ \<Rightarrow> i) ms []
          else []
      | _ \<Rightarrow> [])"

subsection \<open>Timestamps\<close>

text \<open>
  \<open>time.RFC3339Nano\<close> in the proleptic Gregorian calendar; \<open>off\<close> is the zone's offset in seconds
  east of UTC, less than a day. Days are counted from 1970-01-01.
\<close>

definition year_start :: "int \<Rightarrow> int" where
  "year_start y = 365 * (y - 1970) + (y - 1) div 4 - (y - 1) div 100 + (y - 1) div 400 - 477"

definition year_of :: "int \<Rightarrow> int" where
  "year_of d =
     (let y = 1970 + (400 * d) div 146097
      in if d < year_start y then y - 1 else if year_start (y + 1) \<le> d then y + 1 else y)"

definition month_lengths :: "int \<Rightarrow> int list" where
  "month_lengths y =
     [31, year_start (y + 1) - year_start y - 337, 31, 30, 31, 30, 31, 31, 30, 31, 30, 31]"

fun month_day :: "int \<Rightarrow> int list \<Rightarrow> int \<Rightarrow> int \<times> int" where
  "month_day m [] k = (m, k + 1)"
| "month_day m (l # ls) k = (if k < l then (m, k + 1) else month_day (m + 1) ls (k - l))"

definition padded :: "nat \<Rightarrow> int \<Rightarrow> string" where
  "padded w x = (let t = decimal (nat x) in replicate (w - length t) (CHR ''0'') @ t)"

definition zone_text :: "int \<Rightarrow> string" where
  "zone_text off =
     (if off = 0 then ''Z''
      else (let m = \<bar>off\<bar> div 60
            in (if off < 0 \<and> m \<noteq> 0 then CHR ''-'' else CHR ''+'') # padded 2 (m div 60) @ CHR '':'' # padded 2 (m mod 60)))"

definition fraction_text :: "int \<Rightarrow> string" where
  "fraction_text ns = (if ns = 0 then [] else CHR ''.'' # rev (dropWhile (\<lambda>c. c = CHR ''0'') (rev (padded 9 ns))))"

definition rfc3339nano :: "int \<Rightarrow> time \<Rightarrow> string" where
  "rfc3339nano off t =
     (let secs = t div Second + off; d = secs div 86400; s = secs mod 86400; y = year_of d;
          (m, day) = month_day 1 (month_lengths y) (d - year_start y)
      in padded 4 y @ CHR ''-'' # padded 2 m @ CHR ''-'' # padded 2 day @ CHR ''T'' # padded 2 (s div 3600) @
         CHR '':'' # padded 2 (s mod 3600 div 60) @ CHR '':'' # padded 2 (s mod 60) @ fraction_text (t mod Second) @ zone_text off)"

text \<open>\<open>MarshalJSON\<close> fails for a year that has not four digits.\<close>

definition year_ok :: "int \<Rightarrow> time \<Rightarrow> bool" where
  "year_ok off t \<longleftrightarrow> (let y = year_of ((t div Second + off) div 86400) in 0 \<le> y \<and> y < 10000)"

subsection \<open>The text of an order\<close>

definition order_json :: "(uuid \<Rightarrow> string) \<Rightarrow> (time \<Rightarrow> int) \<Rightarrow> Order \<Rightarrow> json" where
  "order_json idtext zone x =
     JObj [(''id'', JStr (idtext (ID x))), (''customer_id'', JStr (CustomerID x)), (''status'', JStr (Status x)),
           (''amount_cents'', JNum (itoa (AmountCents x))), (''currency'', JStr (Currency x)),
           (''created_at'', JStr (rfc3339nano (zone (CreatedAt x)) (CreatedAt x))),
           (''updated_at'', JStr (rfc3339nano (zone (UpdatedAt x)) (UpdatedAt x)))]"

definition times_ok :: "(time \<Rightarrow> int) \<Rightarrow> Order \<Rightarrow> bool" where
  "times_ok zone x \<longleftrightarrow> year_ok (zone (CreatedAt x)) (CreatedAt x) \<and> year_ok (zone (UpdatedAt x)) (UpdatedAt x)"


section \<open>Lemmas\<close>

subsection \<open>Orders\<close>

lemma field_names [simp]:
  "names_field ''customer_id'' ''customer_id''" "names_field ''amount_cents'' ''amount_cents''" "names_field ''currency'' ''currency''"
  "\<not> names_field ''amount_cents'' ''customer_id''" "\<not> names_field ''currency'' ''customer_id''" "\<not> names_field ''currency'' ''amount_cents''"
  "names_field ''id'' ''id''" "\<not> names_field ''customer_id'' ''id''" "\<not> names_field ''status'' ''id''"
  "\<not> names_field ''currency'' ''id''" "\<not> names_field ''created_at'' ''id''" "\<not> names_field ''updated_at'' ''id''"
  by (simp_all add: names_field_def fold_name_def byte_upper_def char_eval)

text \<open>What the generator marshals is what the handler decodes, whatever follows it.\<close>

lemma decode_order_text:
  assumes "int64_ok (NewAmountCents n)" "length (order_text n) \<le> maxBodyBytes"
  shows "decode_order (order_text n @ r) = Some (n\<lparr>NewCustomerID := to_valid (NewCustomerID n), NewCurrency := to_valid (NewCurrency n)\<rparr>)"
proof -
  let ?v = "JObj [(''amount_cents'', JNum (itoa (NewAmountCents n))), (''currency'', JStr (NewCurrency n)), (''customer_id'', JStr (NewCustomerID n))]"
  let ?r = "take (maxBodyBytes - length (order_text n)) r"
  have "take maxBodyBytes (order_text n @ r) = order_text n @ ?r" using assms(2) by simp
  moreover have "parse_value (order_text n @ ?r) = Some (valid_json ?v, ?r)"
    unfolding order_text_def by (rule parse_print) (simp_all add: number_itoa max_depth_def)
  ultimately have "parse_value (take maxBodyBytes (order_text n @ r)) = Some (valid_json ?v, ?r)" by (simp only:)
  then show ?thesis using assms(1)
    by (simp add: decode_order_def set_field_def to_valid_ascii atoi_itoa zero_order_def)
qed

lemma length_decimal: "n < 10 ^ Suc k \<Longrightarrow> length (decimal n) \<le> Suc k"
proof (induction k arbitrary: n)
  case (Suc k)
  then have "n div 10 < 10 ^ Suc k" by (simp add: less_mult_imp_div_less mult.commute)
  from Suc(1) [OF this] show ?case by (subst decimal.simps) simp
qed (simp add: decimal.simps)

lemma length_itoa: "int64_ok x \<Longrightarrow> length (itoa x) \<le> 20"
proof -
  assume "int64_ok x"
  then have "nat x < 10 ^ Suc 18" "nat (- x) < 10 ^ Suc 18" by (auto simp: int64_ok_def)
  then have "length (decimal (nat x)) \<le> Suc 18" "length (decimal (nat (- x))) \<le> Suc 18" by (simp_all only: length_decimal)
  then show ?thesis by (simp add: itoa_def)
qed

lemma length_order_text:
  assumes "int64_ok (NewAmountCents n)"
  shows "length (order_text n) \<le> 6 * (length (NewCustomerID n) + length (NewCurrency n)) + 250"
  using length_itoa [OF assms] length_quote [of "NewCurrency n"] length_quote [of "NewCustomerID n"]
    length_quote [of "''amount_cents''"] length_quote [of "''currency''"] length_quote [of "''customer_id''"]
  by (simp add: order_text_def)

lemma decode_valid_text:
  assumes "Validate n = None" "to_valid (NewCustomerID n) = NewCustomerID n" "to_valid (NewCurrency n) = NewCurrency n"
  shows "decode_order (order_text n @ r) = Some n" "decode_order (order_text n) = Some n"
proof -
  have v: "length (NewCustomerID n) \<le> 64" "length (NewCurrency n) = 3" "int64_ok (NewAmountCents n)"
    using assms(1) by (auto simp: Validate_def int64_ok_def split: if_splits)
  then have "length (order_text n) \<le> maxBodyBytes" using length_order_text [OF v(3)] by (simp add: maxBodyBytes_def)
  then show "decode_order (order_text n @ r) = Some n" "decode_order (order_text n) = Some n"
    using decode_order_text [OF v(3), of r] decode_order_text [OF v(3), of "[]"] assms(2,3) by simp_all
qed

subsection \<open>The calendar\<close>

lemma year_start_bounds:
  "146097 * (y - 1970) - 506 \<le> 400 * year_start y" "400 * year_start y \<le> 146097 * (y - 1970) + 589"
proof -
  define a b c p q r where "a = (y - 1) mod 4" and "b = (y - 1) mod 100" and "c = (y - 1) mod 400"
    and "p = (y - 1) div 4" and "q = (y - 1) div 100" and "r = (y - 1) div 400"
  have e: "4 * p + a = y - 1" "100 * q + b = y - 1" "400 * r + c = y - 1"
    by (simp_all add: a_def b_def c_def p_def q_def r_def)
  have m: "0 \<le> a" "a < 4" "0 \<le> b" "b < 100" "0 \<le> c" "c < 400" by (simp_all add: a_def b_def c_def)
  have ys: "year_start y = 365 * (y - 1970) + p - q + r - 477" by (simp add: year_start_def p_def q_def r_def)
  show "146097 * (y - 1970) - 506 \<le> 400 * year_start y" unfolding ys using e m by (simp add: algebra_simps)
  show "400 * year_start y \<le> 146097 * (y - 1970) + 589" unfolding ys using e m by (simp add: algebra_simps)
qed

text \<open>The year of a day is the one in which the day lies.\<close>

lemma year_of_start: "year_start (year_of d) \<le> d \<and> d < year_start (year_of d + 1)"
proof -
  define z where "z = (400 * d) div 146097"
  have "146097 * z + 400 * d mod 146097 = 400 * d" "0 \<le> 400 * d mod 146097" "400 * d mod 146097 < 146097"
    by (simp_all add: z_def)
  then have "146097 * z \<le> 400 * d" "400 * d < 146097 * z + 146097" by linarith+
  then have "year_start (1970 + z - 1) \<le> d" "d < year_start (1970 + z + 2)"
    subgoal using year_start_bounds(2) [of "1970 + z - 1"] by (simp add: algebra_simps)
    subgoal using year_start_bounds(1) [of "1970 + z + 2"] \<open>400 * d < 146097 * z + 146097\<close> by (simp add: algebra_simps)
    done
  then show ?thesis by (auto simp: year_of_def Let_def z_def [symmetric] add.commute)
qed

lemma month_day_bounds:
  "0 \<le> k \<Longrightarrow> k < sum_list ls \<Longrightarrow> \<forall>l \<in> set ls. l \<le> 31 \<Longrightarrow>
     m \<le> fst (month_day m ls k) \<and> fst (month_day m ls k) < m + int (length ls) \<and>
     1 \<le> snd (month_day m ls k) \<and> snd (month_day m ls k) \<le> 31"
  by (induction m ls k rule: month_day.induct) auto

lemma february: "year_start (y + 1) - year_start y - 337 \<le> 31"
  using year_start_bounds(2) [of "y + 1"] year_start_bounds(1) [of y] by (simp add: algebra_simps)

lemma civil_bounds:
  fixes d
  defines "y \<equiv> year_of d"
  defines "x \<equiv> month_day 1 (month_lengths y) (d - year_start y)"
  shows "1 \<le> fst x" "fst x \<le> 12" "1 \<le> snd x" "snd x \<le> 31"
proof -
  have "sum_list (month_lengths y) = year_start (y + 1) - year_start y" by (simp add: month_lengths_def)
  moreover have "\<forall>l \<in> set (month_lengths y). l \<le> 31" using february [of y] by (simp add: month_lengths_def)
  moreover have "length (month_lengths y) = 12" by (simp add: month_lengths_def)
  ultimately show "1 \<le> fst x" "fst x \<le> 12" "1 \<le> snd x" "snd x \<le> 31"
    using month_day_bounds [of "d - year_start y" "month_lengths y" 1] year_of_start [of d] by (simp_all add: x_def y_def)
qed

lemma length_padded: "0 < w \<Longrightarrow> 0 \<le> x \<Longrightarrow> x < 10 ^ w \<Longrightarrow> length (padded w x) = w"
proof -
  assume x: "0 < w" "0 \<le> x" "x < 10 ^ w"
  then obtain v where v: "w = Suc v" by (cases w) auto
  have "nat x < 10 ^ Suc v" using x v by (simp add: nat_less_iff)
  from length_decimal [OF this] show ?thesis by (simp add: padded_def Let_def v)
qed

lemma length_padded2: "0 \<le> x \<Longrightarrow> x < 100 \<Longrightarrow> length (padded 2 x) = 2"
  by (rule length_padded) simp_all

lemma length_fraction: "0 \<le> ns \<Longrightarrow> ns < Second \<Longrightarrow> length (fraction_text ns) \<le> 10"
proof -
  assume "0 \<le> ns" "ns < Second"
  then have "length (padded 9 ns) = 9" using length_padded [of 9 ns] by simp
  then show ?thesis using length_dropWhile_le [of "\<lambda>c. c = CHR ''0''" "rev (padded 9 ns)"] by (simp add: fraction_text_def)
qed

lemma length_zone: "\<bar>off\<bar> < 86400 \<Longrightarrow> length (zone_text off) \<le> 6"
proof -
  assume "\<bar>off\<bar> < 86400"
  then have h: "\<bar>off\<bar> div 60 div 60 < 100" by linarith
  have "length (padded 2 (\<bar>off\<bar> div 60 div 60)) = 2" "length (padded 2 (\<bar>off\<bar> div 60 mod 60)) = 2"
    using h pos_mod_bound [of 60 "\<bar>off\<bar> div 60"] by (simp_all add: length_padded2 pos_imp_zdiv_nonneg_iff)
  then show ?thesis by (simp add: zone_text_def Let_def)
qed

lemma length_rfc3339nano:
  assumes "year_ok off t" "\<bar>off\<bar> < 86400"
  shows "length (rfc3339nano off t) \<le> 35"
proof -
  define secs where "secs = t div Second + off"
  let ?d = "secs div 86400" and ?s = "secs mod 86400"
  obtain m day where md: "month_day 1 (month_lengths (year_of ?d)) (?d - year_start (year_of ?d)) = (m, day)" by fastforce
  have y: "length (padded 4 (year_of ?d)) = 4" using assms(1) length_padded [of 4 "year_of ?d"] by (simp add: year_ok_def Let_def secs_def)
  have m: "length (padded 2 m) = 2" "length (padded 2 day) = 2"
    using civil_bounds [of ?d] by (simp_all add: md length_padded2)
  have s: "0 \<le> ?s" "?s < 86400" by simp_all
  then have "0 \<le> ?s div 3600" "?s div 3600 < 100" "0 \<le> ?s mod 3600 div 60" "?s mod 3600 div 60 < 100" "0 \<le> ?s mod 60" "?s mod 60 < 100"
    using pos_mod_bound [of 3600 ?s] pos_mod_bound [of 60 ?s] by (simp_all add: pos_imp_zdiv_nonneg_iff)
  then have hms: "length (padded 2 (?s div 3600)) = 2" "length (padded 2 (?s mod 3600 div 60)) = 2" "length (padded 2 (?s mod 60)) = 2"
    by (simp_all only: length_padded2)
  have "length (fraction_text (t mod Second)) \<le> 10" using length_fraction [of "t mod Second"] by simp
  then show ?thesis using length_zone [OF assms(2)]
    unfolding rfc3339nano_def Let_def secs_def [symmetric] md prod.case length_append list.size y m hms by linarith
qed

subsection \<open>The text of an order\<close>

lemma order_json_ok [simp]: "json_ok (order_json f zone x)" "json_depth (order_json f zone x) = 1"
  by (simp_all add: order_json_def number_itoa)

lemma length_order_json:
  assumes "times_ok zone x" "\<And>t. \<bar>zone t\<bar> < 86400" "int64_ok (AmountCents x)"
  shows "length (print_json (order_json f zone x)) \<le>
    6 * (length (f (ID x)) + length (CustomerID x) + length (Status x) + length (Currency x)) + 1000"
proof -
  have "length (rfc3339nano (zone (CreatedAt x)) (CreatedAt x)) \<le> 35" "length (rfc3339nano (zone (UpdatedAt x)) (UpdatedAt x)) \<le> 35"
    using assms(1,2) by (simp_all add: times_ok_def length_rfc3339nano)
  then show ?thesis
    using length_itoa [OF assms(3)] length_quote [of "f (ID x)"] length_quote [of "CustomerID x"] length_quote [of "Status x"]
      length_quote [of "Currency x"] length_quote [of "rfc3339nano (zone (CreatedAt x)) (CreatedAt x)"]
      length_quote [of "rfc3339nano (zone (UpdatedAt x)) (UpdatedAt x)"]
      length_quote [of "''id''"] length_quote [of "''customer_id''"] length_quote [of "''status''"] length_quote [of "''amount_cents''"]
      length_quote [of "''currency''"] length_quote [of "''created_at''"] length_quote [of "''updated_at''"]
    by (simp add: order_json_def)
qed

text \<open>The generator finds the id in what the service writes.\<close>

lemma extractID_order: "extractID (print_json (order_json f zone x) @ [CHR 0x0A]) = to_valid (f (ID x))"
proof -
  have "parse_value (print_json (order_json f zone x) @ [CHR 0x0A]) = Some (valid_json (order_json f zone x), [CHR 0x0A])"
    by (rule parse_print) (simp_all add: max_depth_def)
  moreover have "skip_ws [CHR 0x0A] = []" by (simp add: skip_ws_def json_space_def)
  ultimately show ?thesis by (simp add: extractID_def order_json_def to_valid_ascii)
qed

subsection \<open>Decoding\<close>

lemma decode_object:
  assumes "parse_value t = Some (JObj ms, [])"
  shows "decode_order (t @ r) = (if length t \<le> maxBodyBytes then set_fields ms zero_order else None)"
proof (cases "length t \<le> maxBodyBytes")
  case True
  then show ?thesis using parse_append [OF assms, of "take (maxBodyBytes - length t) r"] by (simp add: decode_order_def)
next
  case False
  then have "take maxBodyBytes (t @ r) = take maxBodyBytes t" by simp
  then show ?thesis using parse_cut [OF assms, of maxBodyBytes] False by (auto simp: decode_order_def)
qed

lemma names_one:
  "names_field k ''customer_id'' \<Longrightarrow> \<not> names_field k ''amount_cents'' \<and> \<not> names_field k ''currency''"
  "names_field k ''amount_cents'' \<Longrightarrow> \<not> names_field k ''currency''"
  using field_names(4-6) by (auto simp: names_field_def)

lemma last_value_Nil: "last_value f [] = JNull"
  by (simp add: last_value_def)

lemma last_value_Cons:
  "last_value f ((k, v) # ms) =
     (if last_value f ms = JNull \<and> names_field k f then v else last_value f ms)"
proof -
  let ?vs = "map snd (filter (\<lambda>m. names_field (fst m) f \<and> snd m \<noteq> JNull) ms)"
  have "last ?vs \<noteq> JNull" if "?vs \<noteq> []"
    using last_in_set [OF that] by auto
  then show ?thesis by (cases "?vs = []") (auto simp: last_value_def)
qed

lemma last_value_ok:
  assumes "list_all member_ok ms"
  shows "(\<exists>t. last_value ''customer_id'' ms = JStr t) \<or> last_value ''customer_id'' ms = JNull"
    "(\<exists>t. last_value ''currency'' ms = JStr t) \<or> last_value ''currency'' ms = JNull"
    "(\<exists>t x. last_value ''amount_cents'' ms = JNum t \<and> atoi t = Some x) \<or> last_value ''amount_cents'' ms = JNull"
  using assms
  by (induction ms) (auto simp: last_value_Nil last_value_Cons member_ok_def names_one split: json.splits if_splits)

lemma or_simps:
  "text_or d (JStr t) = t" "text_or d JNull = d" "int_or x JNull = x" "atoi t = Some y \<Longrightarrow> int_or x (JNum t) = y"
  by (simp_all add: text_or_def int_or_def)

lemma set_fields_spec: "set_fields ms n = (if list_all member_ok ms then Some (fields_of ms n) else None)"
proof (induction ms n rule: set_fields.induct)
  case (1 n)
  then show ?case by (simp add: fields_of_def last_value_Nil text_or_def int_or_def)
next
  case (2 k v ms n)
  show ?case
  proof (cases "set_field k v n")
    case None
    then have "\<not> member_ok (k, v)" using names_one [of k] by (auto simp: set_field_def member_ok_def split: if_splits json.splits option.splits)
    then show ?thesis using None by simp
  next
    case (Some n')
    then have "member_ok (k, v)" using names_one [of k] by (auto simp: set_field_def member_ok_def split: if_splits json.splits option.splits)
    moreover have "fields_of ms n' = fields_of ((k, v) # ms) n" if ok: "list_all member_ok ms"
    proof -
      consider (id) "names_field k ''customer_id''" | (amount) "names_field k ''amount_cents''" | (cur) "names_field k ''currency''"
        using Some by (auto simp: set_field_def split: if_splits)
      then show ?thesis
      proof cases
        case id
        then show ?thesis using Some names_one(1) [OF id] last_value_ok(1) [OF ok]
          by (cases v) (auto simp: fields_of_def set_field_def last_value_Cons or_simps)
      next
        case amount
        then have "\<not> names_field k ''customer_id''" "\<not> names_field k ''currency''" using names_one [of k] by blast+
        then show ?thesis using Some amount last_value_ok(3) [OF ok]
          by (cases v) (auto simp: fields_of_def set_field_def last_value_Cons or_simps split: option.splits)
      next
        case cur
        then have "\<not> names_field k ''customer_id''" "\<not> names_field k ''amount_cents''" using names_one [of k] by blast+
        then show ?thesis using Some cur last_value_ok(2) [OF ok]
          by (cases v) (auto simp: fields_of_def set_field_def last_value_Cons or_simps)
      qed
    qed
    ultimately show ?thesis using Some 2 by simp
  qed
qed

lemma set_fields_ok:
  assumes "set_fields ms n = Some n'" "map (\<lambda>(k, v). (to_valid k, valid_json v)) ms = ms"
    and "to_valid (NewCustomerID n) = NewCustomerID n" "to_valid (NewCurrency n) = NewCurrency n" "int64_ok (NewAmountCents n)"
  shows "to_valid (NewCustomerID n') = NewCustomerID n' \<and> to_valid (NewCurrency n') = NewCurrency n' \<and> int64_ok (NewAmountCents n')"
  using assms
proof (induction ms n rule: set_fields.induct)
  case (2 key v ms n)
  then obtain m where m: "set_field key v n = Some m" "set_fields ms m = Some n'" by (auto split: option.splits)
  have "valid_json v = v" using 2(3) by simp
  then have "to_valid (NewCustomerID m) = NewCustomerID m" "to_valid (NewCurrency m) = NewCurrency m" "int64_ok (NewAmountCents m)"
    using m(1) 2(4-6) atoi_ok by (auto simp: set_field_def split: json.splits option.splits if_splits)
  then show ?case using 2(1) [OF m] 2(3) by simp
qed simp

lemma decode_order_ok:
  assumes "decode_order s = Some n"
  shows "to_valid (NewCustomerID n) = NewCustomerID n" "to_valid (NewCurrency n) = NewCurrency n" "int64_ok (NewAmountCents n)"
proof -
  have z: "to_valid (NewCustomerID zero_order) = NewCustomerID zero_order" "to_valid (NewCurrency zero_order) = NewCurrency zero_order"
    "int64_ok (NewAmountCents zero_order)"
    by (simp_all add: zero_order_def int64_ok_def)
  obtain v r where p: "parse_value (take maxBodyBytes s) = Some (v, r)" using assms by (auto simp: decode_order_def split: option.splits)
  from parse_valid [OF p] p assms z set_fields_ok [OF _ _ z]
  have "to_valid (NewCustomerID n) = NewCustomerID n \<and> to_valid (NewCurrency n) = NewCurrency n \<and> int64_ok (NewAmountCents n)"
    by (auto simp: decode_order_def split: json.splits)
  then show "to_valid (NewCustomerID n) = NewCustomerID n" "to_valid (NewCurrency n) = NewCurrency n" "int64_ok (NewAmountCents n)"
    by simp_all
qed

lemma sample_new_decoded: "decode_order (order_text sample_new @ r) = Some sample_new"
  by (rule decode_valid_text(1) [OF sample_new_valid]) (simp_all add: sample_new_def to_valid_ascii)

section \<open>Properties\<close>

text \<open>
  (C15) What a client marshals is what the service decodes. The body that the load generator writes for
  an order is decoded into that order, with every byte of its strings that is not UTF-8 replaced, also
  when anything follows it on the wire, as long as it fits in the 64 KiB that \<open>createOrder\<close> reads;
  cut off by the limit it is rejected. The body of an order that passes validation always fits.
\<close>

theorem order_body_roundtrip:
  assumes "int64_ok (NewAmountCents n)"
  shows "decode_order (order_text n @ r) =
      (if length (order_text n) \<le> maxBodyBytes
       then Some \<lparr>NewCustomerID = to_valid (NewCustomerID n), NewAmountCents = NewAmountCents n, NewCurrency = to_valid (NewCurrency n)\<rparr>
       else None) \<and>
    (Validate n = None \<longrightarrow> length (order_text n) \<le> maxBodyBytes)"
proof (intro conjI impI)
  let ?v = "JObj [(''amount_cents'', JNum (itoa (NewAmountCents n))), (''currency'', JStr (NewCurrency n)), (''customer_id'', JStr (NewCustomerID n))]"
  have "parse_value (print_json ?v @ []) = Some (valid_json ?v, [])" by (rule parse_print) (simp_all add: number_itoa max_depth_def)
  then have p: "parse_value (order_text n) = Some (valid_json ?v, [])" unfolding order_text_def by (simp only: append_Nil2)
  show "decode_order (order_text n @ r) =
      (if length (order_text n) \<le> maxBodyBytes
       then Some \<lparr>NewCustomerID = to_valid (NewCustomerID n), NewAmountCents = NewAmountCents n, NewCurrency = to_valid (NewCurrency n)\<rparr>
       else None)"
    using decode_order_text [OF assms, of r] decode_object [of "order_text n" _ r] p by simp
next
  assume "Validate n = None"
  then have "length (NewCustomerID n) \<le> 64" "length (NewCurrency n) = 3" by (auto simp: Validate_def split: if_splits)
  then show "length (order_text n) \<le> maxBodyBytes" using length_order_text [OF assms] by (simp add: maxBodyBytes_def)
qed

theorem order_body_roundtrip_witness:
  "decode_order (order_text sample_new @ ''trailing'') = Some sample_new"
  using order_body_roundtrip [of sample_new "''trailing''"] length_order_text [of sample_new]
  by (simp add: sample_new_def int64_ok_def to_valid_ascii maxBodyBytes_def)

text \<open>
  (C16) How a request body is decoded. The first JSON value of the first 64 KiB decides, whatever follows
  it. If it is an object, every member has to name a field, up to case, with a null or a value of its type, an
  amount being an integer of 64 bits; then each field has its last value that is not null, or its zero
  value. If it is a null, the result is the zero order, which \<open>Validate\<close> then refuses. Any other
  value, or none, is rejected; so is an object that is complete only beyond the limit. And every order
  that any body decodes into has strings that are UTF-8, as the database requires, and an amount that fits 64 bits.
\<close>

theorem order_body_limit:
  "decode_order body =
     (case parse_value (take maxBodyBytes body) of
        Some (JObj ms, rest) \<Rightarrow> (if list_all member_ok ms then Some (fields_of ms zero_order) else None)
      | Some (v, rest) \<Rightarrow> (if v = JNull then Some zero_order else None)
      | None \<Rightarrow> None) \<and>
   Validate zero_order = Some (ValidationError ''customer_id'' ''required'') \<and>
   (parse_value t = Some (JObj ms, []) \<longrightarrow>
     decode_order (t @ r) =
       (if length t \<le> maxBodyBytes \<and> list_all member_ok ms then Some (fields_of ms zero_order) else None)) \<and>
   (decode_order body = Some n \<longrightarrow>
     to_valid (NewCustomerID n) = NewCustomerID n \<and> to_valid (NewCurrency n) = NewCurrency n \<and> int64_ok (NewAmountCents n))"
proof (intro conjI)
  show "decode_order body =
     (case parse_value (take maxBodyBytes body) of
        Some (JObj ms, rest) \<Rightarrow> (if list_all member_ok ms then Some (fields_of ms zero_order) else None)
      | Some (v, rest) \<Rightarrow> (if v = JNull then Some zero_order else None)
      | None \<Rightarrow> None)"
    by (auto simp: decode_order_def set_fields_spec split: option.split json.split)
  show "Validate zero_order = Some (ValidationError ''customer_id'' ''required'')"
    by (simp add: zero_order_def Validate_def)
qed (use decode_object [of t ms r] set_fields_spec [of ms zero_order] decode_order_ok [of body n] in simp_all)

theorem order_body_limit_witness:
  "\<exists>t ms. parse_value t = Some (JObj ms, []) \<and> decode_order (t @ ''x'') = Some sample_new \<and> fields_of ms zero_order = sample_new"
proof -
  let ?v = "JObj [(''amount_cents'', JNum (itoa 2500)), (''currency'', JStr ''EUR''), (''customer_id'', JStr ''cust-1'')]"
  have "parse_value (print_json ?v @ []) = Some (valid_json ?v, [])" by (rule parse_print) (simp_all add: number_itoa max_depth_def)
  then have p: "parse_value (order_text sample_new) = Some (valid_json ?v, [])"
    unfolding order_text_def sample_new_def by (simp only: append_Nil2 NewOrder.simps)
  then obtain ms where ms: "parse_value (order_text sample_new) = Some (JObj ms, [])" by simp
  have "length (order_text sample_new) \<le> maxBodyBytes"
    using length_order_text [of sample_new] by (simp add: sample_new_def int64_ok_def maxBodyBytes_def)
  then show ?thesis
    using order_body_limit [of _ "order_text sample_new" ms "''x''"] ms sample_new_decoded [of "''x''"]
    by (intro exI [of _ "order_text sample_new"] exI [of _ ms]) (auto split: if_splits)
qed

end
