(* ===== verification/Api.thy ===== *)
theory Api
  imports Http Go_Numbers Order_Json
begin

text \<open>
  httpapi/handlers.go and router.go: the endpoints over the order store and the routing table, and
  the whole service as cmd/api/main.go assembles it (\<open>serve\<close>).

  \<open>ServeMux\<close> is modelled for the patterns the router registers, on paths without percent
  escapes: paths are cleaned first, an unclean path is redirected, \<open>GET\<close> patterns also match
  \<open>HEAD\<close>, a wildcard matches one nonempty segment, and everything else falls through to
  \<open>/\<close>. The bytes of the request body, the clock, the random id and the database's answers are
  fields of \<open>api_env\<close>.
\<close>

section \<open>Definitions\<close>

record api_env =
  request_body :: string
  fresh_id :: uuid
  api_now :: time
  pg_time :: "time \<Rightarrow> time"
  api_reply :: pg_reply
  list_rank :: "uuid \<Rightarrow> nat"
  ping_err :: "goerr option"
  err_text :: "goerr \<Rightarrow> string"

text \<open>\<open>dec.Decode(&in)\<close>, \<^term>\<open>None\<close> when it fails.\<close>

definition decoded :: "api_env \<Rightarrow> NewOrder option" where
  "decoded a = decode_order (request_body a)"

subsection \<open>Handlers\<close>

definition panicking :: "event list \<Rightarrow> pval \<Rightarrow> string \<Rightarrow> table \<Rightarrow> hres" where
  "panicking es v p t = \<lparr>hev = es, hpanic = Some v, hpat = p, htab = t\<rparr>"

fun as_validation :: "goerr \<Rightarrow> (string \<times> string) option" where
  "as_validation (ValidationError f m) = Some (f, m)"
| "as_validation (Wrap m e) = as_validation e"
| "as_validation _ = None"

definition createOrder :: "uuid_lib \<Rightarrow> api_env \<Rightarrow> serve_env \<Rightarrow> http_handler" where
  "createOrder U a env r t =
     (let done = (\<lambda>es t'. returns es (Pattern r) t'); ctx = CtxAttrs r in
      case decoded a of
        None \<Rightarrow> done (writeError env ctx 400 codeInvalidJSON ''request body is not valid JSON for an order'' []) t
      | Some inn \<Rightarrow>
          (case Validate inn of
             Some err \<Rightarrow>
               (case as_validation err of
                  Some (field, reason) \<Rightarrow> done (writeError env ctx 422 codeValidation reason field) t
                | None \<Rightarrow> done (writeError env ctx 422 codeValidation (err_text a err) []) t)
           | None \<Rightarrow>
               (let order = Build (fresh_id a) (api_now a) inn in
                case CreateOrder U (pg_time a) (api_reply a) order t of
                  (Panicked m, t') \<Rightarrow> panicking [] (PVal m) (Pattern r) t'
                | (Err e, t') \<Rightarrow>
                    done ([L ctx LevelError ''create order failed''
                             [(''error'', AErr e), (''currency'', AStr (Currency order)),
                              PII ''customer_id'' (CustomerID order)]] @
                          writeError env ctx 500 codeInternal ''could not create order'' []) t'
                | (Ok _, t') \<Rightarrow>
                    done (map E (OrderCreated (Currency order) (AmountCents order)) @
                          [W (SetHeader ''Location'' (''/orders/'' @ ustring U (ID order)))] @
                          writeJSON env ctx 201 (Some (OrderBody order))) t')))"

definition getOrder :: "uuid_lib \<Rightarrow> api_env \<Rightarrow> serve_env \<Rightarrow> string \<Rightarrow> http_handler" where
  "getOrder U a env raw r t =
     (let done = (\<lambda>es. returns es (Pattern r) t); ctx = CtxAttrs r in
      case uparse U raw of
        None \<Rightarrow> done (writeError env ctx 400 codeBadID ''order id must be a UUID'' ''id'')
      | Some i \<Rightarrow>
          (case GetOrder U (api_reply a) i t of
             Panicked m \<Rightarrow> panicking [] (PVal m) (Pattern r) t
           | Err e \<Rightarrow>
               if errors_is e ErrNotFound then
                 done (writeError env ctx 404 codeNotFound ''no order with that id'' [])
               else
                 done ([L ctx LevelError ''get order failed'' [(''error'', AErr e)]] @
                       writeError env ctx 500 codeInternal ''could not read order'' [])
           | Ok order \<Rightarrow> done (writeJSON env ctx 200 (Some (OrderBody order)))))"

definition intParam :: "string \<Rightarrow> int \<Rightarrow> int option" where
  "intParam raw def = (if raw = [] then Some def else atoi raw)"

definition query_get :: "request \<Rightarrow> string \<Rightarrow> string" where
  "query_get r k = (case map_of (Query r) k of None \<Rightarrow> [] | Some v \<Rightarrow> v)"

definition listOrders :: "uuid_lib \<Rightarrow> api_env \<Rightarrow> serve_env \<Rightarrow> http_handler" where
  "listOrders U a env r t =
     (let done = (\<lambda>es. returns es (Pattern r) t); ctx = CtxAttrs r in
      case intParam (query_get r ''limit'') 20 of
        None \<Rightarrow> done (writeError env ctx 400 codeBadQuery ''limit must be an integer between 1 and 100'' ''limit'')
      | Some limit \<Rightarrow>
          if limit < 1 \<or> limit > 100 then
            done (writeError env ctx 400 codeBadQuery ''limit must be an integer between 1 and 100'' ''limit'')
          else
            (case intParam (query_get r ''offset'') 0 of
               None \<Rightarrow> done (writeError env ctx 400 codeBadQuery ''offset must be a non-negative integer'' ''offset'')
             | Some off \<Rightarrow>
                 if off < 0 then
                   done (writeError env ctx 400 codeBadQuery ''offset must be a non-negative integer'' ''offset'')
                 else
                   let st = query_get r ''status'' in
                   if st \<noteq> [] \<and> \<not> Valid st then
                     done (writeError env ctx 400 codeBadQuery ''unknown status'' ''status'')
                   else
                     (case ListOrders U (list_rank a) (api_reply a) st limit off t of
                        Panicked m \<Rightarrow> panicking [] (PVal m) (Pattern r) t
                      | Err e \<Rightarrow>
                          done ([L ctx LevelError ''list orders failed'' [(''error'', AErr e)]] @
                                writeError env ctx 500 codeInternal ''could not list orders'' [])
                      | Ok orders \<Rightarrow> done (writeJSON env ctx 200 (Some (ListBody orders limit off))))))"

definition healthz :: "serve_env \<Rightarrow> http_handler" where
  "healthz env r t = returns (writeJSON env (CtxAttrs r) 200 (Some (MapBody ''status'' ''ok''))) (Pattern r) t"

definition readyz :: "api_env \<Rightarrow> serve_env \<Rightarrow> http_handler" where
  "readyz a env r t =
     (case ping_err a of
        Some e \<Rightarrow>
          returns ([L (CtxAttrs r) LevelWarn ''readiness check failed'' [(''error'', AErr e)]] @
                   writeError env (CtxAttrs r) 503 codeUnavailable ''database unreachable'' []) (Pattern r) t
      | None \<Rightarrow> returns (writeJSON env (CtxAttrs r) 200 (Some (MapBody ''status'' ''ready''))) (Pattern r) t)"

definition slowQuery :: "api_env \<Rightarrow> serve_env \<Rightarrow> http_handler" where
  "slowQuery a env r t =
     (let done = (\<lambda>es. returns es (Pattern r) t); ctx = CtxAttrs r;
          raw = query_get r ''d''
      in case ParseDuration (if raw \<noteq> [] then raw else ''200ms'') of
           None \<Rightarrow> done (writeError env ctx 400 codeBadQuery ''d must be a duration between 0 and 5s'' ''d'')
         | Some d \<Rightarrow>
             if d < 0 \<or> d > 5 * Second then
               done (writeError env ctx 400 codeBadQuery ''d must be a duration between 0 and 5s'' ''d'')
             else
               (case Sleep (api_reply a) t of
                  Panicked m \<Rightarrow> panicking [] (PVal m) (Pattern r) t
                | Err e \<Rightarrow>
                    if errors_is e Canceled \<or> errors_is e DeadlineExceeded then
                      done (writeError env ctx 503 codeUnavailable
                              ''request abandoned while waiting for a connection'' [])
                    else
                      done ([L ctx LevelError ''slow query failed'' [(''error'', AErr e)]] @
                            writeError env ctx 500 codeInternal ''slow query failed'' [])
                | Ok _ \<Rightarrow> done (writeJSON env ctx 200 (Some (MapBody ''slept'' (duration_string d))))))"

definition catchAll :: "serve_env \<Rightarrow> http_handler" where
  "catchAll env r t =
     returns (writeError env (CtxAttrs r) 404 codeMethodUnknown ''no such endpoint'' []) (Pattern r) t"

subsection \<open>Routing\<close>

fun clean_segments :: "string list \<Rightarrow> string list \<Rightarrow> string list" where
  "clean_segments acc [] = rev acc"
| "clean_segments acc (s # ss) =
     (if s = [] \<or> s = ''.'' then clean_segments acc ss
      else if s = ''..'' then clean_segments (tl acc) ss
      else clean_segments (s # acc) ss)"

definition cleanPath :: "string \<Rightarrow> string" where
  "cleanPath p =
     (let segs = clean_segments [] (split_slash [] p)
      in if segs = [] then ''/''
         else CHR ''/'' # join ''/'' segs @ (if p \<noteq> [] \<and> last p = CHR ''/'' then ''/'' else []))"

datatype endpoint = SlowQuery | CreateOrderE | ListOrdersE | GetOrderE string | Healthz | Readyz | CatchAll

text \<open>The patterns of \<open>NewRouter\<close>, matched against the segments of a path.\<close>

definition mux_match :: "bool \<Rightarrow> string \<Rightarrow> string list \<Rightarrow> string \<times> endpoint" where
  "mux_match debug m segs =
     (let get_like = (m = ''GET'' \<or> m = ''HEAD'') in
      if debug \<and> get_like \<and> segs = [''debug'', ''slow''] then (''GET /debug/slow'', SlowQuery)
      else if m = ''POST'' \<and> segs = [''orders''] then (''POST /orders'', CreateOrderE)
      else if get_like \<and> segs = [''orders''] then (''GET /orders'', ListOrdersE)
      else if get_like \<and> length segs = 2 \<and> hd segs = ''orders'' \<and> last segs \<noteq> [] then
        (''GET /orders/{id}'', GetOrderE (last segs))
      else if get_like \<and> segs = [''healthz''] then (''GET /healthz'', Healthz)
      else if get_like \<and> segs = [''readyz''] then (''GET /readyz'', Readyz)
      else (''/'', CatchAll))"

definition run_endpoint :: "uuid_lib \<Rightarrow> api_env \<Rightarrow> serve_env \<Rightarrow> endpoint \<Rightarrow> http_handler" where
  "run_endpoint U a env e =
     (case e of
        SlowQuery \<Rightarrow> slowQuery a env
      | CreateOrderE \<Rightarrow> createOrder U a env
      | ListOrdersE \<Rightarrow> listOrders U a env
      | GetOrderE i \<Rightarrow> getOrder U a env i
      | Healthz \<Rightarrow> healthz env
      | Readyz \<Rightarrow> readyz a env
      | CatchAll \<Rightarrow> catchAll env)"

text \<open>\<open>http.Redirect\<close>: a link whose target is escaped.\<close>

definition html_char :: "char \<Rightarrow> string" where
  "html_char c =
     (if c = CHR ''&'' then ''&amp;'' else if c = CHR ''<'' then ''&lt;'' else if c = CHR ''>'' then ''&gt;''
      else if c = CHR 0x22 then ''&#34;'' else if c = CHR 0x27 then ''&#39;'' else [c])"

definition redirect_page :: "string \<Rightarrow> string" where
  "redirect_page url =
     ''<a href='' @ [CHR 0x22] @ concat (map html_char url) @ [CHR 0x22] @ ''>Moved Permanently</a>.'' @ [CHR 0x0A, CHR 0x0A]"

definition redirect :: "serve_env \<Rightarrow> string \<Rightarrow> string \<Rightarrow> http_handler" where
  "redirect env url pat r t =
     (let (n, err) = write_res env (HtmlBody (redirect_page url)) in
      returns
        ([W (SetHeader ''Location'' url)] @
         (if Method r = ''GET'' \<or> Method r = ''HEAD''
          then [W (SetHeader ''Content-Type'' ''text/html; charset=utf-8'')] else []) @
         [W (WriteHeader 301)] @
         (if Method r = ''GET'' then [W (Write (HtmlBody (redirect_page url)) n err)] else [])) pat t)"

text \<open>\<open>ServeMux.ServeHTTP\<close> with the routes of \<open>NewRouter\<close>.\<close>

definition mux :: "uuid_lib \<Rightarrow> api_env \<Rightarrow> serve_env \<Rightarrow> bool \<Rightarrow> http_handler" where
  "mux U a env debug r t =
     (if Path r = ''*'' then
        returns [W (SetHeader ''Connection'' ''close''), W (WriteHeader 400)] (Pattern r) t
      else if Method r = ''CONNECT'' then
        (if Path r = [] then
           returns [W (SetHeader ''Content-Type'' ''text/plain; charset=utf-8''),
                    W (SetHeader ''X-Content-Type-Options'' ''nosniff''), W (WriteHeader 404),
                    W (Write (HtmlBody (''404 page not found'' @ [CHR 0x0A])) (fst (write_res env (HtmlBody (''404 page not found'' @ [CHR 0x0A]))))
                       (snd (write_res env (HtmlBody (''404 page not found'' @ [CHR 0x0A])))))] [] t
         else let (pat, e) = mux_match debug (Method r) (split_slash [] (tl (Path r)))
              in run_endpoint U a env e (r\<lparr>Pattern := pat\<rparr>) t)
      else
        let path = cleanPath (Path r);
            (pat, e) = mux_match debug (Method r) (split_slash [] (tl path))
        in if path \<noteq> Path r
           then redirect env (path @ (if RawQuery r = [] then [] else CHR ''?'' # RawQuery r)) pat r t
           else run_endpoint U a env e (r\<lparr>Pattern := pat\<rparr>) t)"

definition InstrumentedRoutes :: "(string \<times> string \<times> string) list" where
  "InstrumentedRoutes =
     [(''POST'', ''/orders'', ''201''), (''GET'', ''/orders'', ''200''), (''GET'', ''/orders/{id}'', ''200'')]"

definition serve :: "uuid_lib \<Rightarrow> api_env \<Rightarrow> serve_env \<Rightarrow> bool \<Rightarrow> http_handler" where
  "serve U a env debug = stack env (mux U a env debug)"

subsection \<open>Observing the service\<close>

definition patterns :: "string list" where
  "patterns = [''GET /debug/slow'', ''POST /orders'', ''GET /orders'', ''GET /orders/{id}'', ''GET /healthz'', ''GET /readyz'', ''/'']"

definition tame :: "request \<Rightarrow> hres \<Rightarrow> bool" where
  "tame r q \<longleftrightarrow> plain (wcalls (hev q)) \<and> (\<forall>p. hpanic q = Some p \<longrightarrow> \<not> aborts p) \<and> hpat q = Pattern r \<and>
     (\<forall>ls. ctr requests ls (effects (hev q)) = 0)"

definition api_codes :: "int set" where
  "api_codes = {200, 201, 301, 400, 404, 422, 500, 503}"

definition coded :: "hres \<Rightarrow> bool" where
  "coded q \<longleftrightarrow> (case first_status (wcalls (hev q)) of None \<Rightarrow> hpanic q \<noteq> None | Some c \<Rightarrow> c \<in> api_codes)"

definition route_labels :: "string set" where
  "route_labels = {''unmatched'', ''/debug/slow'', ''/orders'', ''/orders/{id}'', ''/healthz'', ''/readyz''}"

subsection \<open>A concrete environment\<close>

definition sample_api :: api_env where
  "sample_api =
     \<lparr>request_body = order_text sample_new, fresh_id = 9, api_now = 70, pg_time = (\<lambda>u. u), api_reply = ReplyOk,
      list_rank = (\<lambda>_. 0), ping_err = None, err_text = (\<lambda>_. [])\<rparr>"

subsection \<open>Accepted requests\<close>

text \<open>The order a request asks for can be inserted; the insert is also confirmed.\<close>

definition insertable :: "api_env \<Rightarrow> bool" where
  "insertable a \<longleftrightarrow> (\<exists>n. decoded a = Some n \<and> Validate n = None \<and> text_ok (NewCustomerID n))"

definition accepted :: "api_env \<Rightarrow> bool" where
  "accepted a \<longleftrightarrow> (\<exists>n. decoded a = Some n \<and> Validate n = None \<and> text_ok (NewCustomerID n) \<and> api_reply a = ReplyOk)"

section \<open>Lemmas\<close>

lemma sample_accepted: "accepted sample_api"
proof -
  have "decoded sample_api = Some sample_new" using sample_new_decoded [of "[]"] by (simp add: decoded_def sample_api_def)
  moreover have "text_ok (NewCustomerID sample_new)" "api_reply sample_api = ReplyOk"
    by (simp_all add: sample_new_def text_ok_def sample_api_def)
  ultimately show ?thesis using sample_new_valid by (auto simp: accepted_def)
qed

lemma accepted_iff: "accepted a \<longleftrightarrow> insertable a \<and> api_reply a = ReplyOk"
  by (auto simp: accepted_def insertable_def)

lemma returns_sel [simp]: "hev (returns es p t) = es" "hpanic (returns es p t) = None" "hpat (returns es p t) = p"
  "htab (returns es p t) = t"
  by (simp_all add: returns_def)

lemma panicking_sel [simp]: "hev (panicking es v p t) = es" "hpanic (panicking es v p t) = Some v" "hpat (panicking es v p t) = p"
  "htab (panicking es v p t) = t"
  by (simp_all add: panicking_def)

lemma tame_simps [simp]:
  "tame r (returns es p t) \<longleftrightarrow> plain (wcalls es) \<and> p = Pattern r \<and> (\<forall>ls. ctr requests ls (effects es) = 0)"
  "tame r (panicking es (PVal m) p t) \<longleftrightarrow> plain (wcalls es) \<and> p = Pattern r \<and> (\<forall>ls. ctr requests ls (effects es) = 0)"
  by (auto simp: tame_def)

lemma OrderCreated_requests [simp]: "ctr requests ls (OrderCreated c n) = 0"
  by (simp add: OrderCreated_def Transition_def delta_Metric created_def createdValue_def transitions_def requests_def)

lemma createOrder_tame: "tame r (createOrder U a env r t)"
  by (simp add: createOrder_def Let_def split: option.split prod.split res.split)

lemma getOrder_tame: "tame r (getOrder U a env i r t)"
  by (simp add: getOrder_def Let_def split: option.split res.split)

lemma listOrders_tame: "tame r (listOrders U a env r t)"
  by (simp add: listOrders_def Let_def split: option.split res.split)

lemma slowQuery_tame: "tame r (slowQuery a env r t)"
  by (simp add: slowQuery_def Let_def split: option.split res.split)

lemma others_tame: "tame r (healthz env r t)" "tame r (readyz a env r t)" "tame r (catchAll env r t)"
  by (simp_all add: healthz_def readyz_def catchAll_def split: option.split)

lemma endpoint_tame: "tame r (run_endpoint U a env e r t)"
  by (cases e) (simp_all add: run_endpoint_def createOrder_tame getOrder_tame listOrders_tame slowQuery_tame others_tame)

lemma mux_match_pattern: "fst (mux_match debug m segs) \<in> set patterns"
  by (simp add: mux_match_def patterns_def Let_def)

lemma mux_tame:
  assumes "Pattern r = []"
  shows "tame (r\<lparr>Pattern := hpat (mux U a env debug r t)\<rparr>) (mux U a env debug r t)"
    "hpat (mux U a env debug r t) \<in> set ([] # patterns)"
proof -
  have e: "tame (r\<lparr>Pattern := p\<rparr>) (run_endpoint U a env e (r\<lparr>Pattern := p\<rparr>) t)" for p e by (rule endpoint_tame)
  then have p: "hpat (run_endpoint U a env e (r\<lparr>Pattern := p\<rparr>) t) = p" for p e by (simp add: tame_def)
  show "tame (r\<lparr>Pattern := hpat (mux U a env debug r t)\<rparr>) (mux U a env debug r t)"
    using e p by (auto simp: mux_def Let_def redirect_def split: prod.split)
  show "hpat (mux U a env debug r t) \<in> set ([] # patterns)"
    using p assms mux_match_pattern [of debug "Method r" "split_slash [] (tl (Path r))"]
      mux_match_pattern [of debug "Method r" "split_slash [] (tl (cleanPath (Path r)))"]
    by (auto simp: mux_def Let_def redirect_def split: prod.splits)
qed

lemma routeLabel_closed:
  "Pattern r \<in> set ([] # patterns) \<Longrightarrow>
     routeLabel r \<in> {''unmatched'', ''/debug/slow'', ''/orders'', ''/orders/{id}'', ''/healthz'', ''/readyz''}"
  by (auto simp: patterns_def routeLabel_def routeUnmatched_def)


lemma tame_fields: "tame r q \<Longrightarrow> plain (wcalls (hev q))" "tame r q \<Longrightarrow> hpanic q = Some p \<Longrightarrow> \<not> aborts p"
  "tame r q \<Longrightarrow> hpat q = Pattern r" "tame r q \<Longrightarrow> ctr requests ls (effects (hev q)) = 0"
  by (simp_all add: tame_def)

subsection \<open>Status codes\<close>

lemma coded_simps [simp]:
  "coded (returns es p t) \<longleftrightarrow> (\<exists>c \<in> api_codes. first_status (wcalls es) = Some c)"
  "coded (panicking [] v p t)"
  by (auto simp: coded_def split: option.split)

lemma in_api_codes [simp]:
  "200 \<in> api_codes" "201 \<in> api_codes" "301 \<in> api_codes" "400 \<in> api_codes" "404 \<in> api_codes"
  "422 \<in> api_codes" "500 \<in> api_codes" "503 \<in> api_codes"
  by (simp_all add: api_codes_def)

lemma wcalls_map_E_append [simp]: "wcalls (map E xs @ ys) = wcalls ys"
  by simp

lemma endpoint_coded: "coded (run_endpoint U a env e r t)"
  by (cases e)
    (simp_all add: run_endpoint_def createOrder_def getOrder_def listOrders_def slowQuery_def healthz_def readyz_def
      catchAll_def Let_def split: option.split prod.split res.split)

lemma mux_coded: "coded (mux U a env debug r t)"
  by (auto simp: mux_def Let_def redirect_def endpoint_coded split: prod.split)

lemma inner_Pattern: "Pattern r = [] \<Longrightarrow> Pattern (inner_request env r) = []"
  by simp

lemma serve_code:
  assumes "\<not> probe r" "Pattern r = []"
  shows "client_status (wcalls (hev (serve U a env debug r t))) \<in> api_codes"
proof -
  let ?h = "mux U a env debug" and ?i = "inner_request env r"
  have tm: "plain (wcalls (hev (?h ?i t)))" "\<forall>p. hpanic (?h ?i t) = Some p \<longrightarrow> \<not> aborts p"
    using mux_tame(1) [of ?i U a env debug t] assms(2) by (auto dest: tame_fields)
  have pl: "plain (wcalls (hev (recovered env ?h r t)))" by (rule recovered_plain [of ?h env r t, OF tm(1)])
  have "client_status (wcalls (hev (stack env ?h r t))) = client_status (wcalls (hev (recovered env ?h r t)))"
    using stack_spec [OF assms(1) pl] by (simp add: same_response_def)
  also have "\<dots> = (case first_status (wcalls (hev (recovered env ?h r t))) of None \<Rightarrow> 200 | Some c \<Rightarrow> c)"
    by (rule client_status_first [OF pl])
  also have "\<dots> \<in> api_codes"
  proof (cases "hpanic (?h ?i t)")
    case None
    then have "recovered env ?h r t = ?h ?i t" using Recover_other [of ?h env r t] by simp
    then show ?thesis using mux_coded [of U a env debug ?i t] by (simp add: coded_def split: option.splits)
  next
    case (Some p)
    then show ?thesis using Recover_panic(4) [of ?h env r t p] tm(2) mux_coded [of U a env debug ?i t]
      by (auto simp: coded_def split: option.splits)
  qed
  finally show ?thesis by (simp add: serve_def)
qed

section \<open>Properties\<close>

text \<open>
  (C5) Metrics, log and trace agree on every request, on labels from closed sets. Serving any request
  (other than a health probe) returns normally; the request is counted exactly once, under a
  route template of the routing table, its method and exactly the status the client receives, one of
  eight; the access log has one line with that route and status, at error level for 5xx and at
  warning level for 4xx; and the span is named and tagged with the same route and status.
\<close>

theorem three_pillars_agree:
  assumes "\<not> probe r" "Pattern r = []"
    and "out = serve U a env debug r t" "c = client_status (wcalls (hev out))"
  shows "hpanic out = None \<and> c \<in> api_codes \<and>
    (\<exists>route \<in> route_labels.
      (\<forall>ls. ctr requests ls (effects (hev out)) = of_bool (ls = [route, Method r, itoa c, statusClass c])) \<and>
      (\<exists>logs n. log_events (hev out) = logs @
         [L (CtxAttrs (inner_request env r)) (access_level c) ''http request''
            [(''method'', AStr (Method r)), (''route'', AStr route), (''status'', AInt c),
             (''duration_ms'', AMillis (elapsed env)), (''bytes'', AInt n), (''remote_addr'', AStr (clientIP r)),
             (''user_agent'', AStr (Header r ''User-Agent''))]]) \<and>
      (\<exists>es. effects (hev out) = es @
         [SpanName 0 (Method r @ '' '' @ route),
          SpanAttrs 0 [(''http.route'', AStr route), (''http.response.status_code'', AInt c)],
          if 500 \<le> c then SpanStatus 0 CodeError (StatusText c) else SpanStatus 0 CodeOk [], SpanEnd 0]))"
proof -
  let ?h = "mux U a env debug" and ?i = "inner_request env r"
  have tm: "tame (?i\<lparr>Pattern := hpat (?h ?i t)\<rparr>) (?h ?i t)" using mux_tame(1) [of ?i U a env debug t] assms(2) by simp
  have "hpat (?h ?i t) \<in> set ([] # patterns)" using mux_tame(2) [of ?i U a env debug t] assms(2) by simp
  then have route: "routeLabel (r\<lparr>Pattern := hpat (?h ?i t)\<rparr>) \<in> route_labels"
    unfolding route_labels_def by (intro routeLabel_closed) simp
  have out: "out = stack env ?h r t" by (simp add: assms(3) serve_def)
  have "\<forall>p. hpanic (?h ?i t) = Some p \<longrightarrow> \<not> aborts p" using tame_fields(2) [OF tm] by blast
  note agree = stack_agree [of r ?h env t, OF assms(1) tame_fields(1) [OF tm] this refl out assms(4) refl]
  show ?thesis
    using agree route serve_code [OF assms(1,2), of U a env debug t] tame_fields(4) [OF tm] assms(3,4)
    by (intro conjI bexI [OF _ route]) auto
qed

theorem three_pillars_agree_witness:
  "\<exists>route \<in> route_labels.
     ctr requests [route, ''PURGE'',
       itoa (client_status (wcalls (hev (serve canonical_lib sample_api sample_serve_env False sample_request sample_table)))),
       statusClass (client_status (wcalls (hev (serve canonical_lib sample_api sample_serve_env False sample_request sample_table))))]
       (effects (hev (serve canonical_lib sample_api sample_serve_env False sample_request sample_table))) = 1"
  using three_pillars_agree [of sample_request _ canonical_lib sample_api sample_serve_env False sample_table, OF _ _ refl refl]
  by (auto simp: probe_def sample_request_def)

text \<open>
  (C27) The method label is open. The catch-all route answers every method, and the method goes into
  the label as the client sent it: each of the unboundedly many method names creates its own
  \<open>requests_total\<close> series under \<open>unmatched\<close>.
\<close>

theorem method_label_open:
  assumes "Path r = ''/x''" "Pattern r = []" "Method r = m"
  shows "ctr requests [''unmatched'', m, ''404'', ''4xx''] (effects (hev (serve U a env debug r t))) = 1"
proof -
  let ?h = "mux U a env debug" and ?i = "inner_request env r"
  have np: "\<not> probe r" using assms(1) by (simp add: probe_def)
  have tm: "tame (?i\<lparr>Pattern := hpat (?h ?i t)\<rparr>) (?h ?i t)" using mux_tame(1) [of ?i U a env debug t] assms(2) by simp
  have clean: "cleanPath ''/x'' = ''/x''" "split_slash [] ''x'' = [''x'']" by code_simp+
  have h: "?h ?i t = catchAll env (?i\<lparr>Pattern := ''/''\<rparr>) t"
    using assms(1) clean by (simp add: mux_def mux_match_def run_endpoint_def Let_def)
  have pl: "plain (wcalls (hev (recovered env ?h r t)))" by (rule recovered_plain [of ?h env r t, OF tame_fields(1) [OF tm]])
  have np': "hpanic (?h ?i t) = None" by (simp add: h catchAll_def)
  then have "recovered env ?h r t = ?h ?i t" using Recover_other [of ?h env r t] by simp
  then have c: "client_status (wcalls (hev (stack env ?h r t))) = 404"
    using stack_spec [OF np pl] client_status_first [OF pl] by (simp add: same_response_def h catchAll_def)
  have route: "routeLabel (r\<lparr>Pattern := hpat (?h ?i t)\<rparr>) = ''unmatched''"
    by (simp add: h catchAll_def routeLabel_def routeUnmatched_def)
  have code: "itoa 404 = ''404''" "statusClass 404 = ''4xx''" by code_simp+
  have "\<forall>p. hpanic (?h ?i t) = Some p \<longrightarrow> \<not> aborts p" using np' by simp
  from stack_agree [of r ?h env t, OF np tame_fields(1) [OF tm] this refl refl refl refl]
  show ?thesis using tame_fields(4) [OF tm] assms(3) by (simp add: c route code serve_def)
qed

theorem method_label_open_witness:
  "ctr requests [''unmatched'', ''PURGE'', ''404'', ''4xx'']
     (effects (hev (serve canonical_lib sample_api sample_serve_env False sample_request []))) = 1"
  using method_label_open [of sample_request "''PURGE''" canonical_lib sample_api sample_serve_env False "[]"]
  by (simp add: sample_request_def)

lemma createOrder_cases:
  assumes "uuid_lib_ok U" "fresh_id a \<notin> set (map ID t)"
  shows "(accepted a \<longrightarrow> (\<exists>n. decoded a = Some n \<and> Validate n = None \<and>
      createOrder U a env r t = returns
        (map E (OrderCreated (NewCurrency n) (NewAmountCents n)) @
         [W (SetHeader ''Location'' (''/orders/'' @ ustring U (fresh_id a)))] @
         writeJSON env (CtxAttrs r) 201 (Some (OrderBody (Build (fresh_id a) (api_now a) n)))) (Pattern r)
        (t @ [stored (pg_time a) (Build (fresh_id a) (api_now a) n)]))) \<and>
    (\<not> accepted a \<longrightarrow>
      effects (hev (createOrder U a env r t)) = [] \<and>
      (case first_status (wcalls (hev (createOrder U a env r t))) of
         None \<Rightarrow> hpanic (createOrder U a env r t) \<noteq> None | Some c \<Rightarrow> c \<in> {400, 422, 500}) \<and>
      (\<not> (insertable a \<and> lost (api_reply a)) \<longrightarrow> htab (createOrder U a env r t) = t))"
proof (cases "\<exists>n. decoded a = Some n \<and> Validate n = None")
  case True
  then obtain n where n: "decoded a = Some n" "Validate n = None" by blast
  have create: "CreateOrder U (pg_time a) ReplyOk (Build (fresh_id a) (api_now a) n) t =
    (if text_ok (NewCustomerID n) then (Ok (), t @ [stored (pg_time a) (Build (fresh_id a) (api_now a) n)])
     else (Err (Wrap ''store: create order'' (pg_error ''22021'')), t))"
    by (rule CreateOrder_build [OF assms(1) n(2) assms(2)])
  then have rejected: "\<not> text_ok (NewCustomerID n) \<Longrightarrow>
      pg_table q (sql_insert U (pg_time a) (ustring U (fresh_id a)) (Build (fresh_id a) (api_now a) n)) t = t" for q
    by (auto simp: CreateOrder_def pg_run_def pg_table_def split: sum.splits pg_reply.splits if_splits)
  show ?thesis
  proof (cases "api_reply a")
    case ReplyOk
    then show ?thesis using n create
      by (auto simp: createOrder_def Let_def accepted_def)
  next
    case (ReplyLost k e)
    then show ?thesis using n rejected [of "ReplyLost k e"]
      by (auto simp: createOrder_def Let_def accepted_def insertable_def CreateOrder_def pg_run_def lost_def split: sum.splits)
  qed (use n in \<open>auto simp: createOrder_def Let_def accepted_def CreateOrder_def pg_run_def pg_table_def lost_def split: sum.splits\<close>)
next
  case False
  then show ?thesis by (auto simp: createOrder_def Let_def accepted_def split: option.splits)
qed

lemma createOrder_lost:
  assumes "uuid_lib_ok U" "fresh_id a \<notin> set (map ID t)" "insertable a" "lost (api_reply a)" "decoded a = Some n"
  shows "htab (createOrder U a env r t) = t @ [stored (pg_time a) (Build (fresh_id a) (api_now a) n)] \<and>
    hpanic (createOrder U a env r t) = None \<and> first_status (wcalls (hev (createOrder U a env r t))) = Some 500"
proof -
  have n: "Validate n = None" "text_ok (NewCustomerID n)" using assms(3,5) by (auto simp: insertable_def)
  have "CreateOrder U (pg_time a) ReplyOk (Build (fresh_id a) (api_now a) n) t =
      (Ok (), t @ [stored (pg_time a) (Build (fresh_id a) (api_now a) n)])"
    using CreateOrder_build [OF assms(1) n(1) assms(2)] n(2) by simp
  moreover obtain k e where "api_reply a = ReplyLost k e" using assms(4) by (auto simp: lost_def split: pg_reply.splits)
  ultimately show ?thesis using assms(5) n(1)
    by (auto simp: createOrder_def Let_def CreateOrder_def pg_run_def pg_table_def split: sum.splits)
qed

text \<open>
  (C9) Creating an order over HTTP. The client gets 201 exactly when the body decodes, validates, holds no
  zero byte in the customer id and the database confirms the insert; then the order is in the table as
  \<open>pending\<close>, and the created counter, its value and the transition counter record it. In every
  other case no business event is recorded, and the status is 400, 422 or 500 unless the driver panicked. The table
  gets the order exactly when it can be inserted and the insert is executed, that is also when
  the answer to the committed insert is lost: then the order is stored, the client gets 500 and no event is
  recorded. Otherwise the table is unchanged. An order that passes validation with a zero byte in its
  customer id is answered with 500.
\<close>

theorem create_order_spec:
  assumes "table_ok t" "uuid_lib_ok U" "fresh_id a \<notin> set (map ID t)" "q = createOrder U a env r t"
  shows "(first_status (wcalls (hev q)) = Some 201 \<longleftrightarrow> insertable a \<and> api_reply a = ReplyOk) \<and>
    (htab q \<noteq> t \<longleftrightarrow> insertable a \<and> (api_reply a = ReplyOk \<or> lost (api_reply a))) \<and>
    (htab q \<noteq> t \<longrightarrow> (\<exists>n. decoded a = Some n \<and> htab q = t @ [stored (pg_time a) (Build (fresh_id a) (api_now a) n)] \<and>
       table_ok (htab q) \<and> life_cycle t (htab q) \<and> hpanic q = None \<and>
       (if api_reply a = ReplyOk
        then ctr created [NewCurrency n] (effects (hev q)) = 1 \<and>
          ctr createdValue [NewCurrency n] (effects (hev q)) = NewAmountCents n \<and>
          ctr transitions [''new'', StatusPending] (effects (hev q)) = 1
        else first_status (wcalls (hev q)) = Some 500))) \<and>
    (\<not> (insertable a \<and> api_reply a = ReplyOk) \<longrightarrow> effects (hev q) = [] \<and>
       (case first_status (wcalls (hev q)) of None \<Rightarrow> hpanic q \<noteq> None | Some c \<Rightarrow> c \<in> {400, 422, 500})) \<and>
    (decoded a = Some m \<and> Validate m = None \<and> \<not> text_ok (NewCustomerID m) \<and> api_reply a = ReplyOk \<longrightarrow>
       first_status (wcalls (hev q)) = Some 500)"
proof -
  have stored: "table_ok (t @ [stored (pg_time a) (Build (fresh_id a) (api_now a) n)]) \<and>
      life_cycle t (t @ [stored (pg_time a) (Build (fresh_id a) (api_now a) n)])" if "Validate n = None" for n
    using assms(1,3) Build_row_check [OF that] by (auto intro!: snoc_ok snoc_life)
  show ?thesis
  proof (cases "accepted a")
    case True
    then obtain n where n: "decoded a = Some n" "Validate n = None"
      and q: "q = returns
          (map E (OrderCreated (NewCurrency n) (NewAmountCents n)) @
           [W (SetHeader ''Location'' (''/orders/'' @ ustring U (fresh_id a)))] @
           writeJSON env (CtxAttrs r) 201 (Some (OrderBody (Build (fresh_id a) (api_now a) n)))) (Pattern r)
          (t @ [stored (pg_time a) (Build (fresh_id a) (api_now a) n)])"
      using createOrder_cases [OF assms(2,3), of env r] by (auto simp: assms(4))
    show ?thesis using True n q stored [OF n(2)]
      by (auto simp: OrderCreated_def Transition_def delta_Metric business_defs StatusPending_def accepted_iff insertable_def)
  next
    case False
    have zero: "first_status (wcalls (hev q)) = Some 500"
      if "decoded a = Some m" "Validate m = None" "\<not> text_ok (NewCustomerID m)" "api_reply a = ReplyOk"
      using that CreateOrder_build [OF assms(2) that(2) assms(3)] by (simp add: assms(4) createOrder_def Let_def)
    have rest: "effects (hev q) = []"
      "case first_status (wcalls (hev q)) of None \<Rightarrow> hpanic q \<noteq> None | Some c \<Rightarrow> c \<in> {400, 422, 500}"
      "\<not> (insertable a \<and> lost (api_reply a)) \<Longrightarrow> htab q = t"
      using createOrder_cases [OF assms(2,3), of env r] False unfolding assms(4) by blast+
    have not201: "first_status (wcalls (hev q)) \<noteq> Some 201" using rest(2) by auto
    have unconfirmed: "insertable a \<Longrightarrow> api_reply a \<noteq> ReplyOk" using False by (simp add: accepted_iff)
    show ?thesis
    proof (cases "insertable a \<and> lost (api_reply a)")
      case True
      then obtain n where n: "decoded a = Some n" "Validate n = None" by (auto simp: insertable_def)
      have "htab q = t @ [stored (pg_time a) (Build (fresh_id a) (api_now a) n)]" "hpanic q = None"
        "first_status (wcalls (hev q)) = Some 500"
        using createOrder_lost [OF assms(2,3) _ _ n(1), of env r] True by (simp_all add: assms(4))
      then show ?thesis using True n(1) rest(1) unconfirmed stored [OF n(2)] by simp
    next
      case False
      then show ?thesis using rest not201 unconfirmed zero by blast
    qed
  qed
qed

theorem create_order_spec_witness:
  "first_status (wcalls (hev (createOrder canonical_lib sample_api sample_serve_env sample_request sample_table))) = Some 201 \<and>
   (let q = createOrder canonical_lib (sample_api\<lparr>api_reply := ReplyLost 0 Canceled\<rparr>) sample_serve_env sample_request sample_table
    in htab q \<noteq> sample_table \<and> first_status (wcalls (hev q)) = Some 500 \<and> effects (hev q) = [])"
proof -
  let ?b = "sample_api\<lparr>api_reply := ReplyLost 0 Canceled\<rparr>"
  have i: "fresh_id sample_api \<notin> set (map ID sample_table)" "fresh_id ?b \<notin> set (map ID sample_table)"
    by (simp_all add: sample_api_def sample_table_def)
  have a: "insertable sample_api" "api_reply sample_api = ReplyOk" using sample_accepted by (auto simp: accepted_iff)
  then have b: "insertable ?b" "lost (api_reply ?b)" "api_reply ?b \<noteq> ReplyOk" by (simp_all add: insertable_def decoded_def lost_def)
  show ?thesis
    using create_order_spec [OF sample_table_ok canonical_lib_ok i(1) refl, of sample_serve_env sample_request] a
      create_order_spec [OF sample_table_ok canonical_lib_ok i(2) refl, of sample_serve_env sample_request] b
    by (simp add: Let_def) blast
qed

lemma clean_two:
  assumes "CHR ''/'' \<notin> set s" "s \<notin> {[], ''.'', ''..''}"
  shows "cleanPath (''/orders/'' @ s) = ''/orders/'' @ s" "split_slash [] (''orders/'' @ s) = [''orders'', s]"
proof -
  have sp: "CHR ''/'' \<notin> set u \<Longrightarrow> split_slash v u = [v @ u]" for u v
    by (induction v u rule: split_slash.induct) auto
  show "split_slash [] (''orders/'' @ s) = [''orders'', s]" using assms(1) by (simp add: sp)
  have "last (''/orders/'' @ s) \<noteq> CHR ''/''" using assms by (metis last_appendR last_in_set insertCI)
  then show "cleanPath (''/orders/'' @ s) = ''/orders/'' @ s" using assms by (simp add: cleanPath_def Let_def sp)
qed

text \<open>
  What was created can be fetched. The \<open>Location\<close> that a successful create returns routes to
  \<open>getOrder\<close>, which answers 200 with the stored order; a well-formed id that is not in the table gets
  404, and neither request changes the table.
\<close>

theorem created_order_fetchable:
  assumes "table_ok t" "uuid_lib_ok U" "fresh_id a \<notin> set (map ID t)" "accepted a"
    and "CHR ''/'' \<notin> set (ustring U i)" "ustring U i \<notin> {[], ''.'', ''..''}" "uparse U (ustring U i) = Some i"
    and "t' = htab (createOrder U a env r t)"
    and "Method r' = ''GET''" "Path r' = ''/orders/'' @ ustring U i" "api_reply a' = ReplyOk"
  shows "htab (mux U a' env debug r' t') = t' \<and> hpat (mux U a' env debug r' t') = ''GET /orders/{id}'' \<and>
    (case GetOrder U ReplyOk i t' of
       Ok x \<Rightarrow> wcalls (hev (mux U a' env debug r' t')) = wcalls (writeJSON env (CtxAttrs r') 200 (Some (OrderBody x)))
     | _ \<Rightarrow> first_status (wcalls (hev (mux U a' env debug r' t'))) = Some 404) \<and>
    (i = fresh_id a \<longrightarrow> (\<exists>n. decoded a = Some n \<and>
       GetOrder U ReplyOk i t' = Ok (stored (pg_time a) (Build i (api_now a) n))))"
proof -
  have m: "mux U a' env debug r' t' = getOrder U a' env (ustring U i) (r'\<lparr>Pattern := ''GET /orders/{id}''\<rparr>) t'"
    using clean_two [OF assms(5,6)] assms(6,9,10)
    by (simp add: mux_def mux_match_def run_endpoint_def Let_def)
  obtain n where n: "decoded a = Some n" "t' = t @ [stored (pg_time a) (Build (fresh_id a) (api_now a) n)]"
    using createOrder_cases [OF assms(2,3), of env r] assms(4) by (auto simp: assms(8))
  have "GetOrder U ReplyOk (fresh_id a) t' = Ok (stored (pg_time a) (Build (fresh_id a) (api_now a) n))"
    using find_ID_None [OF assms(3)] by (simp add: GetOrder_ok [OF assms(2)] n find_append)
  moreover have "GetOrder U ReplyOk i t' = Err ErrNotFound \<or> (\<exists>x. GetOrder U ReplyOk i t' = Ok x)"
    by (simp add: GetOrder_ok [OF assms(2)] split: option.split)
  ultimately show ?thesis using n(1) assms(7,11) by (auto simp: m getOrder_def Let_def)
qed

text \<open>
  (C20) Listing is bounded and total. When the database answers, the parameters decide between 400 and
  200: the limit must be an integer from 1 to 100 (20 when absent), the offset a non-negative one
  (0 when absent), the status a known one; then the page is the corresponding slice of the listing
  and no statement error or panic can arise from the parameters.
\<close>

theorem list_orders_spec:
  assumes "uuid_lib_ok U" "api_reply a = ReplyOk" "q = listOrders U a env r t"
  shows "hpanic q = None \<and> htab q = t \<and>
    (case (intParam (query_get r ''limit'') 20, intParam (query_get r ''offset'') 0) of
       (Some limit, Some off) \<Rightarrow>
         if 1 \<le> limit \<and> limit \<le> 100 \<and> 0 \<le> off \<and> (query_get r ''status'' = [] \<or> Valid (query_get r ''status''))
         then wcalls (hev q) = wcalls (writeJSON env (CtxAttrs r) 200
           (Some (ListBody (take (nat limit) (drop (nat off) (hits (list_rank a) (query_get r ''status'') t))) limit off)))
         else first_status (wcalls (hev q)) = Some 400
     | _ \<Rightarrow> first_status (wcalls (hev q)) = Some 400)"
  using assms(1,2)
  by (auto simp: assms(3) listOrders_def Let_def ListOrders_ok split: option.split)

theorem list_orders_spec_witness:
  "first_status (wcalls (hev (listOrders canonical_lib sample_api sample_serve_env
     (sample_request\<lparr>Query := [(''limit'', ''0'')]\<rparr>) sample_table))) = Some 400"
proof -
  have "intParam (query_get (sample_request\<lparr>Query := [(''limit'', ''0'')]\<rparr>) ''limit'') 20 = Some 0"
    "intParam (query_get (sample_request\<lparr>Query := [(''limit'', ''0'')]\<rparr>) ''offset'') 0 = Some 0" by code_simp+
  then show ?thesis
    using list_orders_spec [OF canonical_lib_ok _ refl, of sample_api sample_serve_env
        "sample_request\<lparr>Query := [(''limit'', ''0'')]\<rparr>" sample_table]
    by (simp add: sample_api_def)
qed

theorem created_order_fetchable_witness:
  "hpat (mux canonical_lib sample_api sample_serve_env False
     (sample_request\<lparr>Method := ''GET'', Path := ''/orders/'' @ ustring canonical_lib 9\<rparr>)
     (htab (createOrder canonical_lib sample_api sample_serve_env sample_request sample_table))) = ''GET /orders/{id}''"
proof -
  have u: "CHR ''/'' \<notin> set (ustring canonical_lib 9)" "ustring canonical_lib 9 \<notin> {[], ''.'', ''..''}"
    "uparse canonical_lib (ustring canonical_lib 9) = Some 9"
    by (code_simp, code_simp, simp add: canonical_lib_def parse_canonical_canonical)
  have "fresh_id sample_api \<notin> set (map ID sample_table)" by (simp add: sample_api_def sample_table_def)
  moreover note sample_accepted
  moreover have "api_reply sample_api = ReplyOk" by (simp add: sample_api_def)
  ultimately show ?thesis
    using created_order_fetchable [OF sample_table_ok canonical_lib_ok _ _ u refl, of sample_api
        "sample_request\<lparr>Method := ''GET'', Path := ''/orders/'' @ ustring canonical_lib 9\<rparr>" sample_api] by simp
qed

end
