(* ===== verification/Worker.thy ===== *)
theory Worker
  imports Complex_Main Store_Properties Business_Metrics
begin

text \<open>
  internal/worker/worker.go: configuration defaults, the simulated payment, the panic guard,
  \<open>processOne\<close>, \<open>runOnce\<close> and the ticker loop \<open>Run\<close>. A call takes the orders table and
  returns it updated together with the telemetry it emitted, in order.

  Everything decided outside the code is an argument of the call: what the processor returns or that
  it panics, when the context is cancelled, how each database round trip ends, the clock. Within
  one batch the span \<open>worker.batch\<close> is span 0 and the span of the \<open>k\<close>-th order is span \<open>Suc k\<close>.
\<close>

section \<open>Definitions\<close>

subsection \<open>Configuration\<close>

record worker_config =
  Interval :: duration
  BatchSize :: int
  FailureRate :: rat
  MinLatency :: duration
  MaxLatency :: duration
  WTracer :: "string option" \<comment> \<open>\<^term>\<open>None\<close> is the nil tracer\<close>

definition withDefaults :: "worker_config \<Rightarrow> worker_config" where
  "withDefaults c0 =
     (let c1 = (if Interval c0 \<le> 0 then c0\<lparr>Interval := 500 * Millisecond\<rparr> else c0);
          c2 = (if BatchSize c1 \<le> 0 then c1\<lparr>BatchSize := 20\<rparr> else c1);
          c3 = (if MinLatency c2 \<le> 0 then c2\<lparr>MinLatency := 5 * Millisecond\<rparr> else c2);
          c4 = (if MaxLatency c3 \<le> MinLatency c3
                then c3\<lparr>MaxLatency := wrap64 (MinLatency c3 + 45 * Millisecond)\<rparr> else c3);
          c5 = (if WTracer c4 = None then c4\<lparr>WTracer := Some ''noop''\<rparr> else c4)
      in c5)"

subsection \<open>The context and the processor\<close>

datatype ctx_state =
    CtxLive
  | CtxDoneDuring goerr \<comment> \<open>cancelled while the processor waits: its select takes \<open>ctx.Done()\<close>\<close>
  | CtxDoneAfter goerr \<comment> \<open>cancelled, but the processor had already taken its timer\<close>

fun ctx_err :: "ctx_state \<Rightarrow> goerr option" where
  "ctx_err CtxLive = None"
| "ctx_err (CtxDoneDuring e) = Some e"
| "ctx_err (CtxDoneAfter e) = Some e"

datatype 'a run = Returns 'a | Panics string

record order_env =
  octx :: ctx_state
  rnd :: rat \<comment> \<open>\<open>rand.Float64()\<close>\<close>
  mark_reply :: pg_reply
  mark_now :: time
  took :: duration
  osc :: "span_context option"

type_synonym processor = "order_env \<Rightarrow> Order \<Rightarrow> (status \<times> goerr option) run"

text \<open>\<open>rand.Int63n\<close> panics on a spread that is not positive.\<close>

definition simulatePayment :: "worker_config \<Rightarrow> processor" where
  "simulatePayment cfg e x =
     (let spread = wrap64 (MaxLatency cfg - MinLatency cfg) in
      if spread \<le> 0 then Panics ''invalid argument to Int63n''
      else
        case octx e of
          CtxDoneDuring er \<Rightarrow> Returns (StatusPending, Some er)
        | _ \<Rightarrow>
            if rnd e < FailureRate cfg then Returns (StatusFailed, None)
            else Returns (StatusPaid, None))"

subsection \<open>Panics\<close>

definition guard :: "nat \<Rightarrow> string \<Rightarrow> string option \<Rightarrow> effect list" where
  "guard sp stage r =
     (case r of
        None \<Rightarrow> []
      | Some m \<Rightarrow>
          WorkerPanic stage @
          [SpanError sp (Plain (''panic: '' @ m)),
           SpanStatus sp CodeError ''panic'',
           Log LevelError (Some sp) ''recovered panic in background worker''
             [(''stage'', AStr stage), (''panic'', AStr m), (''stack'', AStack)]])"

subsection \<open>One order\<close>

text \<open>The body of \<open>processOne\<close> up to its return, with the panic it ends in, if any.\<close>

definition process_body :: "uuid_lib \<Rightarrow> processor \<Rightarrow> order_env \<Rightarrow> nat \<Rightarrow> Order \<Rightarrow> table
    \<Rightarrow> effect list \<times> string option \<times> table" where
  "process_body U process e sp x t =
     (case process e x of
        Panics m \<Rightarrow> ([], Some m, t)
      | Returns (outcome0, err) \<Rightarrow>
          if err \<noteq> None \<and> ctx_err (octx e) \<noteq> None then
            (case MarkOrder U (mark_reply e) (mark_now e) (ID x) StatusPending t of
               (Panicked m, t') \<Rightarrow> ([], Some m, t')
             | (Err relErr, t') \<Rightarrow>
                 ([Log LevelError (Some sp) ''releasing interrupted order failed''
                     [(''order_id'', AStr (ustring U (ID x))), (''error'', AErr relErr)]], None, t')
             | (Ok _, t') \<Rightarrow>
                 ([Log LevelInfo (Some sp) ''released interrupted order back to pending''
                     [(''order_id'', AStr (ustring U (ID x)))],
                   SpanStatus sp CodeError ''interrupted; released to pending''] @
                  Transition StatusProcessing StatusPending, None, t'))
          else
            let outcome = (case err of None \<Rightarrow> outcome0 | Some _ \<Rightarrow> StatusFailed);
                logged = (case err of
                    None \<Rightarrow> []
                  | Some er \<Rightarrow>
                      [Log LevelError (Some sp) ''processing order failed''
                         [(''order_id'', AStr (ustring U (ID x))), (''error'', AErr er)]])
            in
            (case MarkOrder U (mark_reply e) (mark_now e) (ID x) outcome t of
               (Panicked m, t') \<Rightarrow> (logged, Some m, t')
             | (Err er, t') \<Rightarrow>
                 if errors_is er ErrConflict then
                   (logged @ [Log LevelDebug (Some sp) ''order already finalised''
                      [(''order_id'', AStr (ustring U (ID x)))]], None, t')
                 else
                   (logged @ [Log LevelError (Some sp) ''marking order failed''
                      [(''order_id'', AStr (ustring U (ID x))), (''error'', AErr er)]], None, t')
             | (Ok _, t') \<Rightarrow>
                 (logged @ [SpanAttrs sp [(''order.outcome'', AStr outcome)]] @
                  (if outcome = StatusFailed then [SpanStatus sp CodeError ''payment failed''] else []) @
                  Transition StatusProcessing outcome @
                  OrderProcessed (osc e) outcome (took e), None, t')))"

definition processOne :: "uuid_lib \<Rightarrow> processor \<Rightarrow> order_env \<Rightarrow> nat \<Rightarrow> nat \<Rightarrow> Order \<Rightarrow> table
    \<Rightarrow> effect list \<times> table" where
  "processOne U process e parent sp x t =
     (case process_body U process e sp x t of (es, p, t') \<Rightarrow>
       ([SpanStart sp (Some parent) ''worker.process_order'' [(''order.id'', AStr (ustring U (ID x)))]] @
        es @ guard sp ''process_order'' p @ [SpanEnd sp], t'))"

subsection \<open>One batch\<close>

fun process_all :: "uuid_lib \<Rightarrow> processor \<Rightarrow> (nat \<Rightarrow> order_env) \<Rightarrow> nat \<Rightarrow> Order list \<Rightarrow> table
    \<Rightarrow> effect list \<times> table" where
  "process_all U process envs k [] t = ([], t)"
| "process_all U process envs k (x # xs) t =
     (let (es, t1) = processOne U process (envs k) 0 (Suc k) x t;
          (fs, t2) = process_all U process envs (Suc k) xs t1
      in (es @ fs, t2))"

record batch_env =
  claim_reply :: pg_reply
  cenv :: claim_env
  claim_ctx :: "goerr option" \<comment> \<open>\<open>ctx.Err()\<close> after a failed claim\<close>
  order_envs :: "nat \<Rightarrow> order_env"
  batch_took :: duration
  bsc :: "span_context option"

definition run_body :: "uuid_lib \<Rightarrow> worker_config \<Rightarrow> processor \<Rightarrow> batch_env \<Rightarrow> table
    \<Rightarrow> effect list \<times> string option \<times> table" where
  "run_body U cfg process b t =
     (case ClaimPendingOrders U (claim_reply b) (cenv b) (BatchSize cfg) t of
        (Panicked m, t') \<Rightarrow> ([], Some m, t')
      | (Err er, t') \<Rightarrow>
          if claim_ctx b \<noteq> None then ([], None, t')
          else
            ([Log LevelError (Some 0) ''claim pending orders failed'' [(''error'', AErr er)],
              SpanError 0 er,
              SpanStatus 0 CodeError ''claim failed''] @
             WorkerRun (bsc b) ''error'' 0 (batch_took b), None, t')
      | (Ok orders, t') \<Rightarrow>
          if orders = [] then
            ([SpanAttrs 0 [(''batch.size'', AInt 0)]] @ WorkerRun (bsc b) ''empty'' 0 (batch_took b), None, t')
          else
            (case process_all U process (order_envs b) 0 orders t' of (es, t'') \<Rightarrow>
              ([SpanAttrs 0 [(''batch.size'', AInt (int (length orders)))]] @
               concat (replicate (length orders) (Transition StatusPending StatusProcessing)) @
               es @ WorkerRun (bsc b) ''ok'' (int (length orders)) (batch_took b), None, t'')))"

definition runOnce :: "uuid_lib \<Rightarrow> worker_config \<Rightarrow> processor \<Rightarrow> batch_env \<Rightarrow> table
    \<Rightarrow> effect list \<times> table" where
  "runOnce U cfg process b t =
     (case run_body U cfg process b t of (es, p, t') \<Rightarrow>
       ([SpanStart 0 None ''worker.batch'' []] @ es @ guard 0 ''batch'' p @ [SpanEnd 0], t'))"

subsection \<open>The loop\<close>

datatype wake = Tick batch_env | Done

fun run_loop :: "uuid_lib \<Rightarrow> worker_config \<Rightarrow> processor \<Rightarrow> wake list \<Rightarrow> table \<Rightarrow> effect list \<times> table" where
  "run_loop U cfg process [] t = ([], t)"
| "run_loop U cfg process (Done # ws) t = ([Log LevelInfo None ''worker stopped'' []], t)"
| "run_loop U cfg process (Tick b # ws) t =
     (let (es, t1) = runOnce U cfg process b t;
          (fs, t2) = run_loop U cfg process ws t1
      in (es @ fs, t2))"

definition Run :: "uuid_lib \<Rightarrow> worker_config \<Rightarrow> processor \<Rightarrow> wake list \<Rightarrow> table \<Rightarrow> effect list \<times> table" where
  "Run U cfg process ws t =
     (case run_loop U cfg process ws t of (es, t') \<Rightarrow>
       (Log LevelInfo None ''worker started''
          [(''interval'', ADur (Interval cfg)), (''batch_size'', AInt (BatchSize cfg))] # es, t'))"

text \<open>\<open>New\<close>: defaults applied, the simulated payment as processor.\<close>

definition New :: "worker_config \<Rightarrow> worker_config \<times> processor" where
  "New cfg0 = (let cfg = withDefaults cfg0 in (cfg, simulatePayment cfg))"

definition WithProcessor :: "processor \<Rightarrow> worker_config \<times> processor \<Rightarrow> worker_config \<times> processor" where
  "WithProcessor p w = (fst w, p)"

subsection \<open>What a batch should do\<close>

text \<open>The status an order is meant to reach, given what the processor returned.\<close>

fun wanted :: "ctx_state \<Rightarrow> (status \<times> goerr option) run \<Rightarrow> status" where
  "wanted c (Panics m) = StatusProcessing"
| "wanted c (Returns (outcome, err)) =
     (if err \<noteq> None \<and> ctx_err c \<noteq> None then StatusPending
      else if err \<noteq> None then StatusFailed else outcome)"

subsection \<open>Labels created at start-up\<close>

definition preinit_series :: "mcall set" where
  "preinit_series = set (metric_calls (business_PreInit SupportedCurrencies AllTransitions))"

definition known_call :: "mcall \<Rightarrow> bool" where
  "known_call c \<longleftrightarrow> call_ok NewBusiness c \<and>
     (call_labels c \<noteq> [] \<longrightarrow> WithLabels (call_desc c) (call_labels c) \<in> preinit_series)"

definition known_trace :: "effect list \<Rightarrow> bool" where
  "known_trace es \<longleftrightarrow> (\<forall>c \<in> set (metric_calls es). known_call c)"

subsection \<open>Wake-ups in which no committed round trip is lost\<close>

fun wake_ok :: "wake \<Rightarrow> bool" where
  "wake_ok Done = True"
| "wake_ok (Tick b) = (\<not> lost (claim_reply b) \<and> (\<forall>k. \<not> lost (mark_reply (order_envs b k))))"

subsection \<open>A concrete table and a concrete batch\<close>

definition sample_config :: worker_config where
  "sample_config = withDefaults
     \<lparr>Interval = 0, BatchSize = 1, FailureRate = 8 / 100, MinLatency = 0, MaxLatency = 0, WTracer = None\<rparr>"

definition sample_order_env :: order_env where
  "sample_order_env =
     \<lparr>octx = CtxLive, rnd = 1 / 2, mark_reply = ReplyOk, mark_now = 70, took = 6000000, osc = None\<rparr>"

definition sample_batch :: batch_env where
  "sample_batch =
     \<lparr>claim_reply = ReplyOk,
      cenv = \<lparr>locked = [], scan_rank = (\<lambda>_. 0), returning_rank = (\<lambda>_. 0), claim_now = 60\<rparr>,
      claim_ctx = None, order_envs = (\<lambda>_. sample_order_env), batch_took = 7000000, bsc = None\<rparr>"

section \<open>Lemmas\<close>

subsection \<open>Configuration\<close>

lemma withDefaults_positive:
  "0 < Interval (withDefaults c)" "0 < BatchSize (withDefaults c)" "0 < MinLatency (withDefaults c)"
  by (simp_all add: withDefaults_def Let_def)

subsection \<open>The guard\<close>

lemma guard_ctr [simp, telemetry_simps]:
  "ctr transitions ls (guard sp st p) = 0"
  "ctr workerRuns ls (guard sp st p) = 0"
  "ctr workerPanics [q] (guard sp st p) = of_bool (p \<noteq> None \<and> st = q)"
  by (auto simp: guard_def split: option.split)

lemma flow_guard [simp]: "flow s (guard sp st p) = 0"
  by (rule flow_zero) simp

subsection \<open>Marking an order\<close>

lemma MarkOrder_cases:
  assumes "table_ok t" "uuid_lib_ok U" "\<not> lost r"
  shows "MarkOrder U r now i st t = (Ok (), mark_table i st now t) \<and> status_of t i = Some StatusProcessing
      \<and> Valid st
    \<or> (\<exists>x. MarkOrder U r now i st t = (x, t) \<and> x \<noteq> Ok ())"
proof (cases r)
  case ReplyOk
  show ?thesis
  proof (cases "Valid st")
    case True
    then show ?thesis using assms ReplyOk by (simp add: MarkOrder_ok)
  next
    case False
    have d: "distinct (map ID t)" using assms(1) by (simp add: table_ok_def)
    show ?thesis
    proof (cases "status_of t i = Some StatusProcessing")
      case True
      then obtain r where "r \<in> set t" "ID r = i" "Status r = StatusProcessing"
        by (auto dest: status_of_SomeD)
      then show ?thesis using assms False ReplyOk
        by (auto simp: MarkOrder_def pg_run_def sql_mark_def uuid_lib_ok_def Let_def)
    next
      case miss: False
      then show ?thesis using assms ReplyOk d
        by (auto simp: MarkOrder_def pg_run_def sql_mark_def uuid_lib_ok_def Let_def count_hits mark_table_miss)
    qed
  qed
qed (use assms in \<open>auto simp: MarkOrder_fail lost_def\<close>)

lemma MarkOrder_table_ok: "table_ok t \<Longrightarrow> MarkOrder U r now i st t = (x, t') \<Longrightarrow> table_ok t'"
  using mark.run_ok [of t r U "ustring U i" st now] by (metis MarkOrder_snd snd_conv)

lemma in_status_mark:
  assumes "table_ok t" "status_of t i = Some StatusProcessing"
  shows "in_status s (mark_table i st now t) =
    in_status s t + of_bool (s = st) - of_bool (s = StatusProcessing)"
proof -
  have "length (filter (\<lambda>r. ID r = i \<and> Status r = StatusProcessing) t) = 1"
    using assms by (simp add: count_hits table_ok_def)
  then show ?thesis
    using in_status_update [of t "\<lambda>r. ID r = i \<and> Status r = StatusProcessing" StatusProcessing s st now]
    by simp
qed

subsection \<open>One order: the counters follow the table\<close>

lemma process_body_panic:
  "process e x = Panics m \<Longrightarrow> process_body U process e sp x t = ([], Some m, t)"
  by (simp add: process_body_def)

lemma process_body_mark:
  assumes "process e x = Returns q"
    and "MarkOrder U (mark_reply e) (mark_now e) (ID x) (wanted (octx e) (Returns q)) t = (y, t')"
  shows "\<exists>es. process_body U process e sp x t = (es, (case y of Panicked m \<Rightarrow> Some m | _ \<Rightarrow> None), t') \<and>
    (\<forall>ls. ctr transitions ls es =
       (case y of Ok _ \<Rightarrow> ctr transitions ls (Transition StatusProcessing (wanted (octx e) (Returns q))) | _ \<Rightarrow> 0)) \<and>
    (\<forall>ls. ctr workerRuns ls es = 0) \<and> (\<forall>ls. ctr workerPanics ls es = 0)"
proof -
  obtain outcome0 err where q: "q = (outcome0, err)" by fastforce
  consider (released) "err \<noteq> None" "ctx_err (octx e) \<noteq> None"
    | (failed) er where "err = Some er" "ctx_err (octx e) = None"
    | (completed) "err = None" by auto
  then show ?thesis
  proof cases
    case released
    then show ?thesis using assms by (auto simp: process_body_def q split: res.splits)
  next
    case failed
    then show ?thesis using assms by (auto simp: process_body_def q Let_def split: res.splits)
  next
    case completed
    then show ?thesis using assms by (auto simp: process_body_def q Let_def split: res.splits)
  qed
qed

lemma process_body_flow:
  assumes t: "table_ok t" and U: "uuid_lib_ok U" and r: "\<not> lost (mark_reply e)"
    and s: "s \<in> set AllStatuses"
    and run: "process_body U process e sp x t = (es, p, t')"
  shows "in_status s t' = in_status s t + flow s es \<and> table_ok t'"
proof (cases "process e x")
  case (Panics m)
  then show ?thesis using run t by (simp add: process_body_panic)
next
  case (Returns q)
  let ?st = "wanted (octx e) (Returns q)"
  obtain y u where mark: "MarkOrder U (mark_reply e) (mark_now e) (ID x) ?st t = (y, u)" by fastforce
  from process_body_mark [of process e x q, OF Returns mark, of sp] run have u: "u = t'"
    and c: "\<And>ls. ctr transitions ls es = (case y of Ok _ \<Rightarrow> ctr transitions ls (Transition StatusProcessing ?st) | _ \<Rightarrow> 0)"
    by auto
  from MarkOrder_cases [OF t U r, of "mark_now e" "ID x" ?st] mark
  consider (hit) "y = Ok ()" "u = mark_table (ID x) ?st (mark_now e) t" "status_of t (ID x) = Some StatusProcessing"
      "Valid ?st" | (miss) "y \<noteq> Ok ()" "u = t" by auto
  then show ?thesis
  proof cases
    case hit
    have "flow s es = flow s (Transition StatusProcessing ?st)" using c hit by (simp add: flow_def)
    also have "\<dots> = of_bool (s = ?st) - of_bool (s = StatusProcessing)"
      using s hit by (intro flow_Transition) (auto simp: Valid_iff)
    finally show ?thesis
      using hit t u MarkOrder_table_ok [OF t mark] by (simp add: in_status_mark)
  next
    case miss
    then have "ctr transitions ls es = 0" for ls using c by (cases y) auto
    then have "flow s es = 0" by (rule flow_zero)
    with miss u t show ?thesis by simp
  qed
qed

lemma processOne_flow:
  assumes "table_ok t" "uuid_lib_ok U" "\<not> lost (mark_reply e)" "s \<in> set AllStatuses"
    and "processOne U process e parent sp x t = (es, t')"
  shows "in_status s t' = in_status s t + flow s es \<and> table_ok t'"
  using assms process_body_flow [OF assms(1-4)]
  by (auto simp: processOne_def flow_Cons [of s "SpanStart _ _ _ _"] split: prod.splits)

lemma process_all_flow:
  assumes "table_ok t" "uuid_lib_ok U" "\<And>k. \<not> lost (mark_reply (envs k))" "s \<in> set AllStatuses"
    and "process_all U process envs k xs t = (es, t')"
  shows "in_status s t' = in_status s t + flow s es \<and> table_ok t'"
  using assms
proof (induction xs arbitrary: k t es)
  case (Cons x xs)
  obtain es1 t1 where one: "processOne U process (envs k) 0 (Suc k) x t = (es1, t1)" by fastforce
  obtain es2 t2 where rest: "process_all U process envs (Suc k) xs t1 = (es2, t2)" by fastforce
  from one rest Cons.prems(5) have eqs: "es = es1 @ es2" "t' = t2" by simp_all
  have 1: "in_status s t1 = in_status s t + flow s es1 \<and> table_ok t1"
    using processOne_flow [OF Cons.prems(1,2) Cons.prems(3) Cons.prems(4) one] .
  then have "in_status s t2 = in_status s t1 + flow s es2 \<and> table_ok t2"
    using Cons.IH [of t1 "Suc k" es2] Cons.prems rest eqs by simp
  with 1 eqs show ?case by simp
qed simp

lemma claim_flow:
  assumes "table_ok t" "s \<in> set AllStatuses"
  shows "in_status s (claim_table c n t) =
    in_status s t + int (length (claim_rows c n t)) * flow s (Transition StatusPending StatusProcessing)"
proof -
  let ?P = "\<lambda>r. ID r \<in> set (claim_ids c n t)"
  have d: "distinct (map ID t)" using assms(1) by (simp add: table_ok_def)
  have P: "r \<in> set t \<Longrightarrow> ?P r \<Longrightarrow> Status r = StatusPending" for r
    using d claim_ids_status [OF d, of "ID r" c n] by (simp add: status_of_row)
  have "length (filter ?P t) = length (filter ?P (claim_table c n t))"
  proof -
    have "map ID (filter ?P (update_rows Q st now u)) = map ID (filter ?P u)" for Q st now u
      by (induction u) auto
    then show ?thesis unfolding claim_table_def by (metis length_map)
  qed
  also have "\<dots> = length (claim_rows c n t)"
    by (simp add: claim_rows_def scan_def)
  finally have len: "length (filter ?P t) = length (claim_rows c n t)" .
  have "flow s (Transition StatusPending StatusProcessing) = of_bool (s = StatusProcessing) - of_bool (s = StatusPending)"
    using assms(2) by (intro flow_Transition) auto
  then show ?thesis
    unfolding claim_table_def using in_status_update [of t ?P StatusPending s StatusProcessing "claim_now c", OF P] len
    by (simp add: mult.commute)
qed

lemma claim_none: "claim_rows c n t = [] \<Longrightarrow> claim_table c n t = t"
  using claim_rows_ids [of c n t] by (auto simp: claim_table_def intro: update_rows_none)

lemma ClaimPendingOrders_unchanged:
  assumes "uuid_lib_ok U" "\<not> lost r" "ClaimPendingOrders U r c n t = (y, t')" "\<And>xs. y \<noteq> Ok xs"
  shows "t' = t"
proof (cases "r = ReplyOk \<and> 0 \<le> n")
  case True
  then show ?thesis using assms by (simp add: ClaimPendingOrders_ok) blast
next
  case False
  then show ?thesis using assms(2,3)
    by (cases r) (auto simp: ClaimPendingOrders_def pg_query_def sql_claim_def lost_def split: sum.splits)
qed

lemma runOnce_flow:
  assumes t: "table_ok t" and U: "uuid_lib_ok U" and r: "\<not> lost (claim_reply b)"
    and rs: "\<And>k. \<not> lost (mark_reply (order_envs b k))" and s: "s \<in> set AllStatuses"
    and run: "runOnce U cfg process b t = (es, t')"
  shows "in_status s t' = in_status s t + flow s es \<and> table_ok t'"
proof -
  obtain y u where claim: "ClaimPendingOrders U (claim_reply b) (cenv b) (BatchSize cfg) t = (y, u)" by fastforce
  show ?thesis
  proof (cases "\<exists>xs. y = Ok xs \<and> xs \<noteq> []")
    case False
    have "u = t"
    proof (cases "y = Ok []")
      case True
      then show ?thesis using ClaimPendingOrders_Ok [OF U] claim claim_none by metis
    next
      case no: False
      show ?thesis by (rule ClaimPendingOrders_unchanged [OF U r claim]) (use False no in auto)
    qed
    with False claim run t show ?thesis
      by (auto simp: runOnce_def run_body_def flow_Cons [of s "SpanStart _ _ _ _"] flow_Cons [of s "Log _ _ _ _"]
          flow_Cons [of s "SpanError _ _"] flow_Cons [of s "SpanStatus _ _ _"] flow_Cons [of s "SpanAttrs _ _"]
          split: res.splits if_splits)
  next
    case True
    then obtain xs where y: "y = Ok xs" "xs \<noteq> []" by blast
    then have xs: "xs = claim_rows (cenv b) (BatchSize cfg) t" and u: "u = claim_table (cenv b) (BatchSize cfg) t"
      using ClaimPendingOrders_Ok [OF U] claim by blast+
    obtain fs v where all: "process_all U process (order_envs b) 0 xs u = (fs, v)" by fastforce
    have "in_status s v = in_status s u + flow s fs \<and> table_ok v"
      using process_all_flow [OF _ U rs s all] t u by (simp add: claim_table_ok)
    moreover have "in_status s u = in_status s t + int (length xs) * flow s (Transition StatusPending StatusProcessing)"
      unfolding u xs by (rule claim_flow [OF t s])
    ultimately show ?thesis using run claim y all
      by (auto simp: runOnce_def run_body_def flow_concat_replicate flow_Cons [of s "SpanStart _ _ _ _"]
          flow_Cons [of s "SpanAttrs _ _"])
  qed
qed

subsection \<open>One order: where it ends up\<close>

lemma processOne_snd: "snd (processOne U process e parent sp x t) = snd (snd (process_body U process e sp x t))"
  by (simp add: processOne_def split: prod.splits)

lemma processOne_table:
  assumes t: "table_ok t" and U: "uuid_lib_ok U" and r: "mark_reply e = ReplyOk"
    and owned: "status_of t (ID x) = Some StatusProcessing"
    and v: "Valid (wanted (octx e) (process e x))"
  shows "snd (processOne U process e parent sp x t) =
    (case process e x of Panics m \<Rightarrow> t | Returns q \<Rightarrow> mark_table (ID x) (wanted (octx e) (Returns q)) (mark_now e) t)"
proof (cases "process e x")
  case (Panics m)
  then show ?thesis by (simp add: processOne_snd process_body_panic)
next
  case (Returns q)
  have "MarkOrder U (mark_reply e) (mark_now e) (ID x) (wanted (octx e) (Returns q)) t =
    (Ok (), mark_table (ID x) (wanted (octx e) (Returns q)) (mark_now e) t)"
    using MarkOrder_ok [OF t U] v r owned Returns by simp
  from process_body_mark [of process e x q, OF Returns this, of sp] show ?thesis
    by (auto simp: processOne_snd Returns)
qed

lemma processOne_status:
  assumes "table_ok t" "uuid_lib_ok U" "mark_reply e = ReplyOk"
    and owned: "status_of t (ID x) = Some StatusProcessing"
    and "Valid (wanted (octx e) (process e x))"
    and run: "processOne U process e parent sp x t = (es, t')"
  shows "table_ok t' \<and> (\<forall>i. status_of t' i =
    (if i = ID x then Some (wanted (octx e) (process e x)) else status_of t i))"
proof -
  have d: "distinct (map ID t)" using assms(1) by (simp add: table_ok_def)
  have t': "t' = (case process e x of Panics m \<Rightarrow> t
      | Returns q \<Rightarrow> mark_table (ID x) (wanted (octx e) (Returns q)) (mark_now e) t)"
    using processOne_table [where process = process and e = e and x = x, OF assms(1-5), of parent sp] run by simp
  have "table_ok t'" using t' assms(1,5) by (cases "process e x") auto
  then show ?thesis using t' owned d by (cases "process e x") (auto simp: status_of_update_one)
qed

lemma process_all_status:
  assumes "table_ok t" "uuid_lib_ok U" "distinct (map ID xs)"
    and "\<And>x. x \<in> set xs \<Longrightarrow> status_of t (ID x) = Some StatusProcessing"
    and "\<And>j. j < length xs \<Longrightarrow> mark_reply (envs (k + j)) = ReplyOk \<and>
      Valid (wanted (octx (envs (k + j))) (process (envs (k + j)) (xs ! j)))"
    and "process_all U process envs k xs t = (es, t')"
  shows "table_ok t' \<and>
    (\<forall>j < length xs. status_of t' (ID (xs ! j)) =
       Some (wanted (octx (envs (k + j))) (process (envs (k + j)) (xs ! j)))) \<and>
    (\<forall>i. i \<notin> ID ` set xs \<longrightarrow> status_of t' i = status_of t i)"
  using assms
proof (induction xs arbitrary: k t es t')
  case (Cons x xs)
  obtain es1 t1 where one: "processOne U process (envs k) 0 (Suc k) x t = (es1, t1)" by fastforce
  obtain es2 t2 where rest: "process_all U process envs (Suc k) xs t1 = (es2, t2)" by fastforce
  from one rest Cons.prems(6) have t': "t' = t2" by simp
  have 1: "table_ok t1 \<and> (\<forall>i. status_of t1 i =
      (if i = ID x then Some (wanted (octx (envs k)) (process (envs k) x)) else status_of t i))"
    by (rule processOne_status [OF Cons.prems(1,2) _ _ _ one])
      (use Cons.prems(4) [of x] Cons.prems(5) [of 0] in simp_all)
  have 2: "table_ok t2 \<and>
    (\<forall>j < length xs. status_of t2 (ID (xs ! j)) =
       Some (wanted (octx (envs (Suc k + j))) (process (envs (Suc k + j)) (xs ! j)))) \<and>
    (\<forall>i. i \<notin> ID ` set xs \<longrightarrow> status_of t2 i = status_of t1 i)"
  proof (rule Cons.IH [of t1 "Suc k" es2 t2])
    show "status_of t1 (ID y) = Some StatusProcessing" if "y \<in> set xs" for y
    proof -
      have "ID y \<in> ID ` set xs" using that by simp
      then have "ID y \<noteq> ID x" using Cons.prems(3) by auto
      then show ?thesis using 1 that Cons.prems(4) by simp
    qed
    show "mark_reply (envs (Suc k + j)) = ReplyOk \<and>
        Valid (wanted (octx (envs (Suc k + j))) (process (envs (Suc k + j)) (xs ! j)))"
      if "j < length xs" for j
      using Cons.prems(5) [of "Suc j"] that by simp
  qed (use 1 Cons.prems rest t' in auto)
  show ?case
  proof (intro conjI allI impI)
    fix j
    assume "j < length (x # xs)"
    then show "status_of t' (ID ((x # xs) ! j)) =
        Some (wanted (octx (envs (k + j))) (process (envs (k + j)) ((x # xs) ! j)))"
      using 1 2 Cons.prems(3) by (cases j) (auto simp: t')
  qed (use 1 2 t' in auto)
qed simp

lemma runOnce_settles:
  assumes t: "table_ok t" and U: "uuid_lib_ok U" and size: "0 \<le> BatchSize cfg"
    and claim: "claim_reply b = ReplyOk"
    and marks: "\<And>k. mark_reply (order_envs b k) = ReplyOk"
    and valid: "\<And>k x. Valid (wanted (octx (order_envs b k)) (process (order_envs b k) x))"
    and run: "runOnce U cfg process b t = (es, t')"
  shows "\<forall>j < length (claim_rows (cenv b) (BatchSize cfg) t).
      status_of t' (ID (claim_rows (cenv b) (BatchSize cfg) t ! j)) =
        Some (wanted (octx (order_envs b j)) (process (order_envs b j) (claim_rows (cenv b) (BatchSize cfg) t ! j)))"
    and "\<forall>i. i \<notin> set (claim_ids (cenv b) (BatchSize cfg) t) \<longrightarrow> status_of t' i = status_of t i"
proof -
  let ?xs = "claim_rows (cenv b) (BatchSize cfg) t" and ?u = "claim_table (cenv b) (BatchSize cfg) t"
  have d: "distinct (map ID t)" using t by (simp add: table_ok_def)
  have c: "ClaimPendingOrders U (claim_reply b) (cenv b) (BatchSize cfg) t = (Ok ?xs, ?u)"
    using U size claim by (simp add: ClaimPendingOrders_ok)
  obtain fs v where all: "process_all U process (order_envs b) 0 ?xs ?u = (fs, v)" by fastforce
  have v: "t' = v" using run c all by (auto simp: runOnce_def run_body_def split: if_splits)
  have *: "table_ok v \<and>
    (\<forall>j < length ?xs. status_of v (ID (?xs ! j)) =
       Some (wanted (octx (order_envs b (0 + j))) (process (order_envs b (0 + j)) (?xs ! j)))) \<and>
    (\<forall>i. i \<notin> ID ` set ?xs \<longrightarrow> status_of v i = status_of ?u i)"
  proof (rule process_all_status [OF _ U _ _ _ all])
    show "status_of ?u (ID x) = Some StatusProcessing" if "x \<in> set ?xs" for x
      using claim_rows_ids [of "cenv b" "BatchSize cfg" t] that by (auto simp: claim_status_of)
  qed (use t d marks valid in \<open>auto simp: claim_table_ok claim_rows_distinct\<close>)
  then show "\<forall>j < length ?xs. status_of t' (ID (?xs ! j)) =
        Some (wanted (octx (order_envs b j)) (process (order_envs b j) (?xs ! j)))"
    by (simp add: v)
  show "\<forall>i. i \<notin> set (claim_ids (cenv b) (BatchSize cfg) t) \<longrightarrow> status_of t' i = status_of t i"
    using * claim_rows_ids [of "cenv b" "BatchSize cfg" t] by (auto simp: v claim_status_of)
qed

subsection \<open>The heartbeat and the panic counter\<close>

lemma process_body_quiet:
  assumes "process_body U process e sp x t = (es, p, t')"
  shows "ctr workerRuns ls es = 0 \<and> ctr workerPanics ls es = 0"
proof (cases "process e x")
  case (Panics m)
  then show ?thesis using assms by (simp add: process_body_panic)
next
  case (Returns q)
  obtain y u where "MarkOrder U (mark_reply e) (mark_now e) (ID x) (wanted (octx e) (Returns q)) t = (y, u)" by fastforce
  from process_body_mark [of process e x q, OF Returns this, of sp] assms show ?thesis by auto
qed

lemma processOne_runs: "processOne U process e parent sp x t = (es, t') \<Longrightarrow> ctr workerRuns ls es = 0"
  by (auto simp: processOne_def split: prod.splits dest: process_body_quiet)

lemma process_all_runs: "process_all U process envs k xs t = (es, t') \<Longrightarrow> ctr workerRuns ls es = 0"
proof (induction xs arbitrary: k t es)
  case (Cons x xs)
  then show ?case by (auto split: prod.splits dest: processOne_runs)
qed simp

lemma runOnce_heartbeat:
  assumes "runOnce U cfg process b t = (es, t')"
  shows "ctr workerRuns [q] es =
    (case fst (ClaimPendingOrders U (claim_reply b) (cenv b) (BatchSize cfg) t) of
       Panicked m \<Rightarrow> 0
     | Err er \<Rightarrow> of_bool (claim_ctx b = None \<and> q = ''error'')
     | Ok xs \<Rightarrow> of_bool (q = (if xs = [] then ''empty'' else ''ok'')))"
proof -
  obtain y u where claim: "ClaimPendingOrders U (claim_reply b) (cenv b) (BatchSize cfg) t = (y, u)" by fastforce
  show ?thesis
  proof (cases y)
    case (Ok xs)
    obtain fs v where all: "process_all U process (order_envs b) 0 xs u = (fs, v)" by fastforce
    show ?thesis using assms claim Ok all process_all_runs [OF all]
      by (cases "xs = []") (auto simp: runOnce_def run_body_def ctr_concat_replicate)
  qed (use assms claim in \<open>auto simp: runOnce_def run_body_def split: if_splits\<close>)
qed

subsection \<open>The simulated payment\<close>

lemma simulatePayment_returns:
  assumes "MinLatency c < MaxLatency c" "0 < MinLatency c" "int64_ok (MaxLatency c)"
  shows "simulatePayment c e x =
    (case octx e of
       CtxDoneDuring er \<Rightarrow> Returns (StatusPending, Some er)
     | _ \<Rightarrow> Returns (if rnd e < FailureRate c then StatusFailed else StatusPaid, None))"
  using assms by (auto simp: simulatePayment_def Let_def int64_ok_def split: ctx_state.splits)

lemma withDefaults_latency:
  assumes "int64_ok (MinLatency c)" "int64_ok (MaxLatency c)" "MinLatency c < 2 ^ 63 - 45 * Millisecond"
  shows "MinLatency (withDefaults c) < MaxLatency (withDefaults c) \<and> int64_ok (MaxLatency (withDefaults c))"
  using assms by (auto simp: withDefaults_def Let_def int64_ok_def)

subsection \<open>Panics counted\<close>

lemma processOne_panics:
  assumes "table_ok t" "uuid_lib_ok U" "mark_reply e = ReplyOk"
    and "processOne U process e parent sp x t = (es, t')"
  shows "ctr workerPanics [''process_order''] es = of_bool (\<exists>m. process e x = Panics m)"
proof (cases "process e x")
  case (Panics m)
  then show ?thesis using assms(4) by (auto simp: processOne_def process_body_panic)
next
  case (Returns q)
  obtain y u where mark: "MarkOrder U (mark_reply e) (mark_now e) (ID x) (wanted (octx e) (Returns q)) t = (y, u)"
    by fastforce
  have "\<not> (\<exists>m. y = Panicked m)"
    using mark assms(3)
    by (auto simp: MarkOrder_def pg_run_def sql_mark_def Let_def split: option.splits if_splits)
  with process_body_mark [of process e x q, OF Returns mark, of sp] assms(4) Returns show ?thesis
    by (auto simp: processOne_def split: res.splits)
qed

subsection \<open>The life cycle under every reply\<close>

lemma MarkOrder_life:
  assumes "table_ok t" "(StatusProcessing, st) \<in> set AllTransitions"
  shows "life_cycle t (snd (MarkOrder U r now i st t))"
  using life_statement.run_life [OF mark_statement_life [OF assms(2)] assms(1)] by (simp add: MarkOrder_snd)

lemma ClaimPendingOrders_life:
  assumes "table_ok t" "ClaimPendingOrders U r e n t = (y, t')"
  shows "life_cycle t t' \<and> table_ok t'"
  using assms claim.run_life [of t r U e n] claim.run_ok [of t r U e n] ClaimPendingOrders_snd [of U r e n t]
  by simp

lemma wanted_simulated:
  "simulatePayment c e x = Returns q \<Longrightarrow> (StatusProcessing, wanted (octx e) (Returns q)) \<in> set AllTransitions"
  by (auto simp: simulatePayment_def Let_def AllTransitions_def split: if_splits ctx_state.splits)

lemma processOne_life:
  assumes "table_ok t" "processOne U (simulatePayment c) e parent sp x t = (es, t')"
  shows "life_cycle t t' \<and> table_ok t'"
proof (cases "simulatePayment c e x")
  case (Panics m)
  then show ?thesis using assms by (auto simp: processOne_def process_body_panic)
next
  case (Returns q)
  obtain y u where mark: "MarkOrder U (mark_reply e) (mark_now e) (ID x) (wanted (octx e) (Returns q)) t = (y, u)"
    by fastforce
  have "t' = u" using process_body_mark [of "simulatePayment c" e x q, OF Returns mark, of sp] assms(2)
    by (auto simp: processOne_def)
  then show ?thesis
    using MarkOrder_life [OF assms(1) wanted_simulated [OF Returns], of U "mark_reply e" "mark_now e" "ID x"]
      MarkOrder_table_ok [OF assms(1) mark] mark by simp
qed

lemma process_all_life:
  "table_ok t \<Longrightarrow> process_all U (simulatePayment c) envs k xs t = (es, t') \<Longrightarrow> life_cycle\<^sup>*\<^sup>* t t' \<and> table_ok t'"
proof (induction xs arbitrary: k t es t')
  case (Cons x xs)
  obtain es1 t1 where one: "processOne U (simulatePayment c) (envs k) 0 (Suc k) x t = (es1, t1)" by fastforce
  obtain es2 t2 where rest: "process_all U (simulatePayment c) envs (Suc k) xs t1 = (es2, t2)" by fastforce
  have "life_cycle t t1 \<and> table_ok t1" using processOne_life [OF Cons.prems(1) one] .
  with Cons.IH [OF _ rest] one rest Cons.prems(2) show ?case
    by (auto intro: converse_rtranclp_into_rtranclp)
qed simp

lemma runOnce_life:
  assumes "table_ok t" "runOnce U cfg (simulatePayment c) b t = (es, t')"
  shows "life_cycle\<^sup>*\<^sup>* t t' \<and> table_ok t'"
proof -
  obtain y u where claim: "ClaimPendingOrders U (claim_reply b) (cenv b) (BatchSize cfg) t = (y, u)" by fastforce
  have u: "life_cycle t u \<and> table_ok u" by (rule ClaimPendingOrders_life [OF assms(1) claim])
  have "life_cycle\<^sup>*\<^sup>* u t' \<and> table_ok t'"
  proof (cases "\<exists>xs. y = Ok xs \<and> xs \<noteq> []")
    case True
    then obtain xs where y: "y = Ok xs" "xs \<noteq> []" by blast
    obtain fs v where all: "process_all U (simulatePayment c) (order_envs b) 0 xs u = (fs, v)" by fastforce
    show ?thesis using process_all_life [OF _ all] u assms(2) claim y all
      by (auto simp: runOnce_def run_body_def)
  next
    case False
    then have "t' = u" using assms(2) claim
      by (auto simp: runOnce_def run_body_def split: res.splits if_splits)
    then show ?thesis using u by simp
  qed
  with u show ?thesis by (auto intro: converse_rtranclp_into_rtranclp)
qed

subsection \<open>Labels\<close>

lemma preinit_transition: "(a, b) \<in> set AllTransitions \<Longrightarrow> WithLabels transitions [a, b] \<in> preinit_series"
  by (auto simp: preinit_series_def business_PreInit_def set_metric_calls)

lemma preinit_other:
  "o' \<in> {''paid'', ''failed''} \<Longrightarrow> WithLabels processing [o'] \<in> preinit_series"
  "r \<in> {''ok'', ''empty'', ''error''} \<Longrightarrow> WithLabels workerRuns [r] \<in> preinit_series"
  "st \<in> set WorkerStages \<Longrightarrow> WithLabels workerPanics [st] \<in> preinit_series"
  by (auto simp: preinit_series_def business_PreInit_def set_metric_calls)

lemma known_trace_simps [simp]:
  "known_trace []"
  "known_trace (Log l c m as # es) = known_trace es"
  "known_trace (SpanStart n q nm as # es) = known_trace es"
  "known_trace (SpanAttrs n as # es) = known_trace es"
  "known_trace (SpanError n er # es) = known_trace es"
  "known_trace (SpanStatus n k m # es) = known_trace es"
  "known_trace (SpanEnd n # es) = known_trace es"
  "known_trace (es @ fs) = (known_trace es \<and> known_trace fs)"
  by (auto simp: known_trace_def)

lemma known_trace_replicate: "known_trace es \<Longrightarrow> known_trace (concat (replicate n es))"
  by (induction n) auto

lemma known_calls [simp]:
  "(a, b) \<in> set AllTransitions \<Longrightarrow> known_trace (Transition a b)"
  "o' \<in> {''paid'', ''failed''} \<Longrightarrow> known_trace (OrderProcessed sc o' d)"
  "r \<in> {''ok'', ''empty'', ''error''} \<Longrightarrow> known_trace (WorkerRun sc r bsize d)"
  "st \<in> set WorkerStages \<Longrightarrow> known_trace (WorkerPanic st)"
  by (auto simp: known_trace_def known_call_def call_ok_def Transition_def OrderProcessed_def WorkerRun_def
      WorkerPanic_def preinit_transition preinit_other)

lemma known_guard [simp]: "st \<in> set WorkerStages \<Longrightarrow> known_trace (guard sp st p)"
  by (simp add: guard_def split: option.split)

lemma simulatePayment_cases:
  "(\<exists>m. simulatePayment cfg e x = Panics m) \<or>
   (\<exists>er. simulatePayment cfg e x = Returns (StatusPending, Some er) \<and> ctx_err (octx e) = Some er) \<or>
   (\<exists>st. simulatePayment cfg e x = Returns (st, None) \<and> (st = StatusFailed \<or> st = StatusPaid))"
  by (auto simp: simulatePayment_def Let_def split: ctx_state.splits)

lemma process_body_known:
  assumes "process_body U (simulatePayment cfg) e sp x t = (es, p, t')"
  shows "known_trace es"
proof -
  have tr: "(StatusProcessing, StatusPending) \<in> set AllTransitions" "(StatusProcessing, StatusFailed) \<in> set AllTransitions"
    "(StatusProcessing, StatusPaid) \<in> set AllTransitions" by (simp_all add: AllTransitions_def)
  have out: "StatusPaid \<in> {''paid'', ''failed''}" "StatusFailed \<in> {''paid'', ''failed''}"
    by (simp_all add: status_defs)
  consider (panic) m where "simulatePayment cfg e x = Panics m"
    | (interrupted) er where "simulatePayment cfg e x = Returns (StatusPending, Some er)" "ctx_err (octx e) = Some er"
    | (settled) st where "simulatePayment cfg e x = Returns (st, None)" "st = StatusFailed \<or> st = StatusPaid"
    using simulatePayment_cases [of cfg e x] by blast
  then show ?thesis
  proof cases
    case panic
    then show ?thesis using assms by (auto simp: process_body_panic)
  next
    case interrupted
    then show ?thesis using assms tr by (auto simp: process_body_def split: prod.splits res.splits)
  next
    case settled
    then have "known_trace (Transition StatusProcessing st)" "known_trace (OrderProcessed (osc e) st (took e))"
      using tr known_calls(2) [OF out(1)] known_calls(2) [OF out(2)] by auto
    then show ?thesis using assms settled
      by (auto simp: process_body_def Let_def split: prod.splits res.splits if_splits)
  qed
qed

lemma processOne_known:
  "processOne U (simulatePayment cfg) e parent sp x t = (es, t') \<Longrightarrow> known_trace es"
  by (auto simp: processOne_def WorkerStages_def split: prod.splits dest: process_body_known)

lemma process_all_known:
  "process_all U (simulatePayment cfg) envs k xs t = (es, t') \<Longrightarrow> known_trace es"
  by (induction xs arbitrary: k t es) (auto split: prod.splits dest: processOne_known)

lemma runOnce_known:
  assumes "runOnce U cfg (simulatePayment cfg') b t = (es, t')"
  shows "known_trace es"
proof -
  have tr: "known_trace (Transition StatusPending StatusProcessing)" by (simp add: AllTransitions_def)
  obtain y v where claim: "ClaimPendingOrders U (claim_reply b) (cenv b) (BatchSize cfg) t = (y, v)" by fastforce
  show ?thesis
  proof (cases y)
    case (Ok xs)
    obtain fs w where all: "process_all U (simulatePayment cfg') (order_envs b) 0 xs v = (fs, w)" by fastforce
    show ?thesis using assms claim Ok all process_all_known [OF all] tr
      by (cases "xs = []") (auto simp: runOnce_def run_body_def WorkerStages_def known_trace_replicate)
  qed (use assms claim in \<open>auto simp: runOnce_def run_body_def WorkerStages_def split: if_splits\<close>)
qed

subsection \<open>The sample\<close>

lemma sample_claim: "claim_ids (cenv sample_batch) 1 sample_table = [2]"
  by (simp add: sample_batch_def sample_table_def claim_ids_def claim_picks_def claimable_def scan_def)

lemma sample_claim_rows: "map ID (claim_rows (cenv sample_batch) 1 sample_table) = [2]"
  by (simp add: claim_rows_def claim_table_def sample_claim scan_def) (simp add: sample_table_def)

lemma sample_batch_replies:
  "claim_reply sample_batch = ReplyOk" "\<forall>k. mark_reply (order_envs sample_batch k) = ReplyOk"
  by (simp_all add: sample_batch_def sample_order_env_def)

lemma sample_batch_size [simp]: "BatchSize sample_config = 1"
  by (simp add: sample_config_def withDefaults_def)

lemma run_loop_flow:
  assumes "table_ok t" "uuid_lib_ok U" "list_all wake_ok ws" "s \<in> set AllStatuses"
    and "run_loop U cfg process ws t = (es, t')"
  shows "in_status s t' = in_status s t + flow s es \<and> table_ok t'"
  using assms
proof (induction ws arbitrary: t es t')
  case (Cons w ws)
  show ?case
  proof (cases w)
    case (Tick b)
    obtain es1 t1 where one: "runOnce U cfg process b t = (es1, t1)" by fastforce
    obtain es2 t2 where rest: "run_loop U cfg process ws t1 = (es2, t2)" by fastforce
    have 1: "in_status s t1 = in_status s t + flow s es1 \<and> table_ok t1"
      using Cons.prems(3) Tick by (intro runOnce_flow [OF Cons.prems(1,2) _ _ Cons.prems(4) one]) auto
    with Cons.IH [OF _ Cons.prems(2) _ Cons.prems(4) rest] Cons.prems(3,5) one rest Tick show ?thesis
      by auto
  next
    case Done
    then show ?thesis using Cons.prems by auto
  qed
qed simp

section \<open>Properties\<close>

text \<open>
  (C8) The state-transition counters match the database. Over any sequence of ticks of the worker
  loop, with any processor (panicking ones included), any cancellations and any failed round
  trips, the number of rows in each status changes by exactly the net flow that the worker's
  \<open>orders_state_transitions_total\<close> calls record for that status, provided no round trip is lost
  after it committed.
\<close>

theorem worker_counters_match_table:
  assumes "table_ok t" "uuid_lib_ok U" "list_all wake_ok ws" "s \<in> set AllStatuses"
  shows "in_status s (snd (Run U cfg process ws t)) =
    in_status s t + flow s (fst (Run U cfg process ws t))"
proof -
  obtain es t' where run: "run_loop U cfg process ws t = (es, t')" by fastforce
  from run_loop_flow [OF assms run] run show ?thesis
    by (simp add: Run_def flow_Cons [of s "Log _ _ _ _"])
qed

theorem worker_counters_match_table_witness:
  "in_status StatusPaid (snd (Run canonical_lib sample_config (simulatePayment sample_config)
       [Tick sample_batch, Done] sample_table)) =
   in_status StatusPaid sample_table +
     flow StatusPaid (fst (Run canonical_lib sample_config (simulatePayment sample_config)
       [Tick sample_batch, Done] sample_table))"
  by (rule worker_counters_match_table [OF sample_table_ok canonical_lib_ok])
    (simp_all add: sample_batch_def sample_order_env_def lost_def)

text \<open>
  (C4) A batch of the default worker settles every order it claims. When the database answers, each
  claimed order leaves \<open>processing\<close>: back to \<open>pending\<close> if shutdown interrupted its attempt, to
  \<open>failed\<close> or \<open>paid\<close> otherwise, so a graceful shutdown strands no order; no other order changes.
\<close>

theorem worker_settles_claims:
  assumes "int64_ok (MinLatency c)" "int64_ok (MaxLatency c)" "MinLatency c < 2 ^ 63 - 45 * Millisecond"
    and "(cfg, process) = New c"
    and "table_ok t" "uuid_lib_ok U"
    and "claim_reply b = ReplyOk" "\<forall>k. mark_reply (order_envs b k) = ReplyOk"
  shows "(\<forall>j < length (claim_rows (cenv b) (BatchSize cfg) t).
      status_of (snd (runOnce U cfg process b t)) (ID (claim_rows (cenv b) (BatchSize cfg) t ! j)) =
        Some (case octx (order_envs b j) of
                CtxDoneDuring er \<Rightarrow> StatusPending
              | _ \<Rightarrow> if rnd (order_envs b j) < FailureRate cfg then StatusFailed else StatusPaid)) \<and>
    (\<forall>i. i \<notin> set (claim_ids (cenv b) (BatchSize cfg) t) \<longrightarrow>
      status_of (snd (runOnce U cfg process b t)) i = status_of t i)"
proof -
  have cfg: "cfg = withDefaults c" and p: "process = simulatePayment cfg"
    using assms(4) by (auto simp: New_def Let_def)
  have lat: "MinLatency cfg < MaxLatency cfg" "0 < MinLatency cfg" "int64_ok (MaxLatency cfg)" "0 \<le> BatchSize cfg"
    using withDefaults_latency [OF assms(1-3)] withDefaults_positive [of c] by (auto simp: cfg less_imp_le)
  have w: "wanted (octx e) (process e x) = (case octx e of CtxDoneDuring er \<Rightarrow> StatusPending
      | _ \<Rightarrow> if rnd e < FailureRate cfg then StatusFailed else StatusPaid)" for e x
    using simulatePayment_returns [OF lat(1-3)] by (simp add: p split: ctx_state.split)
  have v: "Valid (wanted (octx e) (process e x))" for e x
    unfolding w by (simp split: ctx_state.split)
  obtain es t' where run: "runOnce U cfg process b t = (es, t')" by fastforce
  from runOnce_settles [where process = process, OF assms(5,6) lat(4) assms(7) _ v run] assms(8) run
  show ?thesis by (simp add: w)
qed

theorem worker_settles_claims_witness:
  "status_of (snd (runOnce canonical_lib sample_config (simulatePayment sample_config) sample_batch sample_table)) 2
     = Some StatusPaid \<and>
   status_of (snd (runOnce canonical_lib sample_config (simulatePayment sample_config) sample_batch sample_table)) 1
     = Some StatusPending"
proof -
  have rows: "length (claim_rows (cenv sample_batch) 1 sample_table) = 1"
    "ID (claim_rows (cenv sample_batch) 1 sample_table ! 0) = 2"
    using sample_claim_rows by (auto simp: map_eq_Cons_conv)
  show ?thesis
    using worker_settles_claims [of "\<lparr>Interval = 0, BatchSize = 1, FailureRate = 8 / 100, MinLatency = 0,
        MaxLatency = 0, WTracer = None\<rparr>" sample_config "simulatePayment sample_config" sample_table canonical_lib
        sample_batch] rows sample_claim sample_table_ok canonical_lib_ok
    by (simp add: New_def sample_config_def Let_def int64_ok_def sample_batch_def sample_order_env_def withDefaults_def)
      (simp add: sample_table_def)
qed

text \<open>
  (C11) A poison order costs that order only. For an arbitrary processor whose statuses are valid
  where it returns, a batch moves every claimed order to the status its own attempt asks for; an
  order whose processing panics stays in \<open>processing\<close>, and the other orders of the batch are not
  affected by it.
\<close>

theorem poison_order_isolated:
  assumes "table_ok t" "uuid_lib_ok U" "0 \<le> BatchSize cfg"
    and "claim_reply b = ReplyOk" "\<forall>k. mark_reply (order_envs b k) = ReplyOk"
    and "\<forall>k x. Valid (wanted (octx (order_envs b k)) (process (order_envs b k) x))"
    and "j < length (claim_rows (cenv b) (BatchSize cfg) t)"
  shows "status_of (snd (runOnce U cfg process b t)) (ID (claim_rows (cenv b) (BatchSize cfg) t ! j)) =
    (case process (order_envs b j) (claim_rows (cenv b) (BatchSize cfg) t ! j) of
       Panics m \<Rightarrow> Some StatusProcessing
     | Returns q \<Rightarrow> Some (wanted (octx (order_envs b j)) (Returns q)))"
proof -
  obtain es t' where run: "runOnce U cfg process b t = (es, t')" by fastforce
  have "status_of t' (ID (claim_rows (cenv b) (BatchSize cfg) t ! j)) =
    Some (wanted (octx (order_envs b j)) (process (order_envs b j) (claim_rows (cenv b) (BatchSize cfg) t ! j)))"
    using runOnce_settles(1) [where process = process, OF assms(1-4) _ _ run] assms(5-7) by blast
  then show ?thesis by (simp add: run split: run.split)
qed

theorem poison_order_isolated_witness:
  "status_of (snd (runOnce canonical_lib sample_config (\<lambda>e x. Panics ''poison'') sample_batch sample_table)) 2
     = Some StatusProcessing"
proof -
  have rows: "0 < length (claim_rows (cenv sample_batch) (BatchSize sample_config) sample_table)"
    "ID (claim_rows (cenv sample_batch) (BatchSize sample_config) sample_table ! 0) = 2"
    using sample_claim_rows by (auto simp: map_eq_Cons_conv)
  show ?thesis
    using poison_order_isolated [of sample_table canonical_lib sample_config sample_batch
        "\<lambda>e x. Panics ''poison''" 0, OF sample_table_ok canonical_lib_ok _ sample_batch_replies _ rows(1)] rows(2)
    by simp
qed

text \<open>
  (C19) The heartbeat. A tick records exactly one worker run, except when it records none: the claim
  panicked, or the claim failed while the context was already cancelled.
\<close>

theorem worker_heartbeat:
  "sum_list (map (\<lambda>q. ctr workerRuns [q] (fst (runOnce U cfg process b t))) [''ok'', ''empty'', ''error'']) =
    (case fst (ClaimPendingOrders U (claim_reply b) (cenv b) (BatchSize cfg) t) of
       Ok xs \<Rightarrow> 1
     | Err er \<Rightarrow> of_bool (claim_ctx b = None)
     | Panicked m \<Rightarrow> 0)"
proof -
  obtain es t' where run: "runOnce U cfg process b t = (es, t')" by fastforce
  show ?thesis
    by (simp add: run runOnce_heartbeat [OF run] split: res.split)
qed

text \<open>
  (C12) Orders only move along the legal transitions. Whatever the database and the context do
  during a tick of the default worker (failed, lost and panicking round trips included), the table
  keeps its constraints and every row changes by a sequence of steps of \<open>AllTransitions\<close>.
\<close>

theorem worker_life_cycle:
  assumes "table_ok t"
  shows "life_cycle\<^sup>*\<^sup>* t (snd (runOnce U cfg (simulatePayment c) b t)) \<and>
    table_ok (snd (runOnce U cfg (simulatePayment c) b t))"
proof -
  obtain es t' where "runOnce U cfg (simulatePayment c) b t = (es, t')" by fastforce
  with runOnce_life [OF assms this] show ?thesis by simp
qed

theorem worker_life_cycle_witness:
  "life_cycle\<^sup>*\<^sup>* sample_table (snd (runOnce canonical_lib sample_config (simulatePayment sample_config)
     (sample_batch\<lparr>claim_reply := ReplyLost 0 Canceled\<rparr>) sample_table))"
  using worker_life_cycle [OF sample_table_ok] by blast

text \<open>
  No metric call of the default worker creates an unforeseen series or makes the Prometheus
  client panic: each is on a registered metric, with the right number of labels, of the right
  kind, and its label values are among those that \<open>PreInit\<close> created at start-up.
\<close>

theorem worker_series_preinitialised:
  "known_trace (fst (runOnce U cfg (simulatePayment c) b t))"
proof -
  obtain es t' where "runOnce U cfg (simulatePayment c) b t = (es, t')" by fastforce
  with runOnce_known [OF this] show ?thesis by simp
qed

text \<open>
  A claim whose answer is lost after it committed strands its batch: the worker returns without
  processing anything, every claimed order stays in \<open>processing\<close>, and no transition is recorded.
\<close>

theorem lost_claim_strands_batch:
  assumes "table_ok t" "uuid_lib_ok U" "0 \<le> BatchSize cfg" "claim_reply b = ReplyLost n er"
    and "i \<in> set (claim_ids (cenv b) (BatchSize cfg) t)"
  shows "status_of (snd (runOnce U cfg process b t)) i = Some StatusProcessing \<and>
    ctr transitions ls (fst (runOnce U cfg process b t)) = 0"
proof -
  have claim: "ClaimPendingOrders U (claim_reply b) (cenv b) (BatchSize cfg) t =
      (Err er, claim_table (cenv b) (BatchSize cfg) t)"
    using assms(2-4)
    by (simp add: ClaimPendingOrders_def pg_query_def sql_claim_def make_slice_def scan_rows_text take_map)
  show ?thesis
    using assms(5) by (simp add: runOnce_def run_body_def claim claim_status_of)
qed

theorem lost_claim_strands_batch_witness:
  "status_of (snd (runOnce canonical_lib sample_config (simulatePayment sample_config)
     (sample_batch\<lparr>claim_reply := ReplyLost 0 Canceled, claim_ctx := Some Canceled\<rparr>) sample_table)) 2 =
   Some StatusProcessing"
  using lost_claim_strands_batch [of sample_table canonical_lib sample_config
      "sample_batch\<lparr>claim_reply := ReplyLost 0 Canceled, claim_ctx := Some Canceled\<rparr>" 0 Canceled 2]
    sample_table_ok canonical_lib_ok sample_claim by simp

end
