(* ===== verification/System.thy ===== *)
theory System
  imports Api Worker
begin

text \<open>
  The running service: any number of worker loops and API requests over one orders table. Each step
  is one database statement with the code around it: a request served by the API, a claim of an
  idle worker, or one order that a worker has claimed taken through \<open>processOne\<close>, whose only
  statement is its \<open>MarkOrder\<close>. Steps of different workers interleave freely. \<open>todo w\<close> is
  what worker \<open>w\<close> still has to do of its batch, \<open>trace\<close> collects the telemetry calls,
  \<open>finals\<close> the orders that reached a terminal status, in order. With \<open>reliable\<close>, no
  round trip is lost after its statement committed.
\<close>

section \<open>Definitions\<close>

record sys =
  tbl :: table
  todo :: "nat \<Rightarrow> Order list"
  trace :: "effect list"
  finals :: "uuid list"

definition start :: "table \<Rightarrow> sys" where
  "start t = \<lparr>tbl = t, todo = (\<lambda>_. []), trace = [], finals = []\<rparr>"

definition terminal :: "status \<Rightarrow> bool" where
  "terminal s \<longleftrightarrow> s = StatusPaid \<or> s = StatusFailed \<or> s = StatusCancelled"

definition final_now :: "table \<Rightarrow> uuid \<Rightarrow> uuid list" where
  "final_now t i = (case status_of t i of Some s \<Rightarrow> if terminal s then [i] else [] | None \<Rightarrow> [])"

fun claimed :: "Order list res \<Rightarrow> Order list" where
  "claimed (Ok xs) = xs"
| "claimed (Err e) = []"
| "claimed (Panicked m) = []"

inductive sys_step :: "uuid_lib \<Rightarrow> worker_config \<Rightarrow> (nat \<Rightarrow> processor) \<Rightarrow> bool \<Rightarrow> sys \<Rightarrow> sys \<Rightarrow> bool"
  for U cfg process reliable where
  request_step:
    "reliable \<longrightarrow> \<not> lost (api_reply a) \<Longrightarrow> serve U a env debug r (tbl s) = out \<Longrightarrow> Pattern r = [] \<Longrightarrow>
       sys_step U cfg process reliable s (s\<lparr>tbl := htab out, trace := trace s @ effects (hev out)\<rparr>)"
| claim_step:
    "reliable \<longrightarrow> \<not> lost rep \<Longrightarrow> todo s w = [] \<Longrightarrow> ClaimPendingOrders U rep c (BatchSize cfg) (tbl s) = (res, t') \<Longrightarrow>
       sys_step U cfg process reliable s
         (s\<lparr>tbl := t', todo := (todo s)(w := claimed res),
            trace := trace s @ concat (replicate (length (claimed res)) (Transition StatusPending StatusProcessing))\<rparr>)"
| process_step:
    "reliable \<longrightarrow> \<not> lost (mark_reply e) \<Longrightarrow> todo s w = x # xs \<Longrightarrow>
     processOne U (process w) e 0 sp x (tbl s) = (es, t') \<Longrightarrow>
       sys_step U cfg process reliable s
         (s\<lparr>tbl := t', todo := (todo s)(w := xs), trace := trace s @ es, finals := finals s @ final_now t' (ID x)\<rparr>)"

definition owned :: "sys \<Rightarrow> bool" where
  "owned s \<longleftrightarrow> table_ok (tbl s) \<and> (\<forall>w. distinct (map ID (todo s w))) \<and>
     (\<forall>w. \<forall>x \<in> set (todo s w). status_of (tbl s) (ID x) = Some StatusProcessing) \<and>
     (\<forall>w w'. w \<noteq> w' \<longrightarrow> ID ` set (todo s w) \<inter> ID ` set (todo s w') = {}) \<and>
     distinct (finals s) \<and> (\<forall>i \<in> set (finals s). \<exists>q. status_of (tbl s) i = Some q \<and> terminal q)"

definition claimed_state :: sys where
  "claimed_state =
     (start sample_table)\<lparr>tbl := claim_table (cenv sample_batch) 1 sample_table,
       todo := (\<lambda>_. [])(0 := claim_rows (cenv sample_batch) 1 sample_table),
       trace := concat (replicate (length (claim_rows (cenv sample_batch) 1 sample_table))
         (Transition StatusPending StatusProcessing))\<rparr>"

section \<open>Lemmas\<close>

subsection \<open>What a request does to the table\<close>

lemma createOrder_table:
  "htab (createOrder U a env r t) = t \<or>
     (\<exists>row. htab (createOrder U a env r t) = t @ [row] \<and> ID row \<notin> set (map ID t) \<and> Status row = StatusPending \<and> row_check row)"
proof (cases "\<exists>n. decoded a = Some n \<and> Validate n = None")
  case True
  then obtain n where n: "decoded a = Some n" "Validate n = None" by blast
  let ?x = "Build (fresh_id a) (api_now a) n"
  obtain y u where c: "CreateOrder U (pg_time a) (api_reply a) ?x t = (y, u)" by fastforce
  have "htab (createOrder U a env r t) = u"
    using n c by (auto simp: createOrder_def Let_def split: res.split)
  moreover have "u = pg_table (api_reply a) (sql_insert U (pg_time a) (ustring U (ID ?x)) ?x) t"
    using c CreateOrder_snd [of U "pg_time a" "api_reply a" ?x t] by simp
  ultimately show ?thesis
    using pg_table_cases [of "api_reply a" "sql_insert U (pg_time a) (ustring U (ID ?x)) ?x" t]
    by (auto dest!: sql_insert_Inr)
next
  case False
  then show ?thesis by (auto simp: createOrder_def Let_def split: option.splits)
qed

lemma createOrder_flow:
  assumes "\<not> lost (api_reply a)" "s \<in> set AllStatuses"
  shows "in_status s (htab (createOrder U a env r t)) = in_status s t + flow s (effects (hev (createOrder U a env r t)))"
proof (cases "\<exists>n. decoded a = Some n \<and> Validate n = None")
  case True
  then obtain n where n: "decoded a = Some n" "Validate n = None" by blast
  let ?x = "Build (fresh_id a) (api_now a) n"
  obtain y u where c: "CreateOrder U (pg_time a) (api_reply a) ?x t = (y, u)" by fastforce
  have u: "htab (createOrder U a env r t) = u"
    using n c by (auto simp: createOrder_def Let_def split: res.split)
  show ?thesis
  proof (cases y)
    case (Ok z)
    then obtain row where row: "u = t @ [row]" "Status row = StatusPending"
      using CreateOrder_Ok [of U "pg_time a" "api_reply a" ?x t] c by (auto dest!: sql_insert_Inr)
    have "effects (hev (createOrder U a env r t)) = OrderCreated (NewCurrency n) (NewAmountCents n)"
      using n c Ok by (simp add: createOrder_def Let_def)
    moreover have "flow s (OrderCreated (NewCurrency n) (NewAmountCents n)) = of_bool (s = StatusPending)"
    proof -
      have "flow s (Transition ''new'' StatusPending) = of_bool (s = StatusPending) - of_bool (s = ''new'')"
        using assms(2) by (intro flow_Transition) auto
      moreover have "s \<noteq> ''new''" using assms(2) by (auto simp: AllStatuses_def)
      moreover have "flow s [Metric (Inc created [NewCurrency n]), Metric (Add createdValue [NewCurrency n] (NewAmountCents n) None)] = 0"
        by (rule flow_zero) (simp add: delta_Metric business_defs)
      ultimately show ?thesis
        by (simp only: OrderCreated_def flow_append StatusPending_def [symmetric]) simp
    qed
    ultimately show ?thesis using u row by (auto simp: eq_commute [of s])
  next
    case (Err e)
    then have "u = t" using c assms(1)
      by (cases "api_reply a") (auto simp: CreateOrder_def pg_run_def lost_def split: sum.splits)
    then show ?thesis using n c Err u by (simp add: createOrder_def Let_def)
  next
    case (Panicked m)
    then have "u = t" using c assms(1)
      by (cases "api_reply a") (auto simp: CreateOrder_def pg_run_def lost_def split: sum.splits)
    then show ?thesis using n c Panicked u by (simp add: createOrder_def Let_def)
  qed
next
  case False
  then show ?thesis by (auto simp: createOrder_def Let_def split: option.splits)
qed

lemma read_endpoints:
  assumes "e \<noteq> CreateOrderE"
  shows "htab (run_endpoint U a env e r t) = t" "effects (hev (run_endpoint U a env e r t)) = []"
  using assms
  by (cases e; simp add: run_endpoint_def getOrder_def listOrders_def slowQuery_def healthz_def readyz_def
      catchAll_def Let_def split: option.split res.split)+

lemma mux_table:
  "htab (mux U a env debug r t) = t \<or>
     (\<exists>row. htab (mux U a env debug r t) = t @ [row] \<and> ID row \<notin> set (map ID t) \<and> Status row = StatusPending \<and> row_check row)"
proof -
  have e: "htab (run_endpoint U a env e q t) = t \<or>
     (\<exists>row. htab (run_endpoint U a env e q t) = t @ [row] \<and> ID row \<notin> set (map ID t) \<and> Status row = StatusPending \<and> row_check row)" for e q
    using read_endpoints(1) [of e U a env q t] createOrder_table [of U a env q t]
    by (cases "e = CreateOrderE") (auto simp: run_endpoint_def)
  show ?thesis using e by (auto simp: mux_def Let_def redirect_def split: prod.split)
qed

lemma mux_flow:
  assumes "\<not> lost (api_reply a)" "s \<in> set AllStatuses"
  shows "in_status s (htab (mux U a env debug r t)) = in_status s t + flow s (effects (hev (mux U a env debug r t)))"
proof -
  have e: "in_status s (htab (run_endpoint U a env e q t)) = in_status s t + flow s (effects (hev (run_endpoint U a env e q t)))" for e q
    using read_endpoints [of e U a env q t] createOrder_flow [OF assms, of U env q t]
    by (cases "e = CreateOrderE") (auto simp: run_endpoint_def)
  show ?thesis using e by (auto simp: mux_def Let_def redirect_def split: prod.split)
qed


lemma stack_table: "htab (stack env h r t) = htab (h (inner_request env r) t)"
proof -
  have rc: "htab (Recover env f g q u) = htab (g q u)" for f g q u by (simp add: Recover_def Let_def split: option.split)
  have al: "htab (AccessLog env g q u) = htab (g q u)" for g q u by (simp add: AccessLog_def Let_def split_beta)
  have hm: "htab (http_Middleware env g q u) = htab (g q u)" for g q u by (simp add: http_Middleware_def Let_def split_beta)
  have ri: "htab (RequestID env g q u) = htab (g (q\<lparr>CtxAttrs := WithRequestID (CtxAttrs q) (request_id env q)\<rparr>) u)" for g q u
    by (simp add: RequestID_def request_id_def Let_def split_beta)
  have tr: "htab (tracing_Middleware env g r t) = htab (g (traced_request env r) t)" for g
    by (cases "span_sc env") (simp_all add: tracing_Middleware_def traced_request_def probe_def Let_def split_beta)
  show ?thesis unfolding stack_eq by (simp add: tr hm ri al rc traced_request_id inner_traced)
qed

lemma Recover_transitions:
  "ctr transitions ls (effects (hev (recovered env h r t))) = ctr transitions ls (effects (hev (h (inner_request env r) t)))"
  by (auto simp: recovered_def Recover_def Let_def onPanic_def http_RecordPanic_def tracing_RecordPanic_def delta_Metric
      panics_def transitions_def split: option.split)

lemma stack_probe:
  assumes "probe r"
  shows "effects (hev (stack env h r t)) = effects (hev (recovered env h r t))"
  using assms
  by (auto simp: stack_eq tracing_Middleware_def http_Middleware_def http_skip_def RequestID_def AccessLog_def probe_def
      recovered_def inner_request_def traced_request_def request_id_def Let_def split_beta)

lemma http_transitions [simp]:
  "ctr transitions ls (red_calls env r pat c n) = 0"
  by (simp add: red_calls_def Let_def delta_Metric requests_def http_duration_def respSize_def transitions_def)

lemma stack_transitions:
  assumes "plain (wcalls (hev (h (inner_request env r) t)))"
  shows "ctr transitions ls (effects (hev (stack env h r t))) = ctr transitions ls (effects (hev (h (inner_request env r) t)))"
proof (cases "probe r")
  case True
  then show ?thesis by (simp add: stack_probe Recover_transitions)
next
  case False
  obtain st n where "\<forall>c. st \<noteq> Metric c"
    "effects (hev (stack env h r t)) = [st, Metric (GaugeInc inFlight)] @ effects (hev (recovered env h r t)) @
        (if hpanic (recovered env h r t) = None then red_calls env (traced_request env r) (hpat (recovered env h r t))
           (client_status (wcalls (hev (recovered env h r t)))) n else []) @
        [Metric (GaugeDec inFlight)] @
        (if hpanic (recovered env h r t) = None then span_ending r (hpat (recovered env h r t))
           (client_status (wcalls (hev (recovered env h r t)))) else []) @ [SpanEnd 0]"
    using stack_spec [OF False recovered_plain [of h env r t, OF assms]] by blast
  then show ?thesis by (simp add: Recover_transitions)
qed

lemma serve_table:
  "htab (serve U a env debug r t) = t \<or>
     (\<exists>row. htab (serve U a env debug r t) = t @ [row] \<and> ID row \<notin> set (map ID t) \<and> Status row = StatusPending \<and> row_check row)"
  unfolding serve_def stack_table by (rule mux_table)

lemma flow_cong: "(\<And>ls. ctr transitions ls es = ctr transitions ls fs) \<Longrightarrow> flow s es = flow s fs"
  by (simp add: flow_def)

lemma serve_flow:
  assumes "\<not> lost (api_reply a)" "s \<in> set AllStatuses" "Pattern r = []"
  shows "in_status s (htab (serve U a env debug r t)) = in_status s t + flow s (effects (hev (serve U a env debug r t)))"
proof -
  have "plain (wcalls (hev (mux U a env debug (inner_request env r) t)))"
    using mux_tame(1) [of "inner_request env r" U a env debug t] assms(3) by (auto dest: tame_fields)
  then have "flow s (effects (hev (stack env (mux U a env debug) r t))) =
      flow s (effects (hev (mux U a env debug (inner_request env r) t)))"
    by (intro flow_cong stack_transitions)
  then show ?thesis using mux_flow [OF assms(1,2)] by (simp add: serve_def stack_table)
qed

subsection \<open>What a worker does to the other rows\<close>

lemma MarkOrder_other:
  assumes "table_ok t" "uuid_lib_ok U" "i \<noteq> k"
  shows "status_of (snd (MarkOrder U r now i st t)) k = status_of t k"
proof -
  have d: "distinct (map ID t)" using assms(1) by (simp add: table_ok_def)
  show ?thesis
    using pg_table_cases [of r "sql_mark U (ustring U i) st now" t] assms(2,3) d
    by (auto simp: MarkOrder_snd status_of_update_one uuid_lib_ok_def dest!: sql_mark_Inr)
qed

lemma processOne_snd_mark:
  "snd (processOne U process e parent sp x t) =
     (case process e x of Panics m \<Rightarrow> t
      | Returns q \<Rightarrow> snd (MarkOrder U (mark_reply e) (mark_now e) (ID x) (wanted (octx e) (Returns q)) t))"
proof (cases "process e x")
  case (Panics m)
  then show ?thesis by (simp add: processOne_snd process_body_panic)
next
  case (Returns q)
  obtain y u where mark: "MarkOrder U (mark_reply e) (mark_now e) (ID x) (wanted (octx e) (Returns q)) t = (y, u)" by fastforce
  from process_body_mark [of process e x q, OF Returns this, of sp] show ?thesis
    by (auto simp: processOne_snd Returns mark)
qed

lemma processOne_frame:
  assumes "table_ok t" "uuid_lib_ok U" "processOne U process e parent sp x t = (es, t')"
  shows "table_ok t' \<and> (\<forall>k. k \<noteq> ID x \<longrightarrow> status_of t' k = status_of t k)"
proof -
  have t': "t' = snd (processOne U process e parent sp x t)" using assms(3) by simp
  have "table_ok (snd (MarkOrder U r now i st t))" for r now i st
    using mark.run_ok [OF assms(1)] by (simp add: MarkOrder_snd)
  then show ?thesis using MarkOrder_other [OF assms(1,2), of "ID x"] assms(1)
    by (auto simp: t' processOne_snd_mark split: run.split)
qed

lemma claim_frame:
  assumes "table_ok t" "ClaimPendingOrders U r c n t = (y, t')"
  shows "table_ok t' \<and> (\<forall>k q. status_of t k = Some q \<and> q \<noteq> StatusPending \<longrightarrow> status_of t' k = Some q)"
proof -
  have d: "distinct (map ID t)" using assms(1) by (simp add: table_ok_def)
  have "t' = pg_table r (sql_claim U c n) t" using assms(2) ClaimPendingOrders_snd [of U r c n t] by simp
  then have "t' = t \<or> t' = claim_table c n t"
    using pg_table_cases [of r "sql_claim U c n" t] by (auto simp: sql_claim_def split: if_splits)
  then show ?thesis
    using claim_ids_status [OF d] claim_table_ok [OF assms(1)] assms(1) by (auto simp: claim_status_of)
qed

lemma claim_owned:
  assumes "table_ok t" "uuid_lib_ok U" "ClaimPendingOrders U r c n t = (y, t')" "x \<in> set (claimed y)"
  shows "status_of t (ID x) = Some StatusPending" "status_of t' (ID x) = Some StatusProcessing" "distinct (map ID (claimed y))"
proof -
  have d: "distinct (map ID t)" using assms(1) by (simp add: table_ok_def)
  obtain xs where y: "y = Ok xs" using assms(4) by (cases y) auto
  then have xs: "xs = claim_rows c n t" "t' = claim_table c n t"
    using ClaimPendingOrders_Ok [OF assms(2)] assms(3) by blast+
  have "ID x \<in> set (claim_ids c n t)" using assms(4) y xs claim_rows_ids [of c n t] by auto
  then show "status_of t (ID x) = Some StatusPending" "status_of t' (ID x) = Some StatusProcessing"
    using claim_ids_status [OF d] xs by (auto simp: claim_status_of)
  show "distinct (map ID (claimed y))" using y xs claim_rows_distinct [OF d] by simp
qed


subsection \<open>Ownership is an invariant\<close>

lemma terminal_not [simp]: "\<not> terminal StatusPending" "\<not> terminal StatusProcessing"
  by (simp_all add: terminal_def)

lemma final_now_set: "i \<in> set (final_now t k) \<longleftrightarrow> i = k \<and> (\<exists>q. status_of t i = Some q \<and> terminal q)"
  by (cases "status_of t k") (auto simp: final_now_def)

lemma owned_facts:
  assumes "owned s"
  shows "table_ok (tbl s)" "distinct (map ID (todo s w))" "x \<in> set (todo s w) \<Longrightarrow> status_of (tbl s) (ID x) = Some StatusProcessing"
    "w \<noteq> w' \<Longrightarrow> ID ` set (todo s w) \<inter> ID ` set (todo s w') = {}" "distinct (finals s)"
    "i \<in> set (finals s) \<Longrightarrow> \<exists>q. status_of (tbl s) i = Some q \<and> terminal q"
  using assms by (auto simp: owned_def)

lemma final_now_distinct: "distinct (final_now t k)"
  by (auto simp: final_now_def split: option.splits)

lemma owned_request:
  assumes "owned s" "serve U a env debug r (tbl s) = out"
  shows "owned (s\<lparr>tbl := htab out, trace := es\<rparr>)"
proof -
  have t: "table_ok (tbl s)" using assms(1) by (simp add: owned_def)
  from serve_table [of U a env debug r "tbl s"] assms(2)
  have "htab out = tbl s \<or> (\<exists>row. htab out = tbl s @ [row] \<and> ID row \<notin> set (map ID (tbl s)) \<and> row_check row)" by auto
  then have "table_ok (htab out)" "\<And>k q. status_of (tbl s) k = Some q \<Longrightarrow> status_of (htab out) k = Some q"
    using t snoc_ok [of "tbl s"] by auto
  then show ?thesis using assms(1) by (fastforce simp: owned_def)
qed

lemma owned_claim:
  assumes o: "owned s" and U: "uuid_lib_ok U" and w: "todo s w = []"
    and c: "ClaimPendingOrders U rep c n (tbl s) = (res, t')"
  shows "owned (s\<lparr>tbl := t', todo := (todo s)(w := claimed res), trace := es\<rparr>)"
proof -
  have t: "table_ok (tbl s)" using o by (simp add: owned_def)
  note fr = claim_frame [OF t c]
  have keep: "status_of t' (ID x) = Some StatusProcessing" if "x \<in> set (todo s v)" for x v
    using o that fr by (simp add: owned_def)
  have fin: "\<exists>q. status_of t' i = Some q \<and> terminal q" if i: "i \<in> set (finals s)" for i
  proof -
    obtain q where q: "status_of (tbl s) i = Some q" "terminal q" using owned_facts(6) [OF o i] by blast
    then have "q \<noteq> StatusPending" by auto
    then show ?thesis using q fr by auto
  qed
  have new: "\<And>x. x \<in> set (claimed res) \<Longrightarrow> status_of (tbl s) (ID x) = Some StatusPending"
    "\<And>x. x \<in> set (claimed res) \<Longrightarrow> status_of t' (ID x) = Some StatusProcessing" "distinct (map ID (claimed res))"
    using claim_owned [OF t U c] by (auto, cases "claimed res", auto)
  have apart: "ID ` set (claimed res) \<inter> ID ` set (todo s v) = {}" for v
  proof (rule ccontr)
    assume "ID ` set (claimed res) \<inter> ID ` set (todo s v) \<noteq> {}"
    then obtain x y where "x \<in> set (claimed res)" "y \<in> set (todo s v)" "ID x = ID y" by auto
    then show False using new(1) o by (fastforce simp: owned_def)
  qed
  show ?thesis using o keep fin new apart fr by (auto simp: owned_def Int_commute)
qed

lemma owned_process:
  assumes o: "owned s" and U: "uuid_lib_ok U" and w: "todo s w = x # xs"
    and p: "processOne U process e 0 sp x (tbl s) = (es, t')"
  shows "owned (s\<lparr>tbl := t', todo := (todo s)(w := xs), trace := fs, finals := finals s @ final_now t' (ID x)\<rparr>)"
proof -
  have t: "table_ok (tbl s)" using o by (simp add: owned_def)
  note fr = processOne_frame [OF t U p]
  have x: "status_of (tbl s) (ID x) = Some StatusProcessing" by (rule owned_facts(3) [OF o, of x w]) (simp add: w)
  have dx: "distinct (map ID (x # xs))" using owned_facts(2) [OF o, of w] w by simp
  have other: "ID x \<notin> ID ` set (todo s v)" if "v \<noteq> w" for v
  proof -
    have "ID ` set (todo s w) \<inter> ID ` set (todo s v) = {}" using o that by (auto simp: owned_def)
    then show ?thesis using w by auto
  qed
  have keep: "status_of t' (ID y) = Some StatusProcessing" if "y \<in> set ((((todo s)(w := xs)) v))" for y v
  proof -
    have "ID y \<in> ID ` set (((todo s)(w := xs)) v)" using that by simp
    then have "ID y \<noteq> ID x" using dx other [of v] by (auto split: if_splits)
    moreover have "status_of (tbl s) (ID y) = Some StatusProcessing"
      using that w owned_facts(3) [OF o, of y v] by (auto split: if_splits)
    ultimately show ?thesis using fr by simp
  qed
  have nx: "ID x \<notin> set (finals s)" using owned_facts(6) [OF o, of "ID x"] x by auto
  have fin: "\<exists>q. status_of t' i = Some q \<and> terminal q" if "i \<in> set (finals s)" for i
    using that nx owned_facts(6) [OF o, of i] fr by metis
  have sub: "ID ` set ((((todo s)(w := xs)) v)) \<subseteq> ID ` set (todo s v)" for v using w by auto
  have apart: "ID ` set (((todo s)(w := xs)) v) \<inter> ID ` set (((todo s)(w := xs)) v') = {}" if "v \<noteq> v'" for v v'
  proof -
    have "ID ` set (todo s v) \<inter> ID ` set (todo s v') = {}" using o that by (simp add: owned_def)
    then show ?thesis using sub [of v] sub [of v'] by blast
  qed
  have "distinct (map ID (((todo s)(w := xs)) v))" for v using o dx by (simp add: owned_def)
  moreover have "distinct (finals s @ final_now t' (ID x))"
    using o nx by (auto simp: owned_def final_now_distinct final_now_set)
  ultimately show ?thesis using fr keep apart fin unfolding owned_def by (auto simp: final_now_set)
qed

lemma owned_step: "sys_step U cfg process reliable s s' \<Longrightarrow> uuid_lib_ok U \<Longrightarrow> owned s \<Longrightarrow> owned s'"
  by (induction rule: sys_step.induct) (auto intro: owned_request owned_claim owned_process)

lemma owned_start: "table_ok t \<Longrightarrow> owned (start t)"
  by (simp add: owned_def start_def)

lemma owned_reachable:
  assumes "(sys_step U cfg process reliable)\<^sup>*\<^sup>* (start t) s" "table_ok t" "uuid_lib_ok U"
  shows "owned s"
  using assms(1) by (induction) (auto intro: owned_step owned_start assms)

subsection \<open>Accounting\<close>

lemma step_flow:
  assumes "sys_step U cfg process True s s'" "uuid_lib_ok U" "owned s" "q \<in> set AllStatuses"
  shows "in_status q (tbl s') - flow q (trace s') = in_status q (tbl s) - flow q (trace s)"
  using assms(1)
proof cases
  case (request_step a env debug r out)
  then show ?thesis using serve_flow [of a q r U env debug "tbl s"] assms(4) by auto
next
  case (claim_step rep w c res t')
  have t: "table_ok (tbl s)" using assms(3) by (simp add: owned_def)
  have "in_status q t' = in_status q (tbl s) + flow q (concat (replicate (length (claimed res)) (Transition StatusPending StatusProcessing)))"
  proof (cases "\<exists>xs. res = Ok xs")
    case True
    then obtain xs where "res = Ok xs" by blast
    moreover from this have "xs = claim_rows c (BatchSize cfg) (tbl s)" "t' = claim_table c (BatchSize cfg) (tbl s)"
      using ClaimPendingOrders_Ok [OF assms(2)] claim_step(4) by blast+
    ultimately show ?thesis using claim_flow [OF t assms(4)] by (simp add: flow_concat_replicate)
  next
    case False
    moreover have "t' = tbl s"
      by (rule ClaimPendingOrders_unchanged [OF assms(2) _ claim_step(4)]) (use False claim_step(2) in auto)
    moreover have "claimed res = []" using False by (cases res) auto
    ultimately show ?thesis by simp
  qed
  then show ?thesis using claim_step(1) by simp
next
  case (process_step e w x xs sp es t')
  have t: "table_ok (tbl s)" using assms(3) by (simp add: owned_def)
  have "\<not> lost (mark_reply e)" using process_step(2) by simp
  from processOne_flow [OF t assms(2) this assms(4) process_step(4)] process_step(1) show ?thesis by simp
qed

lemma reachable_flow:
  assumes "(sys_step U cfg process True)\<^sup>*\<^sup>* (start t) s" "table_ok t" "uuid_lib_ok U" "q \<in> set AllStatuses"
  shows "in_status q (tbl s) = in_status q t + flow q (trace s)"
  using assms(1)
proof (induction)
  case base
  then show ?case by (simp add: start_def)
next
  case (step s s')
  then show ?case
    using step_flow [OF step(2) assms(3) owned_reachable [OF step(1) assms(2,3)] assms(4)] by simp
qed


subsection \<open>A tick of a worker as a sequence of steps\<close>

lemma process_all_steps:
  assumes "todo s w = xs" "process_all U (process w) envs k xs (tbl s) = (es, t')" "reliable \<longrightarrow> (\<forall>k. \<not> lost (mark_reply (envs k)))"
  shows "\<exists>s'. (sys_step U cfg process reliable)\<^sup>*\<^sup>* s s' \<and> tbl s' = t' \<and> todo s' = (todo s)(w := []) \<and> trace s' = trace s @ es"
  using assms
proof (induction xs arbitrary: s k es)
  case Nil
  then show ?case by (intro exI [of _ s]) (auto simp: fun_upd_idem)
next
  case (Cons x xs)
  obtain es1 t1 where one: "processOne U (process w) (envs k) 0 (Suc k) x (tbl s) = (es1, t1)" by fastforce
  obtain es2 t2 where rest: "process_all U (process w) envs (Suc k) xs t1 = (es2, t2)" by fastforce
  have eqs: "es = es1 @ es2" "t' = t2" using Cons.prems(2) one rest by auto
  let ?s1 = "s\<lparr>tbl := t1, todo := (todo s)(w := xs), trace := trace s @ es1, finals := finals s @ final_now t1 (ID x)\<rparr>"
  have step: "sys_step U cfg process reliable s ?s1"
    by (rule process_step [where process = process and w = w and e = "envs k", OF _ Cons.prems(1) one]) (use Cons.prems(3) in auto)
  have "todo ?s1 w = xs" "process_all U (process w) envs (Suc k) xs (tbl ?s1) = (es2, t')" using rest eqs by simp_all
  from Cons.IH [OF this Cons.prems(3)] obtain s' where s': "(sys_step U cfg process reliable)\<^sup>*\<^sup>* ?s1 s'" "tbl s' = t'"
    "todo s' = (todo s)(w := [])" "trace s' = trace s @ es1 @ es2"
    by (auto simp del: fun_upd_apply)
  show ?case using converse_rtranclp_into_rtranclp [of "sys_step U cfg process reliable", OF step s'(1)] s'(2-) eqs by blast
qed

lemma runOnce_steps:
  assumes "todo s w = []" "runOnce U cfg (process w) b (tbl s) = (es, t')"
    and rel: "reliable \<longrightarrow> \<not> lost (claim_reply b) \<and> (\<forall>k. \<not> lost (mark_reply (order_envs b k)))"
  shows "\<exists>s'. (sys_step U cfg process reliable)\<^sup>*\<^sup>* s s' \<and> tbl s' = t' \<and> todo s' = todo s \<and>
    (\<forall>ls. ctr transitions ls (trace s') = ctr transitions ls (trace s @ es))"
proof -
  obtain y u where claim: "ClaimPendingOrders U (claim_reply b) (cenv b) (BatchSize cfg) (tbl s) = (y, u)" by fastforce
  let ?tr = "concat (replicate (length (claimed y)) (Transition StatusPending StatusProcessing))"
  let ?s1 = "s\<lparr>tbl := u, todo := (todo s)(w := claimed y), trace := trace s @ ?tr\<rparr>"
  have step: "sys_step U cfg process reliable s ?s1"
    by (rule claim_step [OF _ assms(1) claim]) (use rel in auto)
  obtain fs v where all: "process_all U (process w) (order_envs b) 0 (claimed y) u = (fs, v)" by fastforce
  obtain s' where s': "(sys_step U cfg process reliable)\<^sup>*\<^sup>* ?s1 s'" "tbl s' = v" "todo s' = (todo s)(w := [])"
    "trace s' = trace s @ ?tr @ fs"
    using process_all_steps [where s = ?s1 and w = w and process = process and xs = "claimed y" and U = U
        and envs = "order_envs b" and k = 0 and es = fs and t' = v and reliable = reliable and cfg = cfg] all rel by auto
  have same: "todo s' = todo s" using s'(3) assms(1) by (simp add: fun_upd_idem)
  have "t' = v \<and> (\<forall>ls. ctr transitions ls es = ctr transitions ls (?tr @ fs))"
  proof (cases y)
    case (Ok xs)
    then show ?thesis using assms(2) claim all
      by (cases "xs = []") (auto simp: runOnce_def run_body_def)
  qed (use assms(2) claim all in \<open>auto simp: runOnce_def run_body_def split: if_splits\<close>)
  then show ?thesis
    using converse_rtranclp_into_rtranclp [of "sys_step U cfg process reliable", OF step s'(1)] s'(2,4) same by auto
qed

subsection \<open>A reachable state\<close>

lemma claimed_state_reachable:
  "(sys_step canonical_lib sample_config (\<lambda>_. simulatePayment sample_config) True)\<^sup>*\<^sup>* (start sample_table) claimed_state"
proof -
  have "sys_step canonical_lib sample_config (\<lambda>_. simulatePayment sample_config) True (start sample_table) claimed_state"
    using claim_step [of True ReplyOk "start sample_table" 0 canonical_lib "cenv sample_batch" sample_config
        "Ok (claim_rows (cenv sample_batch) 1 sample_table)" "claim_table (cenv sample_batch) 1 sample_table"
        "\<lambda>_. simulatePayment sample_config"]
    by (simp add: lost_def start_def claimed_state_def ClaimPendingOrders_ok [OF canonical_lib_ok])
  then show ?thesis by (rule r_into_rtranclp)
qed

section \<open>Properties\<close>

text \<open>
  (C1) Exactly-once hand-over under concurrency. In every state that any number of workers and API
  requests can reach, under any interleaving of their statements, any processors and any failed or
  lost round trips: no two workers own the same order, every owned order is \<open>processing\<close>, no
  order is finalised twice and a finalised order stays terminal; so when a worker finishes an order
  it owns and the database answers, its \<open>MarkOrder\<close> succeeds and never conflicts.
\<close>

theorem concurrent_exactly_once:
  assumes "table_ok t" "uuid_lib_ok U" "(sys_step U cfg process reliable)\<^sup>*\<^sup>* (start t) s"
  shows "table_ok (tbl s) \<and>
    (\<forall>w w'. w \<noteq> w' \<longrightarrow> ID ` set (todo s w) \<inter> ID ` set (todo s w') = {}) \<and>
    (\<forall>w. \<forall>x \<in> set (todo s w). status_of (tbl s) (ID x) = Some StatusProcessing) \<and>
    distinct (finals s) \<and> (\<forall>i \<in> set (finals s). \<exists>q. status_of (tbl s) i = Some q \<and> terminal q) \<and>
    (\<forall>w. \<forall>x \<in> set (todo s w). \<forall>st now. Valid st \<longrightarrow>
       MarkOrder U ReplyOk now (ID x) st (tbl s) = (Ok (), mark_table (ID x) st now (tbl s)))"
proof -
  have o: "owned s" by (rule owned_reachable [OF assms(3,1,2)])
  note f = owned_facts [OF o]
  show ?thesis using f MarkOrder_ok [OF f(1) assms(2)] by (auto simp: owned_def)
qed

text \<open>
  (C2) Global accounting. With any number of concurrent workers and API requests, as long as no
  committed round trip is lost, the number of rows in every status is the initial number plus the
  net flow of all the transition counters together: creations, claims, outcomes and releases.
\<close>

theorem concurrent_counters_match_table:
  assumes "table_ok t" "uuid_lib_ok U" "(sys_step U cfg process True)\<^sup>*\<^sup>* (start t) s" "q \<in> set AllStatuses"
  shows "in_status q (tbl s) = in_status q t + flow q (trace s)"
  by (rule reachable_flow [OF assms(3,1,2,4)])

text \<open>
  (C7) The step relation covers the code: one tick \<open>runOnce\<close> of any worker, with any outcomes, is
  a sequence of steps of the concurrent system, ending in the same table, with the worker idle again
  and the same transition counts.
\<close>

theorem tick_refines_steps:
  assumes "todo s w = []" "reliable \<longrightarrow> \<not> lost (claim_reply b) \<and> (\<forall>k. \<not> lost (mark_reply (order_envs b k)))"
  shows "\<exists>s'. (sys_step U cfg process reliable)\<^sup>*\<^sup>* s s' \<and> tbl s' = snd (runOnce U cfg (process w) b (tbl s)) \<and>
    todo s' = todo s \<and>
    (\<forall>ls. ctr transitions ls (trace s') = ctr transitions ls (trace s @ fst (runOnce U cfg (process w) b (tbl s))))"
proof -
  obtain es t' where run: "runOnce U cfg (process w) b (tbl s) = (es, t')" by fastforce
  from runOnce_steps [where process = process, OF assms(1) run assms(2)] run show ?thesis by simp
qed

theorem tick_refines_steps_witness:
  "\<exists>s'. (sys_step canonical_lib sample_config (\<lambda>_. simulatePayment sample_config) True)\<^sup>*\<^sup>* (start sample_table) s' \<and>
     tbl s' = snd (runOnce canonical_lib sample_config (simulatePayment sample_config) sample_batch sample_table)"
  using tick_refines_steps [of "start sample_table" 0 True sample_batch canonical_lib sample_config
      "\<lambda>_. simulatePayment sample_config"] sample_batch_replies
  by (auto simp: start_def lost_def)

theorem concurrent_exactly_once_witness:
  "(\<exists>x \<in> set (todo claimed_state 0). ID x = 2 \<and> status_of (tbl claimed_state) 2 = Some StatusProcessing) \<and>
   distinct (finals claimed_state)"
proof -
  obtain x where "x \<in> set (todo claimed_state 0)" "ID x = 2"
    using sample_claim_rows by (auto simp: claimed_state_def map_eq_Cons_conv)
  then show ?thesis
    using concurrent_exactly_once [OF sample_table_ok canonical_lib_ok claimed_state_reachable] by metis
qed

theorem concurrent_counters_match_table_witness:
  "in_status StatusProcessing (tbl claimed_state) =
     in_status StatusProcessing sample_table + flow StatusProcessing (trace claimed_state)"
  by (rule concurrent_counters_match_table [OF sample_table_ok canonical_lib_ok claimed_state_reachable]) simp

end
