(* ===== verification/Backlog.thy ===== *)
theory Backlog
  imports Worker Go_Numbers
begin

text \<open>
  internal/worker/backlog.go and \<open>OldestPendingAge\<close> of internal/store/orders.go: the refresher
  that publishes the absolute backlog on its own ticker. A refresh runs two queries, each on the table
  of its moment: the one that is counted and, later, the one whose oldest pending order gives the age. The
  age passes through \<open>float64\<close> on its way from the server to a \<open>time.Duration\<close>.
\<close>

section \<open>Definitions\<close>

subsection \<open>The age of the oldest pending order\<close>

text \<open>\<open>COALESCE(EXTRACT(EPOCH FROM (now() - MIN(created_at))), 0)\<close>, in seconds.\<close>

definition sql_oldest :: "time \<Rightarrow> table \<Rightarrow> goerr + (table \<times> rat)" where
  "sql_oldest now t =
     (let ps = map CreatedAt (filter (\<lambda>r. Status r = StatusPending) t)
      in Inr (t, if ps = [] then 0 else of_int (now - Min (set ps)) / of_int Second))"

definition OldestPendingAge :: "pg_reply \<Rightarrow> time \<Rightarrow> table \<Rightarrow> duration res" where
  "OldestPendingAge r now t =
     res_bind (res_wrap ''store: oldest pending age'' (fst (pg_run r (sql_oldest now) t)))
       (\<lambda>age. let seconds = f64 age in Ok (trunc (f64 (seconds * of_int Second))))"

subsection \<open>The refresher\<close>

definition NewBacklogRefresher :: "duration \<Rightarrow> duration \<times> duration" where
  "NewBacklogRefresher interval = (if interval \<le> 0 then 15 * Second else interval, 5 * Second)"

definition errorsIsRealFailure :: "goerr option \<Rightarrow> bool" where
  "errorsIsRealFailure ctx_error = (ctx_error \<noteq> Some Canceled)"

record refresh_env =
  count_reply :: pg_reply
  count_ctx :: "goerr option" \<comment> \<open>\<open>ctx.Err()\<close> after a failed count\<close>
  age_reply :: pg_reply
  age_now :: time
  refresh_now :: time

definition refresh_body :: "refresh_env \<Rightarrow> table \<Rightarrow> table \<Rightarrow> effect list \<times> string option" where
  "refresh_body e t u =
     (case CountOrdersByStatus (count_reply e) t of
        Panicked m \<Rightarrow> ([], Some m)
      | Err er \<Rightarrow>
          ((if count_ctx e = None \<or> errorsIsRealFailure (count_ctx e)
            then [Log LevelError None ''backlog count failed'' [(''error'', AErr er)]] else []) @
           BacklogRefreshFailed, None)
      | Ok counts \<Rightarrow>
          (case OldestPendingAge (age_reply e) (age_now e) u of
             Panicked m \<Rightarrow> ([], Some m)
           | Err er \<Rightarrow>
               ([Log LevelError None ''oldest pending age failed'' [(''error'', AErr er)]] @
                BacklogRefreshFailed, None)
           | Ok oldest \<Rightarrow> (SetBacklog AllStatuses (refresh_now e) counts oldest, None)))"

definition refresh :: "refresh_env \<Rightarrow> table \<Rightarrow> table \<Rightarrow> effect list" where
  "refresh e t u =
     (case refresh_body e t u of
        (es, None) \<Rightarrow> es
      | (es, Some m) \<Rightarrow>
          es @ WorkerPanic ''backlog_refresh'' @
          [Log LevelError None ''recovered panic in backlog refresher''
             [(''stage'', AStr ''backlog_refresh''), (''panic'', AStr m), (''stack'', AStack)]])"

datatype refresh_wake = RefreshTick refresh_env table table | RefreshDone

fun refresh_loop :: "refresh_wake list \<Rightarrow> effect list" where
  "refresh_loop [] = []"
| "refresh_loop (RefreshDone # ws) = [Log LevelInfo None ''backlog refresher stopped'' []]"
| "refresh_loop (RefreshTick e t u # ws) = refresh e t u @ refresh_loop ws"

text \<open>\<open>Run\<close> refreshes once before its first tick; each refresh reads the tables of its moments.\<close>

definition backlog_Run :: "duration \<Rightarrow> refresh_env \<Rightarrow> table \<Rightarrow> table \<Rightarrow> refresh_wake list \<Rightarrow> effect list" where
  "backlog_Run interval e0 t0 u0 ws =
     refresh e0 t0 u0 @
     [Log LevelInfo None ''backlog refresher started'' [(''interval'', ADur interval)]] @
     refresh_loop ws"

subsection \<open>The gauges a trace leaves behind\<close>

fun gauge_after :: "mdesc \<Rightarrow> string list \<Rightarrow> effect list \<Rightarrow> mval option \<Rightarrow> mval option" where
  "gauge_after d ls [] v = v"
| "gauge_after d ls (Metric (GaugeSet d' ls' x) # es) v =
     gauge_after d ls es (if d' = d \<and> ls' = ls then Some x else v)"
| "gauge_after d ls (_ # es) v = gauge_after d ls es v"

definition refreshed :: "refresh_env \<Rightarrow> bool" where
  "refreshed e \<longleftrightarrow> count_reply e = ReplyOk \<and> age_reply e = ReplyOk"

definition sample_refresh :: refresh_env where
  "sample_refresh =
     \<lparr>count_reply = ReplyOk, count_ctx = None, age_reply = ReplyOk, age_now = 90, refresh_now = 2 * Second\<rparr>"

section \<open>Lemmas\<close>

lemma OldestPendingAge_ok:
  "OldestPendingAge ReplyOk now t =
     Ok (let ps = map CreatedAt (filter (\<lambda>r. Status r = StatusPending) t) in
         trunc (f64 (f64 (if ps = [] then 0 else of_int (now - Min (set ps)) / of_int Second) * of_int Second)))"
  by (simp add: OldestPendingAge_def pg_run_def sql_oldest_def Let_def)

lemma gauge_after_append [simp]: "gauge_after d ls (es @ fs) v = gauge_after d ls fs (gauge_after d ls es v)"
  by (induction d ls es v rule: gauge_after.induct) auto

lemma gauge_after_none:
  "(\<And>x. Metric (GaugeSet d ls x) \<notin> set es) \<Longrightarrow> gauge_after d ls es v = v"
  by (induction d ls es v rule: gauge_after.induct) auto

lemma gauge_after_sets:
  "distinct ss \<Longrightarrow>
     gauge_after d [s] (map (\<lambda>s. Metric (GaugeSet d [s] (f s))) ss) v = (if s \<in> set ss then Some (f s) else v)"
  by (induction ss arbitrary: v) auto

lemma AllStatuses_distinct: "distinct AllStatuses"
  by (simp add: AllStatuses_def)

lemma backlog_gauges_distinct [simp]:
  "backlogOldest \<noteq> backlog" "backlogRefresh \<noteq> backlog" "backlogRefresh \<noteq> backlogOldest" "backlogOldest \<noteq> backlogRefresh"
  by (simp_all add: business_defs)

lemma refresh_ok:
  assumes "refreshed e"
  shows "\<exists>m age. (\<forall>s. m s = (if s \<in> Status ` set t then Some (in_status s t) else None)) \<and>
    refresh e t u = SetBacklog AllStatuses (refresh_now e) m (trunc (f64 (f64 age * of_int Second))) \<and>
    (filter (\<lambda>r. Status r = StatusPending) u = [] \<longrightarrow> age = 0)"
proof -
  obtain m where m: "CountOrdersByStatus ReplyOk t = Ok m"
    "\<forall>s. m s = (if s \<in> Status ` set t then Some (in_status s t) else None)"
    using CountOrdersByStatus_ok [of t] by blast
  let ?ps = "map CreatedAt (filter (\<lambda>r. Status r = StatusPending) u)"
  let ?age = "if ?ps = [] then 0 else of_int (age_now e - Min (set ?ps)) / of_int Second :: rat"
  have "refresh e t u = SetBacklog AllStatuses (refresh_now e) m (trunc (f64 (f64 ?age * of_int Second)))"
    using assms m(1) by (simp add: refreshed_def refresh_def refresh_body_def OldestPendingAge_ok Let_def)
  with m(2) show ?thesis by (intro exI [of _ m] exI [of _ ?age]) simp
qed

lemma CountOrders_fails: "r \<noteq> ReplyOk \<Longrightarrow> \<nexists>m. CountOrdersByStatus r t = Ok m"
  by (cases r) (auto simp: CountOrdersByStatus_def pg_query_def sql_count_def)

lemma OldestPendingAge_fails: "r \<noteq> ReplyOk \<Longrightarrow> \<nexists>d. OldestPendingAge r now t = Ok d"
  by (cases r) (auto simp: OldestPendingAge_def pg_run_def sql_oldest_def Let_def)

lemma refresh_failed:
  assumes "\<not> refreshed e"
  shows "Metric (GaugeSet d ls x) \<notin> set (refresh e t u) \<and>
    ctr backlogErrors [] (refresh e t u) + ctr workerPanics [''backlog_refresh''] (refresh e t u) = 1"
proof (cases "count_reply e = ReplyOk")
  case True
  then obtain m where m: "CountOrdersByStatus (count_reply e) t = Ok m" using CountOrdersByStatus_ok [of t] by auto
  have "age_reply e \<noteq> ReplyOk" using assms True by (simp add: refreshed_def)
  then have "\<nexists>d. OldestPendingAge (age_reply e) (age_now e) u = Ok d" by (rule OldestPendingAge_fails)
  then show ?thesis using m
    by (cases "OldestPendingAge (age_reply e) (age_now e) u")
      (auto simp: refresh_def refresh_body_def BacklogRefreshFailed_def WorkerPanic_def delta_Metric business_defs)
next
  case False
  then have "\<nexists>m. CountOrdersByStatus (count_reply e) t = Ok m" by (rule CountOrders_fails)
  then show ?thesis
    by (cases "CountOrdersByStatus (count_reply e) t")
      (auto simp: refresh_def refresh_body_def BacklogRefreshFailed_def WorkerPanic_def delta_Metric business_defs)
qed

section \<open>Properties\<close>

text \<open>
  (C22) The backlog gauges are exact or honestly stale. A refresh whose queries succeed sets, for every
  status, the gauge to the number of rows in it (zero included) of the table that was counted, the age to
  zero when nothing is pending in the table at the time of the second query, and the refresh time. A
  refresh that fails in any way leaves every gauge, the refresh time included, as it was, and counts
  exactly one refresh error or recovered panic.
\<close>

theorem backlog_exact_or_stale:
  "(refreshed e \<longrightarrow>
     (\<forall>s \<in> set AllStatuses. gauge_after backlog [s] (refresh e t u) v = Some (VNum (in_status s t))) \<and>
     (in_status StatusPending u = 0 \<longrightarrow> gauge_after backlogOldest [] (refresh e t u) v = Some (VSeconds 0)) \<and>
     gauge_after backlogRefresh [] (refresh e t u) v = Some (VNum (refresh_now e div Second))) \<and>
   (\<not> refreshed e \<longrightarrow>
     (\<forall>d ls. gauge_after d ls (refresh e t u) v = v) \<and>
     ctr backlogErrors [] (refresh e t u) + ctr workerPanics [''backlog_refresh''] (refresh e t u) = 1)"
proof (intro conjI impI ballI allI)
  assume "refreshed e"
  then obtain m age where m: "\<forall>s. m s = (if s \<in> Status ` set t then Some (in_status s t) else None)"
    and r: "refresh e t u = SetBacklog AllStatuses (refresh_now e) m (trunc (f64 (f64 age * of_int Second)))"
    and age: "filter (\<lambda>r. Status r = StatusPending) u = [] \<Longrightarrow> age = 0"
    using refresh_ok [of e t u] by auto
  have z: "s \<notin> Status ` set t \<Longrightarrow> in_status s t = 0" for s by (induction t) auto
  then show "gauge_after backlog [s] (refresh e t u) v = Some (VNum (in_status s t))" if "s \<in> set AllStatuses" for s
    using that m by (simp add: r SetBacklog_def gauge_after_sets [OF AllStatuses_distinct])
  have other: "gauge_after d [] (map (\<lambda>s. Metric (GaugeSet backlog [s] (f s))) ss) w = w" for d f ss w
    by (rule gauge_after_none) auto
  show "gauge_after backlogOldest [] (refresh e t u) v = Some (VSeconds 0)" if "in_status StatusPending u = 0"
    using that age by (simp add: r SetBacklog_def in_status_def f64_def trunc_def)
  show "gauge_after backlogRefresh [] (refresh e t u) v = Some (VNum (refresh_now e div Second))"
    by (simp add: r SetBacklog_def)
next
  assume "\<not> refreshed e"
  note * = refresh_failed [OF this]
  show "gauge_after d ls (refresh e t u) v = v" for d ls using * by (intro gauge_after_none) blast
  show "ctr backlogErrors [] (refresh e t u) + ctr workerPanics [''backlog_refresh''] (refresh e t u) = 1" using * by blast
qed

theorem backlog_exact_or_stale_witness:
  "gauge_after backlog [StatusPending] (refresh sample_refresh sample_table []) None = Some (VNum 2) \<and>
   gauge_after backlogOldest [] (refresh sample_refresh sample_table []) None = Some (VSeconds 0) \<and>
   gauge_after backlog [StatusPending] (refresh (sample_refresh\<lparr>age_reply := ReplyFail Canceled\<rparr>) sample_table []) (Some (VNum 7)) =
     Some (VNum 7)"
  using backlog_exact_or_stale [of sample_refresh sample_table "[]" None]
    backlog_exact_or_stale [of "sample_refresh\<lparr>age_reply := ReplyFail Canceled\<rparr>" sample_table "[]" "Some (VNum 7)"]
  by (simp add: refreshed_def sample_refresh_def sample_table_def)

end
