(* ===== verification/Query_Tracers.thy ===== *)
theory Query_Tracers
  imports Logging
begin

text \<open>
  What every query and every connection acquisition reports: the SQL constants and their names
  (internal/store/orders.go), the three tracers that pgx calls around a query
  (internal/metrics/db.go, internal/logging/pgx.go, internal/tracing/pgx.go) and the fan-out that
  installs them in pgx's single slot (internal/store/tracer.go).

  A context is the span it carries and the chain of values that \<open>WithValue\<close> put on it. The
  clock and the span numbers come from a world that the calls read in their order; a tracer is the
  table of its methods, with the acquire methods present only when it implements
  \<open>AcquireTracer\<close>. The map of names is an association list in the order in which Go's
  \<open>range\<close> delivers it, which is any order.
\<close>

section \<open>Definitions\<close>

subsection \<open>Contexts, clock and spans\<close>

datatype ctx_key = QueryCtxKey | AcquireCtxKey | QueryLogKey | QuerySpanKey | AcquireSpanKey

datatype ctx_val =
    QueryCtxVal string time \<comment> \<open>\<open>queryCtxVal\<close>: name and start\<close>
  | QueryLogVal string time \<comment> \<open>\<open>queryLogVal\<close>: name and start\<close>
  | TimeVal time
  | SpanVal nat

record qctx =
  active :: "nat option" \<comment> \<open>the span of the context\<close>
  vals :: "(ctx_key \<times> ctx_val) list"

definition WithValue :: "qctx \<Rightarrow> ctx_key \<Rightarrow> ctx_val \<Rightarrow> qctx" where
  "WithValue ctx k v = ctx\<lparr>vals := (k, v) # vals ctx\<rparr>"

definition Value :: "qctx \<Rightarrow> ctx_key \<Rightarrow> ctx_val option" where
  "Value ctx k = map_of (vals ctx) k"

record world =
  clock :: "nat \<Rightarrow> time"
  reads :: nat
  next_span :: nat
  span_ctx :: "nat \<Rightarrow> span_context option" \<comment> \<open>of a span, when it is valid\<close>

definition time_Now :: "world \<Rightarrow> time \<times> world" where
  "time_Now w = (clock w (reads w), w\<lparr>reads := Suc (reads w)\<rparr>)"

definition tracer_Start :: "qctx \<Rightarrow> string \<Rightarrow> attr list \<Rightarrow> world \<Rightarrow> qctx \<times> nat \<times> world \<times> effect list" where
  "tracer_Start ctx name attrs w =
     (ctx\<lparr>active := Some (next_span w)\<rparr>, next_span w, w\<lparr>next_span := Suc (next_span w)\<rparr>,
      [SpanStart (next_span w) (active ctx) name attrs])"

definition ctx_span :: "world \<Rightarrow> qctx \<Rightarrow> span_context option" where
  "ctx_span w ctx = Option.bind (active ctx) (span_ctx w)"

text \<open>\<open>TraceQueryEndData\<close>: the command tag with its row count, and the error.\<close>

record query_end =
  Tag :: string
  RowsAffected :: int
  QErr :: "goerr option"

type_synonym start_method = "qctx \<Rightarrow> world \<Rightarrow> qctx \<times> world \<times> effect list"
type_synonym end_method = "qctx \<Rightarrow> world \<Rightarrow> world \<times> effect list"

record acquire_tracer =
  TraceAcquireStart :: start_method
  TraceAcquireEnd :: "goerr option \<Rightarrow> end_method"

record tracer =
  TraceQueryStart :: "string \<Rightarrow> start_method"
  TraceQueryEnd :: "query_end \<Rightarrow> end_method"
  Acquires :: "acquire_tracer option"

subsection \<open>The SQL constants\<close>

definition sql_text :: "(nat \<times> string) list \<Rightarrow> string" where
  "sql_text ls = concat (map (\<lambda>(tabs, l). CHR 0x0A # replicate tabs (CHR 0x09) @ l) ls)"

definition quoted :: "string \<Rightarrow> string" where
  "quoted s = CHR 0x27 # s @ [CHR 0x27]"

definition qInsertOrder :: string where
  "qInsertOrder = sql_text
     [(2, ''INSERT INTO orders (id, customer_id, status, amount_cents, currency, created_at, updated_at)''),
      (2, ''VALUES ($1::uuid, $2, $3, $4, $5, $6, $7)'')]"

definition qGetOrderByID :: string where
  "qGetOrderByID = sql_text
     [(2, ''SELECT id::text, customer_id, status, amount_cents, currency, created_at, updated_at''),
      (2, ''FROM orders''),
      (2, ''WHERE id = $1::uuid'')]"

definition qListOrders :: string where
  "qListOrders = sql_text
     [(2, ''SELECT id::text, customer_id, status, amount_cents, currency, created_at, updated_at''),
      (2, ''FROM orders''),
      (2, ''WHERE ($1::text IS NULL OR status = $1::text)''),
      (2, ''ORDER BY created_at DESC''),
      (2, ''LIMIT $2 OFFSET $3'')]"

definition qCountOrdersByStatus :: string where
  "qCountOrdersByStatus = sql_text [(2, ''SELECT status, count(*) FROM orders GROUP BY status'')]"

definition qClaimPending :: string where
  "qClaimPending = sql_text
     [(2, ''UPDATE orders SET status = '' @ quoted ''processing'' @ '', updated_at = now()''),
      (2, ''WHERE id IN (''),
      (3, ''SELECT id FROM orders''),
      (3, ''WHERE status = '' @ quoted ''pending''),
      (3, ''ORDER BY created_at''),
      (3, ''LIMIT $1''),
      (3, ''FOR UPDATE SKIP LOCKED''),
      (2, '')''),
      (2, ''RETURNING id::text, customer_id, status, amount_cents, currency, created_at, updated_at'')]"

definition qMarkOrderStatus :: string where
  "qMarkOrderStatus = sql_text
     [(2, ''UPDATE orders SET status = $2, updated_at = now()''),
      (2, ''WHERE id = $1::uuid AND status = '' @ quoted ''processing'')]"

definition qOldestPendingAge :: string where
  "qOldestPendingAge = sql_text
     [(2, ''SELECT COALESCE(EXTRACT(EPOCH FROM (now() - MIN(created_at))), 0)''),
      (2, ''FROM orders WHERE status = '' @ quoted ''pending'')]"

definition qSleep :: string where
  "qSleep = ''SELECT pg_sleep($1)''"

definition QueryNames :: "(string \<times> string) list" where
  "QueryNames =
     [(qInsertOrder, ''insert_order''), (qGetOrderByID, ''get_order_by_id''), (qListOrders, ''list_orders''),
      (qCountOrdersByStatus, ''count_orders_by_status''), (qClaimPending, ''claim_pending_orders''),
      (qMarkOrderStatus, ''mark_order_status''), (qOldestPendingAge, ''oldest_pending_age''), (qSleep, ''sleep'')]"

subsection \<open>Normalisation\<close>

definition normaliseSQL :: "string \<Rightarrow> string" where
  "normaliseSQL sql = join '' '' (Prelude.fields sql)"

text \<open>The byte loop of \<open>logging.normalise\<close>: the bytes collected and the flag \<open>space\<close>.\<close>

fun normalise_loop :: "string \<Rightarrow> bool \<Rightarrow> string \<Rightarrow> string" where
  "normalise_loop out sp [] = out"
| "normalise_loop out sp (c # s) =
     (if c = CHR '' '' \<or> c = CHR 0x09 \<or> c = CHR 0x0A \<or> c = CHR 0x0D then
        if \<not> sp then normalise_loop (out @ '' '') True s else normalise_loop out sp s
      else normalise_loop (out @ [c]) False s)"

function trimTrailingSpace :: "string \<Rightarrow> string" where
  "trimTrailingSpace b = (if 0 < length b \<and> last b = CHR '' '' then trimTrailingSpace (butlast b) else b)"
  by auto

termination
  by (relation "measure length") auto

declare trimTrailingSpace.simps [simp del]

definition logging_normalise :: "string \<Rightarrow> string" where
  "logging_normalise sql = trimTrailingSpace (normalise_loop [] True sql)"

text \<open>
  \<open>tracing.normalise\<close> is the same byte loop, written as a \<open>switch\<close>, and the same
  trailing loop, written in place.
\<close>

definition tracing_normalise :: "string \<Rightarrow> string" where
  "tracing_normalise sql = (let out = normalise_loop [] True sql in trimTrailingSpace out)"

definition normalised_names :: "(string \<Rightarrow> string) \<Rightarrow> (string \<times> string) list \<Rightarrow> (string \<times> string) list" where
  "normalised_names norm names = fold (\<lambda>(sql, name) m. AList.update (norm sql) name m) names []"

definition name_of :: "(string \<times> string) list \<Rightarrow> string \<Rightarrow> string" where
  "name_of names key = (case map_of names key of Some name \<Rightarrow> name | None \<Rightarrow> ''other'')"

subsection \<open>Database metrics\<close>

definition db_queryDuration :: mdesc where
  "db_queryDuration =
     \<lparr>Subsystem = ''db'', Name = ''query_duration_seconds'', Kind = HistogramKind, LabelNames = [''query'', ''status'']\<rparr>"

definition db_queryErrors :: mdesc where
  "db_queryErrors =
     \<lparr>Subsystem = ''db'', Name = ''query_errors_total'', Kind = CounterKind, LabelNames = [''query'', ''kind'']\<rparr>"

definition acquireWait :: mdesc where
  "acquireWait = \<lparr>Subsystem = ''db_pool'', Name = ''acquire_wait_seconds'', Kind = HistogramKind, LabelNames = []\<rparr>"

definition acquireErrors :: mdesc where
  "acquireErrors = \<lparr>Subsystem = ''db_pool'', Name = ''acquire_errors_total'', Kind = CounterKind, LabelNames = []\<rparr>"

definition enumerableErrorKinds :: "string list" where
  "enumerableErrorKinds = [''canceled'', ''timeout'', ''other'']"

definition DB_preInit :: "(string \<times> string) list \<Rightarrow> effect list" where
  "DB_preInit names =
     concat (map (\<lambda>(k, name).
       [Metric (WithLabels db_queryDuration [name, ''ok'']), Metric (WithLabels db_queryDuration [name, ''error''])] @
       map (\<lambda>kind. Metric (WithLabels db_queryErrors [name, kind])) enumerableErrorKinds) names) @
     [Metric (WithLabels db_queryDuration [''other'', ''ok'']), Metric (WithLabels db_queryDuration [''other'', ''error''])]"

text \<open>\<open>NewDB\<close>: the normalised names and the calls that create the series.\<close>

definition NewDB :: "(string \<times> string) list \<Rightarrow> (string \<times> string) list \<times> effect list" where
  "NewDB names = (let normalised = normalised_names normaliseSQL names in (normalised, DB_preInit normalised))"

definition DB_queryName :: "(string \<times> string) list \<Rightarrow> string \<Rightarrow> string" where
  "DB_queryName d sql = name_of d (normaliseSQL sql)"

definition isRealError :: "goerr option \<Rightarrow> bool" where
  "isRealError err = (case err of None \<Rightarrow> False | Some e \<Rightarrow> \<not> errors_is e ErrNoRows)"

definition errorKind :: "goerr option \<Rightarrow> string" where
  "errorKind err =
     (case err of
        None \<Rightarrow> ''none''
      | Some e \<Rightarrow>
          if errors_is e Canceled then ''canceled''
          else if errors_is e DeadlineExceeded then ''timeout''
          else case errors_as_pg e of Some (code, sev) \<Rightarrow> code | None \<Rightarrow> ''other'')"

definition DB_TraceQueryStart :: "(string \<times> string) list \<Rightarrow> string \<Rightarrow> start_method" where
  "DB_TraceQueryStart d sql ctx w =
     (let (now, w1) = time_Now w
      in (WithValue ctx QueryCtxKey (QueryCtxVal (DB_queryName d sql) now), w1, []))"

definition DB_TraceQueryEnd :: "query_end \<Rightarrow> end_method" where
  "DB_TraceQueryEnd data ctx w =
     (case Value ctx QueryCtxKey of
        Some (QueryCtxVal name start) \<Rightarrow>
          (let st = (if isRealError (QErr data) then ''error'' else ''ok'');
               (now, w1) = time_Now w
           in (w1,
               [Metric (observeExemplar (ctx_span w ctx) db_queryDuration [name, st] (VSeconds (time_sub now start)))] @
               (if st = ''error''
                then [Metric (addExemplar (ctx_span w ctx) db_queryErrors [name, errorKind (QErr data)] 1)] else [])))
      | _ \<Rightarrow> (w, []))"

definition DB_TraceAcquireStart :: start_method where
  "DB_TraceAcquireStart ctx w =
     (let (now, w1) = time_Now w in (WithValue ctx AcquireCtxKey (TimeVal now), w1, []))"

definition DB_TraceAcquireEnd :: "goerr option \<Rightarrow> end_method" where
  "DB_TraceAcquireEnd err ctx w =
     (case Value ctx AcquireCtxKey of
        Some (TimeVal start) \<Rightarrow>
          (let (now, w1) = time_Now w
           in (w1,
               [Metric (observeExemplar (ctx_span w ctx) acquireWait [] (VSeconds (time_sub now start)))] @
               (if err \<noteq> None then [Metric (addExemplar (ctx_span w ctx) acquireErrors [] 1)] else [])))
      | _ \<Rightarrow> (w, []))"

definition DB_tracer :: "(string \<times> string) list \<Rightarrow> tracer" where
  "DB_tracer d =
     \<lparr>TraceQueryStart = DB_TraceQueryStart d, TraceQueryEnd = DB_TraceQueryEnd,
      Acquires = Some \<lparr>TraceAcquireStart = DB_TraceAcquireStart, TraceAcquireEnd = DB_TraceAcquireEnd\<rparr>\<rparr>"

subsection \<open>The query logger\<close>

record QueryLogger =
  SlowThreshold :: duration
  names :: "(string \<times> string) list"

definition NewQueryLogger :: "(string \<times> string) list \<Rightarrow> duration \<Rightarrow> QueryLogger" where
  "NewQueryLogger nms slow =
     \<lparr>SlowThreshold = (if slow \<le> 0 then 200 * Millisecond else slow),
      names = normalised_names logging_normalise nms\<rparr>"

definition QueryLogger_TraceQueryStart :: "QueryLogger \<Rightarrow> string \<Rightarrow> start_method" where
  "QueryLogger_TraceQueryStart q sql ctx w =
     (let name = name_of (names q) (logging_normalise sql);
          (now, w1) = time_Now w
      in (WithValue ctx QueryLogKey (QueryLogVal name now), w1, []))"

definition QueryLogger_TraceQueryEnd :: "(goerr \<Rightarrow> string) \<Rightarrow> QueryLogger \<Rightarrow> query_end \<Rightarrow> end_method" where
  "QueryLogger_TraceQueryEnd etext q data ctx w =
     (case Value ctx QueryLogKey of
        Some (QueryLogVal name start) \<Rightarrow>
          (let (now, w1) = time_Now w;
               elapsed = time_sub now start;
               attrs = [(''query'', AStr name), (''duration_ms'', AMillis elapsed)];
               failed = (case QErr data of None \<Rightarrow> False | Some e \<Rightarrow> \<not> errors_is e ErrNoRows)
           in (w1,
               if failed then
                 [Log LevelError (active ctx) ''db query failed'' (attrs @ [(''error'', AStr (etext (the (QErr data))))])]
               else if SlowThreshold q \<le> elapsed then
                 [Log LevelWarn (active ctx) ''slow db query'' (attrs @ [(''threshold'', ADur (SlowThreshold q))])]
               else
                 [Log LevelDebug (active ctx) ''db query'' (attrs @ [(''tag'', AStr (Tag data))])]))
      | _ \<Rightarrow> (w, []))"

definition QueryLogger_tracer :: "(goerr \<Rightarrow> string) \<Rightarrow> QueryLogger \<Rightarrow> tracer" where
  "QueryLogger_tracer etext q =
     \<lparr>TraceQueryStart = QueryLogger_TraceQueryStart q, TraceQueryEnd = QueryLogger_TraceQueryEnd etext q,
      Acquires = None\<rparr>"

subsection \<open>The span of a query\<close>

text \<open>\<open>NewQueryTracer\<close> keeps the normalised names beside the SDK's tracer.\<close>

definition NewQueryTracer :: "(string \<times> string) list \<Rightarrow> (string \<times> string) list" where
  "NewQueryTracer nms = normalised_names tracing_normalise nms"

definition QueryTracer_TraceQueryStart :: "(string \<times> string) list \<Rightarrow> string \<Rightarrow> start_method" where
  "QueryTracer_TraceQueryStart q sql ctx w =
     (let name = name_of q (tracing_normalise sql);
          (ctx1, span, w1, es) = tracer_Start ctx (''db.query '' @ name)
            [(''db.system.name'', AStr ''postgresql''), (''db.operation.name'', AStr name), (''db.query.name'', AStr name)] w
      in (WithValue ctx1 QuerySpanKey (SpanVal span), w1, es))"

definition QueryTracer_TraceQueryEnd :: "query_end \<Rightarrow> end_method" where
  "QueryTracer_TraceQueryEnd data ctx w =
     (case Value ctx QuerySpanKey of
        Some (SpanVal span) \<Rightarrow>
          (w,
           (if Tag data \<noteq> [] then [SpanAttrs span [(''db.rows_affected'', AInt (RowsAffected data))]] else []) @
           (case QErr data of
              None \<Rightarrow> []
            | Some e \<Rightarrow>
                if errors_is e ErrNoRows then []
                else [SpanError span e, SpanStatus span CodeError ''query failed''] @
                     (case errors_as_pg e of
                        Some (code, sev) \<Rightarrow>
                          [SpanAttrs span [(''db.response.status_code'', AStr code), (''db.postgres.severity'', AStr sev)]]
                      | None \<Rightarrow> [])) @
           [SpanEnd span])
      | _ \<Rightarrow> (w, []))"

definition QueryTracer_TraceAcquireStart :: start_method where
  "QueryTracer_TraceAcquireStart ctx w =
     (let (ctx1, span, w1, es) = tracer_Start ctx ''db.acquire'' [(''db.system.name'', AStr ''postgresql'')] w
      in (WithValue ctx1 AcquireSpanKey (SpanVal span), w1, es))"

definition QueryTracer_TraceAcquireEnd :: "goerr option \<Rightarrow> end_method" where
  "QueryTracer_TraceAcquireEnd err ctx w =
     (case Value ctx AcquireSpanKey of
        Some (SpanVal span) \<Rightarrow>
          (w,
           (case err of None \<Rightarrow> [] | Some e \<Rightarrow> [SpanError span e, SpanStatus span CodeError ''acquire failed'']) @
           [SpanEnd span])
      | _ \<Rightarrow> (w, []))"

definition QueryTracer_tracer :: "(string \<times> string) list \<Rightarrow> tracer" where
  "QueryTracer_tracer q =
     \<lparr>TraceQueryStart = QueryTracer_TraceQueryStart q, TraceQueryEnd = QueryTracer_TraceQueryEnd,
      Acquires = Some \<lparr>TraceAcquireStart = QueryTracer_TraceAcquireStart, TraceAcquireEnd = QueryTracer_TraceAcquireEnd\<rparr>\<rparr>"

subsection \<open>The fan-out\<close>

fun MultiTracer_TraceQueryStart :: "tracer list \<Rightarrow> string \<Rightarrow> start_method" where
  "MultiTracer_TraceQueryStart [] sql ctx w = (ctx, w, [])"
| "MultiTracer_TraceQueryStart (t # ts) sql ctx w =
     (let (ctx1, w1, es1) = TraceQueryStart t sql ctx w;
          (ctx2, w2, es2) = MultiTracer_TraceQueryStart ts sql ctx1 w1
      in (ctx2, w2, es1 @ es2))"

fun MultiTracer_TraceQueryEnd :: "tracer list \<Rightarrow> query_end \<Rightarrow> end_method" where
  "MultiTracer_TraceQueryEnd [] data ctx w = (w, [])"
| "MultiTracer_TraceQueryEnd (t # ts) data ctx w =
     (let (w1, es1) = TraceQueryEnd t data ctx w;
          (w2, es2) = MultiTracer_TraceQueryEnd ts data ctx w1
      in (w2, es1 @ es2))"

fun MultiTracer_TraceAcquireStart :: "tracer list \<Rightarrow> start_method" where
  "MultiTracer_TraceAcquireStart [] ctx w = (ctx, w, [])"
| "MultiTracer_TraceAcquireStart (t # ts) ctx w =
     (let (ctx1, w1, es1) =
            (case Acquires t of Some a \<Rightarrow> TraceAcquireStart a ctx w | None \<Rightarrow> (ctx, w, []));
          (ctx2, w2, es2) = MultiTracer_TraceAcquireStart ts ctx1 w1
      in (ctx2, w2, es1 @ es2))"

fun MultiTracer_TraceAcquireEnd :: "tracer list \<Rightarrow> goerr option \<Rightarrow> end_method" where
  "MultiTracer_TraceAcquireEnd [] err ctx w = (w, [])"
| "MultiTracer_TraceAcquireEnd (t # ts) err ctx w =
     (let (w1, es1) = (case Acquires t of Some a \<Rightarrow> TraceAcquireEnd a err ctx w | None \<Rightarrow> (w, []));
          (w2, es2) = MultiTracer_TraceAcquireEnd ts err ctx w1
      in (w2, es1 @ es2))"

text \<open>
  The tracers that \<open>run\<close> installs. \<open>QueryNames()\<close> is called once for each, so each
  ranges over its own map.
\<close>

definition installed_tracers :: "(goerr \<Rightarrow> string) \<Rightarrow> duration \<Rightarrow> (string \<times> string) list \<Rightarrow>
    (string \<times> string) list \<Rightarrow> (string \<times> string) list \<Rightarrow> tracer list" where
  "installed_tracers etext slow n1 n2 n3 =
     [DB_tracer (fst (NewDB n1)), QueryLogger_tracer etext (NewQueryLogger n2 slow), QueryTracer_tracer (NewQueryTracer n3)]"

subsection \<open>Reading the names\<close>

text \<open>
  SQL whose only white space is blank, tab, line feed and carriage return: none of the other
  Unicode spaces, which \<open>strings.Fields\<close> splits at and the two byte loops keep.
\<close>

definition blanks :: string where
  "blanks = [CHR '' '', CHR 0x09, CHR 0x0A, CHR 0x0D]"

definition other_spaces :: "string list" where
  "other_spaces = filter (\<lambda>r. r \<notin> set (map (\<lambda>c. [c]) blanks)) space_runes"

definition plain_sql :: "string \<Rightarrow> bool" where
  "plain_sql sql = list_all (\<lambda>r. \<not> contains sql r) other_spaces"

definition sql_word :: "string \<Rightarrow> bool" where
  "sql_word f \<longleftrightarrow> f \<noteq> [] \<and> CHR '' '' \<notin> set f"

definition plain_byte :: "char \<Rightarrow> bool" where
  "plain_byte c \<longleftrightarrow> c \<noteq> CHR 0x0B \<and> c \<noteq> CHR 0x0C \<and> c \<noteq> CHR 0xC2 \<and> c \<noteq> CHR 0xE1 \<and> c \<noteq> CHR 0xE2 \<and> c \<noteq> CHR 0xE3"

text \<open>The number of bytes that are not blank, which normalisation keeps.\<close>

definition ink :: "string \<Rightarrow> nat" where
  "ink s = length (filter (\<lambda>c. c \<notin> set blanks) s)"

text \<open>The name the three pillars should give a statement.\<close>

definition query_label :: "string \<Rightarrow> string" where
  "query_label sql = name_of (map (\<lambda>(q, n). (normaliseSQL q, n)) QueryNames) (normaliseSQL sql)"

text \<open>\<open>SELECT pg_sleep($1)\<close> with a form feed for the blank, which PostgreSQL also reads as white space.\<close>

definition ff_sleep :: string where
  "ff_sleep = ''SELECT'' @ [CHR 0x0C] @ ''pg_sleep($1)''"

subsection \<open>Observing the effects\<close>

text \<open>Starting several tracers in turn, each on the context of the one before.\<close>

fun chain_starts :: "start_method list \<Rightarrow> start_method" where
  "chain_starts [] ctx w = (ctx, w, [])"
| "chain_starts (s # ss) ctx w =
     (let (ctx1, w1, es1) = s ctx w; (ctx2, w2, es2) = chain_starts ss ctx1 w1 in (ctx2, w2, es1 @ es2))"

definition query_failed :: "query_end \<Rightarrow> bool" where
  "query_failed data = (case QErr data of None \<Rightarrow> False | Some e \<Rightarrow> \<not> errors_is e ErrNoRows)"

definition log_lines :: "effect list \<Rightarrow> (level \<times> nat option \<times> attr list) list" where
  "log_lines es = concat (map (\<lambda>e. case e of Log l c m as \<Rightarrow> [(l, c, as)] | _ \<Rightarrow> []) es)"

definition samples :: "mdesc \<Rightarrow> effect list \<Rightarrow> string list list" where
  "samples d es = map call_labels (filter (\<lambda>c. call_desc c = d) (metric_calls es))"

text \<open>A query that fails with a serialisation error, traced from a fresh context.\<close>

definition sample_end :: query_end where
  "sample_end = \<lparr>Tag = [], RowsAffected = 0, QErr = Some (Wrap ''store: mark order'' (PgError ''40001'' ''ERROR''))\<rparr>"

definition sample_world :: world where
  "sample_world = \<lparr>clock = (\<lambda>n. int n * Millisecond), reads = 0, next_span = 1, span_ctx = (\<lambda>_. None)\<rparr>"

definition fresh_ctx :: qctx where
  "fresh_ctx = \<lparr>active = None, vals = []\<rparr>"

section \<open>Lemmas\<close>

subsection \<open>Normalisation\<close>

lemma blanks_set [simp]: "set blanks = {CHR '' '', CHR 0x09, CHR 0x0A, CHR 0x0D}"
  by (simp add: blanks_def)

lemma contains_Cons: "\<not> contains (c # s) r \<Longrightarrow> \<not> has_prefix r (c # s) \<and> \<not> contains s r"
  by simp

lemma plain_Cons: "plain_sql (c # s) \<Longrightarrow> plain_sql s"
  by (auto simp: plain_sql_def list_all_iff)

lemma blanks_spaces: "list_all (\<lambda>c. [c] \<in> set space_runes) blanks"
  by (simp add: blanks_def space_runes_chars)

lemma other_spaces_lead: "list_all (\<lambda>r. \<not> plain_byte (hd r) \<and> r \<noteq> []) other_spaces"
  by (simp add: other_spaces_def space_runes_chars blanks_def plain_byte_def)

lemma space_runes_split: "set space_runes = (\<lambda>c. [c]) ` set blanks \<union> set other_spaces"
  using blanks_spaces unfolding other_spaces_def list_all_iff by auto

lemma find_prefix:
  assumes "\<And>r. r \<in> set rs \<Longrightarrow> P r \<Longrightarrow> length r = n" "\<exists>r \<in> set rs. P r"
  shows "\<exists>r. find P rs = Some r \<and> length r = n"
  using assms by (induction rs) auto

lemma lead_space_by_byte:
  assumes "\<And>r. r \<in> set other_spaces \<Longrightarrow> \<not> has_prefix r (c # s)"
  shows "lead_space space_runes (c # s) = (if c \<in> set blanks then 1 else 0)"
proof -
  have iff: "has_prefix r (c # s) \<longleftrightarrow> r = [c] \<and> c \<in> set blanks" if "r \<in> set space_runes" for r
    using that assms by (auto simp: space_runes_split)
  show ?thesis
  proof (cases "c \<in> set blanks")
    case True
    then have "\<exists>r. find (\<lambda>r. has_prefix r (c # s)) space_runes = Some r \<and> length r = 1"
      using iff by (intro find_prefix) (auto simp: space_runes_split)
    then show ?thesis using True by (auto simp: lead_space_def)
  next
    case False
    then have "find (\<lambda>r. has_prefix r (c # s)) space_runes = None"
      using iff by (auto simp: find_None_iff)
    then show ?thesis using False by (simp add: lead_space_def)
  qed
qed

lemma lead_space_plain:
  "plain_sql (c # s) \<Longrightarrow> lead_space space_runes (c # s) = (if c \<in> set blanks then 1 else 0)"
  by (rule lead_space_by_byte) (auto simp: plain_sql_def list_all_iff)

lemma lead_space_byte: "plain_byte c \<Longrightarrow> lead_space space_runes (c # s) = (if c \<in> set blanks then 1 else 0)"
proof (rule lead_space_by_byte)
  fix r assume "plain_byte c" "r \<in> set other_spaces"
  then show "\<not> has_prefix r (c # s)" using other_spaces_lead by (cases r) (auto simp: list_all_iff)
qed

lemma join_snoc: "join sep (fs @ [x]) = concat (map (\<lambda>f. f @ sep) fs) @ x"
  by (induction sep fs rule: join.induct) auto

lemma trim_id: "b = [] \<or> last b \<noteq> CHR '' '' \<Longrightarrow> trimTrailingSpace b = b"
  by (subst trimTrailingSpace.simps) auto

lemma trim_snoc: "trimTrailingSpace (b @ '' '') = trimTrailingSpace b"
  by (subst trimTrailingSpace.simps) simp

lemma sql_word_last: "sql_word f \<Longrightarrow> last (a @ f) \<noteq> CHR '' ''"
  by (auto simp: sql_word_def) (metis last_in_set)

lemma trim_joined:
  assumes "\<And>f. f \<in> set fs \<Longrightarrow> sql_word f" "cur = [] \<or> sql_word cur"
  shows "trimTrailingSpace (concat (map (\<lambda>f. f @ '' '') fs) @ cur) = join '' '' (fs @ flush cur)"
proof (cases "cur = []")
  case False
  then show ?thesis using assms by (auto simp: flush_def join_snoc intro!: trim_id dest: sql_word_last)
next
  case True
  show ?thesis
  proof (cases fs rule: rev_exhaust)
    case Nil
    then show ?thesis using True by (simp add: flush_def trim_id)
  next
    case (snoc gs g)
    then have "trimTrailingSpace (concat (map (\<lambda>f. f @ '' '') gs) @ g) = concat (map (\<lambda>f. f @ '' '') gs) @ g"
      using assms(1) [of g] by (intro trim_id) (simp add: sql_word_last)
    then show ?thesis using True snoc trim_snoc [of "concat (map (\<lambda>f. f @ '' '') gs) @ g"]
      by (simp add: flush_def join_snoc)
  qed
qed

lemma normalise_loop_join:
  assumes "plain_sql s" "\<And>f. f \<in> set fs \<Longrightarrow> sql_word f" "cur = [] \<or> sql_word cur" "sp = (cur = [])"
  shows "trimTrailingSpace (normalise_loop (concat (map (\<lambda>f. f @ '' '') fs) @ cur) sp s) =
    join '' '' (fs @ fields_from 0 cur s)"
  using assms
proof (induction s arbitrary: fs cur sp)
  case Nil
  then show ?case by (simp add: trim_joined)
next
  case (Cons c s)
  note lead = lead_space_plain [OF Cons.prems(1)]
  have plain: "plain_sql s" using Cons.prems(1) by (rule plain_Cons)
  show ?case
  proof (cases "c \<in> set blanks")
    case False
    then have "sql_word (cur @ [c])" using Cons.prems(3) by (auto simp: sql_word_def)
    then show ?thesis
      using Cons.IH [OF plain Cons.prems(2), of fs "cur @ [c]" False] False lead by simp
  next
    case True
    show ?thesis
    proof (cases "cur = []")
      case empty: True
      then show ?thesis using Cons.IH [OF plain Cons.prems(2), of fs "[]" True] Cons.prems(4) True lead
        by (auto simp: flush_def)
    next
      case False
      then have "sql_word cur" using Cons.prems(3) by simp
      then show ?thesis
        using Cons.IH [OF plain, of "fs @ [cur]" "[]" True] Cons.prems(2,4) False True lead
        by (auto simp: flush_def)
    qed
  qed
qed

lemma normalise_agree:
  "plain_sql sql \<Longrightarrow> logging_normalise sql = normaliseSQL sql"
  "plain_sql sql \<Longrightarrow> tracing_normalise sql = normaliseSQL sql"
  using normalise_loop_join [of sql "[]" "[]" True]
  by (simp_all add: logging_normalise_def tracing_normalise_def normaliseSQL_def Prelude.fields_def)

subsection \<open>The names\<close>

lemma map_of_normalised:
  assumes "distinct (map (f \<circ> fst) nms)"
  shows "map_of (normalised_names f nms) = map_of (map (\<lambda>(q, n). (f q, n)) nms)"
proof -
  have "map_of (fold (\<lambda>(sql, name) m. AList.update (f sql) name m) nms m) =
      map_of m ++ map_of (map (\<lambda>(q, n). (f q, n)) nms)" for m
    using assms
  proof (induction nms arbitrary: m)
    case (Cons a nms)
    obtain q n where a: "a = (q, n)" by force
    have "f q \<notin> dom (map_of (map (\<lambda>(q, n). (f q, n)) nms))"
      using Cons.prems a by (auto simp: dom_map_of_conv_image_fst image_iff split: prod.splits)
    then show ?case using Cons a
      by (auto simp: update_conv' map_add_def fun_eq_iff split: option.splits)
  qed simp
  from this [of "[]"] show ?thesis by (simp add: normalised_names_def)
qed

lemma map_of_perm:
  assumes "mset xs = mset ys" "distinct (map fst ys)"
  shows "map_of xs = map_of ys"
proof -
  have "mset (map fst xs) = mset (map fst ys)" using assms(1) by (simp only: mset_map)
  then have "distinct (map fst xs)" using assms(2) mset_eq_imp_distinct_iff by blast
  then show ?thesis using assms by (intro map_of_inject_set [THEN iffD2]) (auto dest: mset_eq_setD)
qed

lemma plain_bytes: "list_all plain_byte s \<Longrightarrow> plain_sql s"
proof -
  assume s: "list_all plain_byte s"
  show "plain_sql s" using s other_spaces_lead
    by (fastforce simp: plain_sql_def list_all_iff contains_iff neq_Nil_conv)
qed

lemma ink_loop:
  "filter (\<lambda>c. c \<notin> set blanks) (normalise_loop out sp s) =
   filter (\<lambda>c. c \<notin> set blanks) out @ filter (\<lambda>c. c \<notin> set blanks) s"
  by (induction out sp s rule: normalise_loop.induct) auto

lemma ink_trim:
  "filter (\<lambda>c. c \<notin> set blanks) (trimTrailingSpace b) = filter (\<lambda>c. c \<notin> set blanks) b"
proof (induction b rule: trimTrailingSpace.induct)
  case (1 b)
  show ?case
  proof (cases "0 < length b \<and> last b = CHR '' ''")
    case True
    then have "b = butlast b @ '' ''" by (metis append_butlast_last_id length_greater_0_conv)
    then have "filter (\<lambda>c. c \<notin> set blanks) b = filter (\<lambda>c. c \<notin> set blanks) (butlast b)"
      by (metis (no_types, lifting) append.right_neutral blanks_set filter.simps filter_append insertCI)
    then show ?thesis using 1 True by (subst trimTrailingSpace.simps) simp
  next
    case False
    then show ?thesis by (auto simp: trim_id)
  qed
qed

lemma ink_normalise: "plain_sql s \<Longrightarrow> ink (normaliseSQL s) = ink s"
  using ink_trim [of "normalise_loop [] True s"]
  by (simp only: normalise_agree(1) [symmetric] logging_normalise_def ink_def ink_loop) simp

lemma blank_text [simp]:
  "list_all P (sql_text ls) =
     list_all (\<lambda>(tabs, l). P (CHR 0x0A) \<and> (tabs = 0 \<or> P (CHR 0x09)) \<and> list_all P l) ls"
  by (auto simp: sql_text_def list_all_iff)

lemma ink_text [simp]: "ink (sql_text ls) = sum_list (map (\<lambda>(tabs, l). ink l) ls)"
  by (induction ls) (auto simp: sql_text_def ink_def)

lemma ink_simps [simp]:
  "ink [] = 0"
  "ink (c # s) = (if c \<in> set blanks then 0 else 1) + ink s"
  "ink (a @ b) = ink a + ink b"
  by (simp_all add: ink_def)

lemmas sql_constants =
  qInsertOrder_def qGetOrderByID_def qListOrders_def qCountOrdersByStatus_def qClaimPending_def
  qMarkOrderStatus_def qOldestPendingAge_def qSleep_def quoted_def

lemma ink_constants:
  "ink qInsertOrder = 117" "ink qGetOrderByID = 103" "ink qListOrders = 161" "ink qCountOrdersByStatus = 44"
  "ink qClaimPending = 224" "ink qMarkOrderStatus = 79" "ink qOldestPendingAge = 90" "ink qSleep = 18"
  by (simp_all add: sql_constants)

lemma constants_plain:
  "plain_sql qInsertOrder" "plain_sql qGetOrderByID" "plain_sql qListOrders" "plain_sql qCountOrdersByStatus"
  "plain_sql qClaimPending" "plain_sql qMarkOrderStatus" "plain_sql qOldestPendingAge" "plain_sql qSleep"
  by (rule plain_bytes, simp add: sql_constants plain_byte_def)+

lemma QueryNames_plain: "x \<in> set QueryNames \<Longrightarrow> plain_sql (fst x)"
  by (auto simp: QueryNames_def constants_plain)

lemma QueryNames_distinct: "distinct (map (normaliseSQL \<circ> fst) QueryNames)"
proof -
  have "map ink (map (normaliseSQL \<circ> fst) QueryNames) = map (ink \<circ> fst) QueryNames"
    using ink_normalise QueryNames_plain by simp
  moreover have "distinct (map (ink \<circ> fst) QueryNames)" by (simp add: QueryNames_def ink_constants)
  ultimately show ?thesis by (metis distinct_map)
qed

subsection \<open>Tracers that keep their value under a private key\<close>

locale keyed_start =
  fixes start :: start_method
    and key :: ctx_key
    and entry :: "world \<Rightarrow> ctx_val"
  assumes own: "Value (fst (start ctx w)) key = Some (entry w)"
    and frame: "k \<noteq> key \<Longrightarrow> Value (fst (start ctx w)) k = Value ctx k"
begin

lemma survives:
  assumes "\<And>c v. Value (fst (later c v)) key = Value c key"
  shows "Value (fst (later (fst (start ctx w)) w')) key = Some (entry w)"
  using assms own by simp

end

lemma Value_WithValue [simp]: "Value (WithValue ctx k v) k' = (if k = k' then Some v else Value ctx k')"
  by (simp add: Value_def WithValue_def)

lemma active_WithValue [simp]: "active (WithValue ctx k v) = active ctx"
  by (simp add: WithValue_def)

lemma Value_active [simp]: "Value (ctx\<lparr>active := s\<rparr>) k = Value ctx k"
  by (simp add: Value_def)

lemmas tracer_starts =
  DB_TraceQueryStart_def DB_TraceAcquireStart_def QueryLogger_TraceQueryStart_def
  QueryTracer_TraceQueryStart_def QueryTracer_TraceAcquireStart_def time_Now_def tracer_Start_def Let_def

interpretation db_query: keyed_start "DB_TraceQueryStart d sql" QueryCtxKey
  "\<lambda>w. QueryCtxVal (DB_queryName d sql) (clock w (reads w))" for d sql
  by unfold_locales (auto simp: tracer_starts)

interpretation log_query: keyed_start "QueryLogger_TraceQueryStart q sql" QueryLogKey
  "\<lambda>w. QueryLogVal (name_of (names q) (logging_normalise sql)) (clock w (reads w))" for q sql
  by unfold_locales (auto simp: tracer_starts)

interpretation span_query: keyed_start "QueryTracer_TraceQueryStart q sql" QuerySpanKey
  "\<lambda>w. SpanVal (next_span w)" for q sql
  by unfold_locales (auto simp: tracer_starts)

interpretation db_acquire: keyed_start DB_TraceAcquireStart AcquireCtxKey "\<lambda>w. TimeVal (clock w (reads w))"
  by unfold_locales (auto simp: tracer_starts)

interpretation span_acquire: keyed_start QueryTracer_TraceAcquireStart AcquireSpanKey "\<lambda>w. SpanVal (next_span w)"
  by unfold_locales (auto simp: tracer_starts)

lemma chain_frame:
  assumes "list_all2 (\<lambda>s (k, e). keyed_start s k e) ss kes" "k \<notin> fst ` set kes"
  shows "Value (fst (chain_starts ss ctx w)) k = Value ctx k"
  using assms
proof (induction ss kes arbitrary: ctx w rule: list_all2_induct)
  case (Cons s ss ke kes)
  then have "keyed_start s (fst ke) (snd ke)" by (simp add: case_prod_beta)
  then have "Value (fst (s ctx w)) k = Value ctx k" for ctx w
    using Cons.prems keyed_start.frame by fastforce
  then show ?case using Cons by (auto split: prod.splits) (metis fst_conv)
qed simp

lemma chain_finds:
  assumes "list_all2 (\<lambda>s (k, e). keyed_start s k e) ss kes" "distinct (map fst kes)" "(k, e) \<in> set kes"
  shows "\<exists>w'. Value (fst (chain_starts ss ctx w)) k = Some (e w')"
  using assms
proof (induction ss kes arbitrary: ctx w rule: list_all2_induct)
  case (Cons s ss ke kes)
  obtain ctx1 w1 es1 where s: "s ctx w = (ctx1, w1, es1)" by (metis prod_cases3)
  then have rest: "fst (chain_starts (s # ss) ctx w) = fst (chain_starts ss ctx1 w1)"
    by (simp split: prod.splits)
  show ?case
  proof (cases "ke = (k, e)")
    case True
    then have "keyed_start s k e" using Cons.hyps by simp
    moreover have "k \<notin> fst ` set kes" using Cons.prems True by (auto simp: image_iff)
    ultimately have "Value (fst (chain_starts ss (fst (s ctx w)) w1)) k = Some (e w)"
      using keyed_start.survives [of s k e "chain_starts ss"] chain_frame [OF Cons.hyps(2)] by simp
    then show ?thesis using rest s by auto
  next
    case False
    then show ?thesis using Cons.IH [of ctx1 w1] Cons.prems rest by auto
  qed
qed simp

lemma MultiTracer_query_chain:
  "MultiTracer_TraceQueryStart ts sql ctx w = chain_starts (map (\<lambda>t. TraceQueryStart t sql) ts) ctx w"
  by (induction ts arbitrary: ctx w) (auto split: prod.splits)

lemma MultiTracer_acquire_chain:
  "MultiTracer_TraceAcquireStart ts ctx w =
     chain_starts (map TraceAcquireStart (List.map_filter Acquires ts)) ctx w"
  by (induction ts arbitrary: ctx w) (auto split: prod.splits option.splits)


subsection \<open>The names of the three pillars\<close>

lemma lookup_label:
  assumes "mset nms = mset QueryNames" "\<And>q. plain_sql q \<Longrightarrow> f q = normaliseSQL q" "plain_sql sql"
  shows "name_of (normalised_names f nms) (f sql) = query_label sql"
proof -
  have set: "set nms = set QueryNames" using assms(1) by (rule mset_eq_setD)
  have eq: "map (\<lambda>(q, n). (f q, n)) nms = map (\<lambda>(q, n). (normaliseSQL q, n)) nms"
    using assms(2) QueryNames_plain set by (auto simp: case_prod_beta)
  have "map (f \<circ> fst) nms = map (normaliseSQL \<circ> fst) nms" using eq by (auto simp: case_prod_beta)
  moreover have "mset (map (normaliseSQL \<circ> fst) nms) = mset (map (normaliseSQL \<circ> fst) QueryNames)"
    using assms(1) by (simp only: mset_map)
  ultimately have "distinct (map (f \<circ> fst) nms)"
    using QueryNames_distinct mset_eq_imp_distinct_iff by metis
  then have "map_of (normalised_names f nms) = map_of (map (\<lambda>(q, n). (normaliseSQL q, n)) nms)"
    by (simp add: map_of_normalised eq)
  also have "\<dots> = map_of (map (\<lambda>(q, n). (normaliseSQL q, n)) QueryNames)"
    using assms(1) QueryNames_distinct by (intro map_of_perm) (auto simp: case_prod_beta comp_def)
  finally show ?thesis using assms(2,3) by (simp add: name_of_def query_label_def)
qed

lemma query_label_constant:
  assumes "(q, n) \<in> set QueryNames" "normaliseSQL sql = normaliseSQL q"
  shows "query_label sql = n"
proof -
  have "map_of (map (\<lambda>(q, n). (normaliseSQL q, n)) QueryNames) (normaliseSQL q) = Some n"
    using assms(1) QueryNames_distinct by (intro map_of_is_SomeI) (force simp: comp_def case_prod_beta)+
  then show ?thesis using assms(2) by (simp add: query_label_def name_of_def)
qed

lemma query_label_closed: "query_label sql \<in> set (''other'' # map snd QueryNames)"
proof (cases "map_of (map (\<lambda>(q, n). (normaliseSQL q, n)) QueryNames) (normaliseSQL sql)")
  case (Some n)
  then have "n \<in> snd ` set QueryNames" by (force dest!: map_of_SomeD)
  then show ?thesis using Some by (simp add: query_label_def name_of_def)
qed (simp add: query_label_def name_of_def)


subsection \<open>What the installed tracers report\<close>

lemma installed_names:
  assumes "mset n1 = mset QueryNames" "mset n2 = mset QueryNames" "mset n3 = mset QueryNames" "plain_sql sql"
  shows "DB_queryName (fst (NewDB n1)) sql = query_label sql"
    "name_of (names (NewQueryLogger n2 slow)) (logging_normalise sql) = query_label sql"
    "name_of (NewQueryTracer n3) (tracing_normalise sql) = query_label sql"
  using lookup_label [OF assms(1) refl assms(4)] lookup_label [OF assms(2) normalise_agree(1) assms(4)]
    lookup_label [OF assms(3) normalise_agree(2) assms(4)]
  by (simp_all add: DB_queryName_def NewDB_def NewQueryLogger_def NewQueryTracer_def Let_def)

lemma installed_query_values:
  assumes "MultiTracer_TraceQueryStart (installed_tracers etext slow n1 n2 n3) sql ctx w = (ctx1, w1, es1)"
  shows "\<exists>t. Value ctx1 QueryCtxKey = Some (QueryCtxVal (DB_queryName (fst (NewDB n1)) sql) t)"
    "\<exists>t. Value ctx1 QueryLogKey = Some (QueryLogVal (name_of (names (NewQueryLogger n2 slow)) (logging_normalise sql)) t)"
    "\<exists>s. Value ctx1 QuerySpanKey = Some (SpanVal s)"
proof -
  let ?kes = "[(QueryCtxKey, \<lambda>w::world. QueryCtxVal (DB_queryName (fst (NewDB n1)) sql) (clock w (reads w))),
    (QueryLogKey, \<lambda>w::world. QueryLogVal (name_of (names (NewQueryLogger n2 slow)) (logging_normalise sql)) (clock w (reads w))),
    (QuerySpanKey, \<lambda>w::world. SpanVal (next_span w))]"
  let ?ss = "map (\<lambda>t. TraceQueryStart t sql) (installed_tracers etext slow n1 n2 n3)"
  have keyed: "list_all2 (\<lambda>s (k, e). keyed_start s k e) ?ss ?kes"
    by (simp add: installed_tracers_def DB_tracer_def QueryLogger_tracer_def QueryTracer_tracer_def
        db_query.keyed_start_axioms log_query.keyed_start_axioms span_query.keyed_start_axioms)
  have "\<exists>w'. Value ctx1 k = Some (e w')" if "(k, e) \<in> set ?kes" for k e
    using chain_finds [OF keyed _ that, of ctx w] assms by (simp add: MultiTracer_query_chain)
  from this [OF list.set_intros(1)] this [OF list.set_intros(2), OF list.set_intros(1)]
    this [OF list.set_intros(2), OF list.set_intros(2), OF list.set_intros(1)]
  show "\<exists>t. Value ctx1 QueryCtxKey = Some (QueryCtxVal (DB_queryName (fst (NewDB n1)) sql) t)"
    "\<exists>t. Value ctx1 QueryLogKey = Some (QueryLogVal (name_of (names (NewQueryLogger n2 slow)) (logging_normalise sql)) t)"
    "\<exists>s. Value ctx1 QuerySpanKey = Some (SpanVal s)"
    by blast+
qed


lemma installed_query_span:
  assumes "MultiTracer_TraceQueryStart (installed_tracers etext slow n1 n2 n3) sql ctx w = (ctx1, w1, es1)"
  shows "es1 = [SpanStart (next_span w) (active ctx) (''db.query '' @ name_of (NewQueryTracer n3) (tracing_normalise sql))
      [(''db.system.name'', AStr ''postgresql''),
       (''db.operation.name'', AStr (name_of (NewQueryTracer n3) (tracing_normalise sql))),
       (''db.query.name'', AStr (name_of (NewQueryTracer n3) (tracing_normalise sql)))]]"
    "active ctx1 = Some (next_span w)" "Value ctx1 QuerySpanKey = Some (SpanVal (next_span w))"
  using assms
  by (auto simp: installed_tracers_def DB_tracer_def QueryLogger_tracer_def QueryTracer_tracer_def tracer_starts)

lemma views_append [simp]:
  "samples d (es @ fs) = samples d es @ samples d fs"
  "log_lines (es @ fs) = log_lines es @ log_lines fs"
  by (simp_all add: samples_def log_lines_def)

lemma samples_none [simp]: "metric_calls es = [] \<Longrightarrow> samples d es = []"
  by (simp add: samples_def)

lemmas effect_views = samples_def log_lines_def query_failed_def isRealError_def

lemma DB_end:
  assumes "Value ctx QueryCtxKey = Some (QueryCtxVal name t)" "DB_TraceQueryEnd data ctx w = (w', es)"
  shows "samples db_queryDuration es = [[name, if query_failed data then ''error'' else ''ok'']]"
    "samples db_queryErrors es = (if query_failed data then [[name, errorKind (QErr data)]] else [])"
    "log_lines es = []" "\<forall>e \<in> set es. \<exists>c. e = Metric c"
  using assms
  by (auto simp: DB_TraceQueryEnd_def time_Now_def effect_views db_queryDuration_def db_queryErrors_def Let_def
      split: option.splits)

lemma QueryLogger_end:
  assumes "Value ctx QueryLogKey = Some (QueryLogVal name t)" "QueryLogger_TraceQueryEnd etext q data ctx w = (w', es)"
  shows "\<exists>l as. log_lines es = [(l, active ctx, (''query'', AStr name) # as)] \<and>
      l = (if query_failed data then LevelError
           else if SlowThreshold q \<le> time_sub (clock w (reads w)) t then LevelWarn else LevelDebug)"
    "metric_calls es = []" "\<forall>e \<in> set es. \<exists>l c m as. e = Log l c m as"
  using assms
  by (auto simp: QueryLogger_TraceQueryEnd_def time_Now_def effect_views Let_def split: option.splits if_splits)

lemma QueryTracer_end:
  assumes "Value ctx QuerySpanKey = Some (SpanVal sp)" "QueryTracer_TraceQueryEnd data ctx w = (w', es)"
  shows "SpanStatus sp CodeError ''query failed'' \<in> set es \<longleftrightarrow> query_failed data"
    "\<exists>xs. es = xs @ [SpanEnd sp] \<and> (\<forall>s. SpanEnd s \<notin> set xs)"
    "log_lines es = []" "metric_calls es = []"
  using assms
  by (auto simp: QueryTracer_TraceQueryEnd_def effect_views split: option.splits if_splits)

text \<open>
  (C28) The three pillars agree on every query. Whatever the map iteration orders, the context and
  the clock, a statement whose only white space is blank, tab, line feed and carriage return,
  run under the tracers that the service installs, produces one span, one latency sample and one log
  line; all three call the query by the same name, from the closed set of \<open>QueryNames\<close> and
  \<open>other\<close>, and they agree on whether it failed: the sample's status, the error counter (of
  the same name, by kind), the level of the line and the status of the span. The span ends, last.
\<close>

theorem query_pillars_agree:
  assumes "mset n1 = mset QueryNames" "mset n2 = mset QueryNames" "mset n3 = mset QueryNames"
    and "plain_sql sql"
    and "MultiTracer_TraceQueryStart (installed_tracers etext slow n1 n2 n3) sql ctx w = (ctx1, w1, es1)"
    and "MultiTracer_TraceQueryEnd (installed_tracers etext slow n1 n2 n3) data ctx1 w2 = (w3, es2)"
  shows "\<exists>name span l as rest.
      name \<in> set (''other'' # map snd QueryNames) \<and>
      (\<forall>q n. (q, n) \<in> set QueryNames \<and> normaliseSQL sql = normaliseSQL q \<longrightarrow> name = n) \<and>
      es1 = [SpanStart span (active ctx) (''db.query '' @ name)
               [(''db.system.name'', AStr ''postgresql''), (''db.operation.name'', AStr name),
                (''db.query.name'', AStr name)]] \<and>
      samples db_queryDuration es2 = [[name, if query_failed data then ''error'' else ''ok'']] \<and>
      samples db_queryErrors es2 = (if query_failed data then [[name, errorKind (QErr data)]] else []) \<and>
      log_lines es2 = [(l, Some span, (''query'', AStr name) # as)] \<and>
      (l = LevelError \<longleftrightarrow> query_failed data) \<and>
      (SpanStatus span CodeError ''query failed'' \<in> set es2 \<longleftrightarrow> query_failed data) \<and>
      es2 = rest @ [SpanEnd span] \<and> (\<forall>s. SpanEnd s \<notin> set rest)"
proof -
  note names = installed_names [OF assms(1-4)]
  note span = installed_query_span [OF assms(5), unfolded names]
  obtain t u where vals: "Value ctx1 QueryCtxKey = Some (QueryCtxVal (query_label sql) t)"
      "Value ctx1 QueryLogKey = Some (QueryLogVal (query_label sql) u)"
    using installed_query_values [OF assms(5)] names by metis
  obtain v1 v2 d l s where parts: "DB_TraceQueryEnd data ctx1 w2 = (v1, d)"
      "QueryLogger_TraceQueryEnd etext (NewQueryLogger n2 slow) data ctx1 v1 = (v2, l)"
      "QueryTracer_TraceQueryEnd data ctx1 v2 = (w3, s)" "es2 = d @ l @ s"
    using assms(6)
    by (auto simp: installed_tracers_def DB_tracer_def QueryLogger_tracer_def QueryTracer_tracer_def split: prod.splits)
  note de = DB_end [OF vals(1) parts(1)] and le = QueryLogger_end [OF vals(2) parts(2)]
    and se = QueryTracer_end [OF span(3) parts(3)]
  obtain lv as where line: "log_lines l = [(lv, Some (next_span w), (''query'', AStr (query_label sql)) # as)]"
      "lv = LevelError \<longleftrightarrow> query_failed data"
    using le(1) span(2) by (auto split: if_splits)
  obtain xs where xs: "s = xs @ [SpanEnd (next_span w)]" "\<forall>s. SpanEnd s \<notin> set xs" using se(2) by blast
  have dl: "SpanStatus sp c m \<notin> set d" "SpanStatus sp c m \<notin> set l" "SpanEnd sp \<notin> set d" "SpanEnd sp \<notin> set l"
    for sp c m using de(4) le(3) by blast+
  have views: "log_lines es2 = log_lines l" "\<And>k. samples k es2 = samples k d"
    using parts(4) de(3) se(3,4) le(2) by simp_all
  show ?thesis
    using span(1) de(1,2) line se(1) xs dl parts(4) views query_label_closed [of sql] query_label_constant [of _ _ sql]
    by (intro exI [of _ "query_label sql"] exI [of _ "next_span w"] exI [of _ lv] exI [of _ as] exI [of _ "d @ l @ xs"]) auto
qed

text \<open>The witness: a failing \<open>MarkOrder\<close> statement.\<close>

theorem query_pillars_agree_witness:
  "let ts = installed_tracers (\<lambda>_. ''boom'') 0 QueryNames QueryNames QueryNames;
       x = MultiTracer_TraceQueryStart ts qMarkOrderStatus fresh_ctx sample_world;
       es = snd (MultiTracer_TraceQueryEnd ts sample_end (fst x) (fst (snd x)))
   in samples db_queryDuration es = [[''mark_order_status'', ''error'']] \<and>
      samples db_queryErrors es = [[''mark_order_status'', ''40001'']]"
proof -
  let ?ts = "installed_tracers (\<lambda>_. ''boom'') 0 QueryNames QueryNames QueryNames"
  let ?x = "MultiTracer_TraceQueryStart ?ts qMarkOrderStatus fresh_ctx sample_world"
  let ?y = "MultiTracer_TraceQueryEnd ?ts sample_end (fst ?x) (fst (snd ?x))"
  have "(qMarkOrderStatus, ''mark_order_status'') \<in> set QueryNames" by (simp add: QueryNames_def)
  moreover have "query_failed sample_end" "errorKind (QErr sample_end) = ''40001''"
    by (simp_all add: query_failed_def sample_end_def errorKind_def)
  ultimately show ?thesis
    using query_pillars_agree [OF refl refl refl constants_plain(6),
        of "\<lambda>_. ''boom''" 0 fresh_ctx sample_world "fst ?x" "fst (snd ?x)" "snd (snd ?x)"
          sample_end "fst (snd ?x)" "fst ?y" "snd ?y"]
    by (auto simp: Let_def)
qed

subsection \<open>Connection acquisition\<close>

lemma installed_acquire_start:
  assumes "MultiTracer_TraceAcquireStart (installed_tracers etext slow n1 n2 n3) ctx w = (ctx1, w1, es1)"
  shows "es1 = [SpanStart (next_span w) (active ctx) ''db.acquire'' [(''db.system.name'', AStr ''postgresql'')]]"
    "Value ctx1 AcquireSpanKey = Some (SpanVal (next_span w))"
    "Value ctx1 AcquireCtxKey = Some (TimeVal (clock w (reads w)))"
  using assms
  by (auto simp: installed_tracers_def DB_tracer_def QueryLogger_tracer_def QueryTracer_tracer_def tracer_starts)

text \<open>
  Every connection acquisition is visible. Under the tracers that the service installs, an
  acquisition that starts and ends, with whatever error, reports one span \<open>db.acquire\<close> below the
  caller's span and one sample of the wait, which is the time between the two callbacks; the error
  counter grows by one and the span is marked failed exactly when the acquisition failed; the span
  ends. The query logger, which does not implement the acquire interface, is skipped and the other two
  still find the values they stored.
\<close>

theorem acquire_observed:
  assumes "MultiTracer_TraceAcquireStart (installed_tracers etext slow n1 n2 n3) ctx w = (ctx1, w1, es1)"
    and "MultiTracer_TraceAcquireEnd (installed_tracers etext slow n1 n2 n3) err ctx1 w2 = (w3, es2)"
  shows "\<exists>span ex rest.
      es1 = [SpanStart span (active ctx) ''db.acquire'' [(''db.system.name'', AStr ''postgresql'')]] \<and>
      es2 = Metric (Observe acquireWait [] (VSeconds (time_sub (clock w2 (reads w2)) (clock w (reads w)))) ex) #
            rest @ [SpanEnd span] \<and>
      ctr acquireErrors [] es2 = of_bool (err \<noteq> None) \<and>
      (SpanStatus span CodeError ''acquire failed'' \<in> set es2 \<longleftrightarrow> err \<noteq> None) \<and>
      log_lines es2 = [] \<and> samples acquireWait es2 = [[]]"
proof -
  note start = installed_acquire_start [OF assms(1)]
  obtain d s where parts: "DB_TraceAcquireEnd err ctx1 w2 = (w3, d)"
      "QueryTracer_TraceAcquireEnd err ctx1 w3 = (w3, s)" "es2 = d @ s"
    using assms(2) start(2)
    by (auto simp: installed_tracers_def DB_tracer_def QueryLogger_tracer_def QueryTracer_tracer_def
        QueryTracer_TraceAcquireEnd_def split: prod.splits)
  have d: "d = Metric (observeExemplar (ctx_span w2 ctx1) acquireWait []
        (VSeconds (time_sub (clock w2 (reads w2)) (clock w (reads w))))) #
      (if err \<noteq> None then [Metric (addExemplar (ctx_span w2 ctx1) acquireErrors [] 1)] else [])"
    using parts(1) start(3) by (simp add: DB_TraceAcquireEnd_def time_Now_def)
  have s: "s = (case err of None \<Rightarrow> [] | Some e \<Rightarrow>
      [SpanError (next_span w) e, SpanStatus (next_span w) CodeError ''acquire failed'']) @ [SpanEnd (next_span w)]"
    using parts(2) start(2) by (simp add: QueryTracer_TraceAcquireEnd_def)
  have obs: "\<exists>ex. observeExemplar sc acquireWait [] v = Observe acquireWait [] v ex" for sc v
    by (auto simp: observeExemplar_def split: option.splits)
  have ne: "acquireWait \<noteq> acquireErrors" by (simp add: acquireWait_def acquireErrors_def)
  obtain ex where "d = Metric (Observe acquireWait [] (VSeconds (time_sub (clock w2 (reads w2)) (clock w (reads w)))) ex) #
      (if err \<noteq> None then [Metric (addExemplar (ctx_span w2 ctx1) acquireErrors [] 1)] else [])"
    using d obs by metis
  then show ?thesis
    using parts(3) s start(1) ne
    by (intro exI [of _ "next_span w"] exI [of _ ex]) (cases err; simp add: effect_views delta_Metric)
qed

text \<open>The witness: an acquisition that times out.\<close>

theorem acquire_observed_witness:
  "let ts = installed_tracers (\<lambda>_. ''boom'') 0 QueryNames QueryNames QueryNames;
       x = MultiTracer_TraceAcquireStart ts fresh_ctx sample_world
   in ctr acquireErrors [] (snd (MultiTracer_TraceAcquireEnd ts (Some DeadlineExceeded) (fst x) (fst (snd x)))) = 1"
proof -
  let ?ts = "installed_tracers (\<lambda>_. ''boom'') 0 QueryNames QueryNames QueryNames"
  let ?x = "MultiTracer_TraceAcquireStart ?ts fresh_ctx sample_world"
  let ?y = "MultiTracer_TraceAcquireEnd ?ts (Some DeadlineExceeded) (fst ?x) (fst (snd ?x))"
  show ?thesis
    using acquire_observed [of "\<lambda>_. ''boom''" 0 QueryNames QueryNames QueryNames fresh_ctx sample_world
        "fst ?x" "fst (snd ?x)" "snd (snd ?x)" "Some DeadlineExceeded" "fst (snd ?x)" "fst ?y" "snd ?y"]
    by (auto simp: Let_def)
qed


lemma set_normalised_names: "fst ` set (normalised_names f nms) \<subseteq> (f \<circ> fst) ` set nms"
proof -
  have "fst ` set (fold (\<lambda>(sql, name) m. AList.update (f sql) name m) nms m) \<subseteq> (f \<circ> fst) ` set nms \<union> fst ` set m" for m
  proof (induction nms arbitrary: m)
    case (Cons a nms)
    show ?case using Cons [of "AList.update (f (fst a)) (snd a) m"]
      by (auto simp: case_prod_beta dom_update image_iff) 
  qed simp
  from this [of "[]"] show ?thesis by (simp add: normalised_names_def)
qed

subsection \<open>Normalisation that differs\<close>

lemma lead_space_ff: "lead_space space_runes (CHR 0x0C # s) = 1"
  by (simp add: lead_space_def space_runes_chars)

lemma ff_sleep_fields: "normaliseSQL ff_sleep = normaliseSQL qSleep"
  by (simp add: normaliseSQL_def Prelude.fields_def ff_sleep_def qSleep_def lead_space_byte lead_space_ff plain_byte_def)

lemma ff_sleep_loop: "logging_normalise ff_sleep = ff_sleep"
  by (simp add: logging_normalise_def ff_sleep_def trim_id)

lemma ff_sleep_unnamed:
  assumes "mset nms = mset QueryNames" "\<And>q. plain_sql q \<Longrightarrow> f q = normaliseSQL q"
  shows "name_of (normalised_names f nms) ff_sleep = ''other''"
proof -
  have no: "f (fst x) \<noteq> ff_sleep" if "x \<in> set nms" for x
  proof
    assume eq: "f (fst x) = ff_sleep"
    have x: "x \<in> set QueryNames" using that mset_eq_setD [OF assms(1)] by simp
    have "ink (fst x) = ink ff_sleep"
      using eq assms(2) [OF QueryNames_plain [OF x]] ink_normalise [OF QueryNames_plain [OF x]] by simp
    also have "\<dots> = 19" by (simp add: ff_sleep_def)
    finally have "ink (fst x) = 19" .
    have all: "list_all (\<lambda>x. ink (fst x) \<noteq> 19) QueryNames" by (simp add: QueryNames_def ink_constants)
    show False using bspec [OF all [unfolded list_all_iff] x] \<open>ink (fst x) = 19\<close> by (rule notE)
  qed
  have "ff_sleep \<notin> (f \<circ> fst) ` set nms"
  proof
    assume "ff_sleep \<in> (f \<circ> fst) ` set nms"
    then obtain x where x: "ff_sleep = (f \<circ> fst) x" "x \<in> set nms" by (rule imageE)
    show False using no [OF x(2)] x(1) by simp
  qed
  then have "ff_sleep \<notin> fst ` set (normalised_names f nms)"
    using set_normalised_names [of f nms] by (rule contra_subsetD [rotated])
  then have "map_of (normalised_names f nms) ff_sleep = None" by (simp only: map_of_eq_None_iff not_False_eq_True)
  then show ?thesis by (simp add: name_of_def)
qed

text \<open>
  (C29) The three normalisations are not the same function, although the comments of two of them ask
  for it: they agree on every statement whose white space is blank, tab, line feed and carriage
  return, but the metrics tracer also splits at the other Unicode spaces. The statement
  \<open>SELECT pg_sleep($1)\<close> written with a form feed is \<open>sleep\<close> to the metrics and
  \<open>other\<close> to the query log and the span.
\<close>

theorem normalisations_agree_on_plain_sql:
  "(\<forall>sql. plain_sql sql \<longrightarrow>
      logging_normalise sql = normaliseSQL sql \<and> tracing_normalise sql = normaliseSQL sql) \<and>
   (\<forall>n1 n2 n3 slow. mset n1 = mset QueryNames \<and> mset n2 = mset QueryNames \<and> mset n3 = mset QueryNames \<longrightarrow>
      DB_queryName (fst (NewDB n1)) ff_sleep = ''sleep'' \<and>
      name_of (names (NewQueryLogger n2 slow)) (logging_normalise ff_sleep) = ''other'' \<and>
      name_of (NewQueryTracer n3) (tracing_normalise ff_sleep) = ''other'')"
proof (intro conjI allI impI)
  fix n1 n2 n3 :: "(string \<times> string) list" and slow
  assume n: "mset n1 = mset QueryNames \<and> mset n2 = mset QueryNames \<and> mset n3 = mset QueryNames"
  have "query_label qSleep = ''sleep''"
    by (rule query_label_constant [of qSleep]) (simp_all add: QueryNames_def)
  then show "DB_queryName (fst (NewDB n1)) ff_sleep = ''sleep''"
    using installed_names(1) [of n1 n1 n1 qSleep] n constants_plain(8)
    by (simp add: DB_queryName_def ff_sleep_fields)
  show "name_of (names (NewQueryLogger n2 slow)) (logging_normalise ff_sleep) = ''other''"
    using n ff_sleep_unnamed normalise_agree(1) by (simp add: NewQueryLogger_def ff_sleep_loop)
  have "tracing_normalise ff_sleep = ff_sleep"
    using ff_sleep_loop by (simp add: tracing_normalise_def logging_normalise_def)
  then show "name_of (NewQueryTracer n3) (tracing_normalise ff_sleep) = ''other''"
    using n ff_sleep_unnamed normalise_agree(2) by (simp add: NewQueryTracer_def)
qed (simp_all add: normalise_agree)

text \<open>The witness: the statement of \<open>GetOrder\<close>.\<close>

theorem normalisations_agree_on_plain_sql_witness:
  "logging_normalise qGetOrderByID = normaliseSQL qGetOrderByID \<and>
   DB_queryName (fst (NewDB QueryNames)) ff_sleep \<noteq> name_of (NewQueryTracer QueryNames) (tracing_normalise ff_sleep)"
  using normalisations_agree_on_plain_sql constants_plain(2) by simp

subsection \<open>The series of the database metrics\<close>

text \<open>
  (C30) Every call that the query metrics make is well formed, for any map of names and any outcome
  of the query, and the latency series it touches was created at start-up. An error series was
  created at start-up exactly when the query is a named one and its kind is \<open>canceled\<close>,
  \<open>timeout\<close> or \<open>other\<close>: SQLSTATE codes, and every error of a statement that the map
  does not name, first appear with the first failure.
\<close>

theorem db_series_preinitialised:
  assumes "NewDB nms = (d, init)"
    and "DB_TraceQueryStart d sql ctx w = (ctx1, w1, es1)"
    and "DB_TraceQueryEnd data ctx1 w2 = (w3, es2)"
  shows "(\<forall>c \<in> set (metric_calls (init @ es2)). call_ok [db_queryDuration, db_queryErrors] c) \<and>
    (\<forall>ls \<in> set (samples db_queryDuration es2). Metric (WithLabels db_queryDuration ls) \<in> set init) \<and>
    (\<forall>n k. [n, k] \<in> set (samples db_queryErrors es2) \<longrightarrow>
       (Metric (WithLabels db_queryErrors [n, k]) \<in> set init \<longleftrightarrow>
        n \<in> snd ` set d \<and> k \<in> {''canceled'', ''timeout'', ''other''}))"
proof -
  note defs = db_queryDuration_def db_queryErrors_def
  have init: "init = DB_preInit d" using assms(1) by (auto simp: NewDB_def Let_def)
  have v: "Value ctx1 QueryCtxKey = Some (QueryCtxVal (DB_queryName d sql) (clock w (reads w)))"
    using db_query.own [of d sql ctx w] assms(2) by simp
  note ends = DB_end(1,2) [OF v assms(3)]
  have calls: "call_ok [db_queryDuration, db_queryErrors] c" if "c \<in> set (metric_calls (init @ es2))" for c
    using that assms(3) v
    by (auto simp: set_metric_calls init DB_preInit_def DB_TraceQueryEnd_def time_Now_def call_ok_def
        defs enumerableErrorKinds_def Let_def split: if_splits)
  have named: "DB_queryName d sql = ''other'' \<or> DB_queryName d sql \<in> snd ` set d"
    by (auto simp: DB_queryName_def name_of_def image_iff split: option.splits dest!: map_of_SomeD) force
  have lat: "Metric (WithLabels db_queryDuration [DB_queryName d sql, st]) \<in> set init" if "st \<in> {''ok'', ''error''}" for st
    using named that by (fastforce simp: init DB_preInit_def)
  have errs: "Metric (WithLabels db_queryErrors [n, k]) \<in> set init \<longleftrightarrow> n \<in> snd ` set d \<and> k \<in> set enumerableErrorKinds" for n k
    by (force simp: init DB_preInit_def defs)
  show ?thesis using calls lat errs ends by (auto simp: enumerableErrorKinds_def)
qed

text \<open>The witness: a failing insert, and the series of a SQLSTATE.\<close>

theorem db_series_preinitialised_witness:
  "let (d, init) = NewDB [(''a'', ''insert_order'')];
       (ctx1, w1, es1) = DB_TraceQueryStart d ''a'' fresh_ctx sample_world;
       es2 = snd (DB_TraceQueryEnd sample_end ctx1 w1)
   in Metric (WithLabels db_queryDuration [''insert_order'', ''error'']) \<in> set init \<and>
      samples db_queryErrors es2 = [[''insert_order'', ''40001'']] \<and>
      Metric (WithLabels db_queryErrors [''insert_order'', ''40001'']) \<notin> set init"
proof -
  let ?d = "fst (NewDB [(''a'', ''insert_order'')])" and ?i = "snd (NewDB [(''a'', ''insert_order'')])"
  let ?x = "DB_TraceQueryStart ?d ''a'' fresh_ctx sample_world"
  let ?y = "DB_TraceQueryEnd sample_end (fst ?x) (fst (snd ?x))"
  have "normaliseSQL ''a'' = ''a''"
    by (simp add: normaliseSQL_def Prelude.fields_def lead_space_byte plain_byte_def flush_def)
  then have d: "?d = [(''a'', ''insert_order'')]" "DB_queryName ?d ''a'' = ''insert_order''"
    by (simp_all add: NewDB_def Let_def normalised_names_def DB_queryName_def name_of_def)
  have v: "Value (fst ?x) QueryCtxKey = Some (QueryCtxVal ''insert_order'' (clock sample_world (reads sample_world)))"
    using db_query.own d(2) by metis
  have f: "query_failed sample_end" "errorKind (QErr sample_end) = ''40001''"
    by (simp_all add: query_failed_def sample_end_def errorKind_def)
  have y: "samples db_queryErrors (snd ?y) = [[''insert_order'', ''40001'']]"
      "samples db_queryDuration (snd ?y) = [[''insert_order'', ''error'']]"
    using DB_end(1,2) [OF v, of sample_end "fst (snd ?x)" "fst ?y" "snd ?y"] f by simp_all
  show ?thesis
    using db_series_preinitialised [of "[(''a'', ''insert_order'')]" ?d ?i "''a''" fresh_ctx sample_world
        "fst ?x" "fst (snd ?x)" "snd (snd ?x)" sample_end "fst (snd ?x)" "fst ?y" "snd ?y"] y
    by (auto simp: case_prod_beta Let_def)
qed

end
