(* ===== verification/Pool_Metrics.thy ===== *)
theory Pool_Metrics
  imports Telemetry
begin

text \<open>
  The pool collector of internal/metrics/db.go. A descriptor has its full name and its variable labels; \<open>Collect\<close>
  emits constant metrics from the statistics read at the scrape, or nothing when there are none. The
  values are converted to \<open>float64\<close>: \<^term>\<open>VNum n\<close> stands for \<open>float64(n)\<close>
  and \<^term>\<open>VSeconds d\<close> for \<open>d.Seconds()\<close>.
\<close>

section \<open>Definitions\<close>

record pool_desc =
  FQName :: string
  VarLabels :: "string list"

record PoolStats =
  AcquiredConns :: int
  IdleConns :: int
  ConstructingConns :: int
  MaxConns :: int
  AcquireCount :: int
  AcquireDuration :: duration
  EmptyAcquireCount :: int
  EmptyAcquireWaitTime :: duration
  CanceledAcquireCount :: int
  NewConnsCount :: int
  MaxLifetimeDestroyCount :: int
  MaxIdleDestroyCount :: int

record const_metric =
  Desc :: pool_desc
  ValueType :: metric_kind
  MValue :: mval
  LabelValues :: "string list"

definition pool_fqname :: "string \<Rightarrow> string" where
  "pool_fqname name = join ''_'' [''orders'', ''db_pool'', name]"

definition descPoolConns :: pool_desc where
  "descPoolConns = \<lparr>FQName = pool_fqname ''connections'', VarLabels = [''state'']\<rparr>"

definition descPoolMax :: pool_desc where
  "descPoolMax = \<lparr>FQName = pool_fqname ''max_connections'', VarLabels = []\<rparr>"

definition descPoolAcquires :: pool_desc where
  "descPoolAcquires = \<lparr>FQName = pool_fqname ''acquires_total'', VarLabels = []\<rparr>"

definition descPoolAcquireSeconds :: pool_desc where
  "descPoolAcquireSeconds = \<lparr>FQName = pool_fqname ''acquire_seconds_total'', VarLabels = []\<rparr>"

definition descPoolEmptyAcquires :: pool_desc where
  "descPoolEmptyAcquires = \<lparr>FQName = pool_fqname ''empty_acquires_total'', VarLabels = []\<rparr>"

definition descPoolEmptyWaitSeconds :: pool_desc where
  "descPoolEmptyWaitSeconds = \<lparr>FQName = pool_fqname ''empty_acquire_wait_seconds_total'', VarLabels = []\<rparr>"

definition descPoolCanceledAcquires :: pool_desc where
  "descPoolCanceledAcquires = \<lparr>FQName = pool_fqname ''canceled_acquires_total'', VarLabels = []\<rparr>"

definition descPoolNewConns :: pool_desc where
  "descPoolNewConns = \<lparr>FQName = pool_fqname ''new_connections_total'', VarLabels = []\<rparr>"

definition descPoolDestroyed :: pool_desc where
  "descPoolDestroyed = \<lparr>FQName = pool_fqname ''connections_destroyed_total'', VarLabels = [''reason'']\<rparr>"

definition poolCollector_Describe :: "pool_desc list" where
  "poolCollector_Describe =
     [descPoolConns, descPoolMax, descPoolAcquires, descPoolAcquireSeconds, descPoolEmptyAcquires,
      descPoolEmptyWaitSeconds, descPoolCanceledAcquires, descPoolNewConns, descPoolDestroyed]"

definition poolCollector_Collect :: "PoolStats option \<Rightarrow> const_metric list" where
  "poolCollector_Collect stat =
     (case stat of
        None \<Rightarrow> []
      | Some s \<Rightarrow>
          (let g = (\<lambda>d v labels. \<lparr>Desc = d, ValueType = GaugeKind, MValue = v, LabelValues = labels\<rparr>);
               cnt = (\<lambda>d v labels. \<lparr>Desc = d, ValueType = CounterKind, MValue = v, LabelValues = labels\<rparr>)
           in [g descPoolConns (VNum (AcquiredConns s)) [''acquired''],
               g descPoolConns (VNum (IdleConns s)) [''idle''],
               g descPoolConns (VNum (ConstructingConns s)) [''constructing''],
               g descPoolMax (VNum (MaxConns s)) [],
               cnt descPoolAcquires (VNum (AcquireCount s)) [],
               cnt descPoolAcquireSeconds (VSeconds (AcquireDuration s)) [],
               cnt descPoolEmptyAcquires (VNum (EmptyAcquireCount s)) [],
               cnt descPoolEmptyWaitSeconds (VSeconds (EmptyAcquireWaitTime s)) [],
               cnt descPoolCanceledAcquires (VNum (CanceledAcquireCount s)) [],
               cnt descPoolNewConns (VNum (NewConnsCount s)) [],
               cnt descPoolDestroyed (VNum (MaxLifetimeDestroyCount s)) [''max_lifetime''],
               cnt descPoolDestroyed (VNum (MaxIdleDestroyCount s)) [''max_idle'']]))"

text \<open>
  What the registry demands of a scrape: a described metric, one value per variable label
  (\<open>MustNewConstMetric\<close> panics otherwise), and no two samples of one series.
\<close>

definition scrape_ok :: "pool_desc list \<Rightarrow> const_metric list \<Rightarrow> bool" where
  "scrape_ok ds ms \<longleftrightarrow>
     list_all (\<lambda>m. Desc m \<in> set ds \<and> length (LabelValues m) = length (VarLabels (Desc m))) ms \<and>
     distinct (map (\<lambda>m. (FQName (Desc m), LabelValues m)) ms)"

section \<open>Lemmas\<close>

lemmas pool_descs =
  descPoolConns_def descPoolMax_def descPoolAcquires_def descPoolAcquireSeconds_def descPoolEmptyAcquires_def
  descPoolEmptyWaitSeconds_def descPoolCanceledAcquires_def descPoolNewConns_def descPoolDestroyed_def pool_fqname_def

text \<open>
  A scrape of the pool is accepted by the registry: without statistics nothing is emitted,
  and otherwise twelve samples, each of a described metric with one value per label and no two of
  the same series, covering every described metric; the gauges of \<open>connections\<close> are the three
  counts of the pool, by state.
\<close>

theorem pool_scrape_ok:
  "poolCollector_Collect None = [] \<and>
   scrape_ok poolCollector_Describe (poolCollector_Collect (Some s)) \<and>
   set (map Desc (poolCollector_Collect (Some s))) = set poolCollector_Describe \<and>
   map (\<lambda>m. (LabelValues m, MValue m)) (filter (\<lambda>m. Desc m = descPoolConns) (poolCollector_Collect (Some s))) =
     [([''acquired''], VNum (AcquiredConns s)), ([''idle''], VNum (IdleConns s)),
      ([''constructing''], VNum (ConstructingConns s))]"
proof -
  have "distinct (map FQName poolCollector_Describe)" by (simp add: poolCollector_Describe_def pool_descs)
  then have ne: "list_all (\<lambda>d. d \<noteq> descPoolConns) (tl poolCollector_Describe)"
    by (auto simp: poolCollector_Describe_def)
  have "scrape_ok poolCollector_Describe (poolCollector_Collect (Some s))"
    by (simp add: scrape_ok_def poolCollector_Collect_def poolCollector_Describe_def pool_descs Let_def)
  moreover have "set (map Desc (poolCollector_Collect (Some s))) = set poolCollector_Describe"
    by (simp add: poolCollector_Collect_def poolCollector_Describe_def Let_def)
  moreover have "map (\<lambda>m. (LabelValues m, MValue m)) (filter (\<lambda>m. Desc m = descPoolConns) (poolCollector_Collect (Some s))) =
     [([''acquired''], VNum (AcquiredConns s)), ([''idle''], VNum (IdleConns s)),
      ([''constructing''], VNum (ConstructingConns s))]"
    using ne by (simp add: poolCollector_Collect_def poolCollector_Describe_def Let_def)
  moreover have "poolCollector_Collect None = []" by (simp add: poolCollector_Collect_def)
  ultimately show ?thesis by blast
qed

end
