(* ===== verification/Migrations.thy ===== *)
theory Migrations
  imports Orders_Store
begin

text \<open>
  Opening the store and migrating its schema (internal/store/store.go). The database is its
  schema, of any type, and the table \<open>schema_migrations\<close>, \<^term>\<open>None\<close> before it exists. What
  a migration file does to the schema is the server's (\<open>exec\<close>), and so is the answer to each
  round trip: a statement inside a transaction works on the transaction's copy of the database, which
  replaces the database when the commit is executed, also when its answer is lost.
\<close>

section \<open>Definitions\<close>

subsection \<open>The database and its statements\<close>

record 's mig_db =
  schema :: 's
  applied :: "string list option"

definition create_stmt :: "'s mig_db \<Rightarrow> goerr + ('s mig_db \<times> unit)" where
  "create_stmt db = Inr (db\<lparr>applied := Some (case applied db of None \<Rightarrow> [] | Some a \<Rightarrow> a)\<rparr>, ())"

definition exists_stmt :: "string \<Rightarrow> 's mig_db \<Rightarrow> goerr + ('s mig_db \<times> bool)" where
  "exists_stmt name db =
     (case applied db of None \<Rightarrow> Inl (pg_error ''42P01'') | Some a \<Rightarrow> Inr (db, name \<in> set a))"

definition body_stmt :: "(string \<Rightarrow> 's \<Rightarrow> goerr + 's) \<Rightarrow> string \<Rightarrow> 's mig_db \<Rightarrow> goerr + ('s mig_db \<times> unit)" where
  "body_stmt exec body db =
     (case exec body (schema db) of Inl e \<Rightarrow> Inl e | Inr s \<Rightarrow> Inr (db\<lparr>schema := s\<rparr>, ()))"

definition record_stmt :: "string \<Rightarrow> 's mig_db \<Rightarrow> goerr + ('s mig_db \<times> unit)" where
  "record_stmt name db =
     (case applied db of
        None \<Rightarrow> Inl (pg_error ''42P01'')
      | Some a \<Rightarrow> if name \<in> set a then Inl (pg_error ''23505'') else Inr (db\<lparr>applied := Some (a @ [name])\<rparr>, ()))"

text \<open>The answers to the round trips of one file.\<close>

record mig_env =
  exists_reply :: pg_reply
  begin_reply :: pg_reply
  body_reply :: pg_reply
  record_reply :: pg_reply
  commit_reply :: pg_reply

subsection \<open>Migrate\<close>

text \<open>One file that is not yet recorded: read it and run it in a transaction of its own.\<close>

definition migrate_one :: "(string \<Rightarrow> 's \<Rightarrow> goerr + 's) \<Rightarrow> (string \<Rightarrow> goerr + string) \<Rightarrow> mig_env \<Rightarrow> string
    \<Rightarrow> 's mig_db \<Rightarrow> unit res \<times> 's mig_db" where
  "migrate_one exec read e name db =
     (case read name of
        Inl er \<Rightarrow> (Err (Wrap (''store: read migration '' @ name) er), db)
      | Inr body \<Rightarrow>
          (case pg_run (begin_reply e) (\<lambda>d. Inr (d, ())) db of
             (Err er, _) \<Rightarrow> (Err (Wrap (''store: begin migration '' @ name) er), db)
           | (Panicked m, _) \<Rightarrow> (Panicked m, db)
           | (Ok _, _) \<Rightarrow>
               (case pg_run (body_reply e) (body_stmt exec body) db of
                  (Err er, _) \<Rightarrow> (Err (Wrap (''store: apply migration '' @ name) er), db)
                | (Panicked m, _) \<Rightarrow> (Panicked m, db)
                | (Ok _, tx) \<Rightarrow>
                    (case pg_run (record_reply e) (record_stmt name) tx of
                       (Err er, _) \<Rightarrow> (Err (Wrap (''store: record migration '' @ name) er), db)
                     | (Panicked m, _) \<Rightarrow> (Panicked m, db)
                     | (Ok _, tx') \<Rightarrow>
                         (case pg_run (commit_reply e) (\<lambda>_. Inr (tx', ())) db of
                            (r, db') \<Rightarrow> (res_wrap (''store: commit migration '' @ name) r, db'))))))"

fun migrate_loop :: "(string \<Rightarrow> 's \<Rightarrow> goerr + 's) \<Rightarrow> (string \<Rightarrow> goerr + string) \<Rightarrow> (string \<Rightarrow> mig_env)
    \<Rightarrow> string list \<Rightarrow> 's mig_db \<Rightarrow> unit res \<times> 's mig_db" where
  "migrate_loop exec read envs [] db = (Ok (), db)"
| "migrate_loop exec read envs (name # names) db =
     (case pg_run (exists_reply (envs name)) (exists_stmt name) db of
        (Err er, db1) \<Rightarrow> (Err (Wrap (''store: check migration '' @ name) er), db1)
      | (Panicked m, db1) \<Rightarrow> (Panicked m, db1)
      | (Ok present, db1) \<Rightarrow>
          if present then migrate_loop exec read envs names db1
          else case migrate_one exec read (envs name) name db1 of
                 (Ok _, db2) \<Rightarrow> migrate_loop exec read envs names db2
               | (failed, db2) \<Rightarrow> (failed, db2))"

definition Migrate :: "(string \<Rightarrow> 's \<Rightarrow> goerr + 's) \<Rightarrow> (goerr + string list) \<Rightarrow> (string \<Rightarrow> goerr + string)
    \<Rightarrow> pg_reply \<Rightarrow> (string \<Rightarrow> mig_env) \<Rightarrow> 's mig_db \<Rightarrow> unit res \<times> 's mig_db" where
  "Migrate exec glob read create envs db =
     (case pg_run create create_stmt db of
        (Err e, db1) \<Rightarrow> (Err (Wrap ''store: create schema_migrations'' e), db1)
      | (Panicked m, db1) \<Rightarrow> (Panicked m, db1)
      | (Ok _, db1) \<Rightarrow>
          (case glob of
             Inl e \<Rightarrow> (Err (Wrap ''store: list migrations'' e), db1)
           | Inr entries \<Rightarrow> migrate_loop exec read envs (sort entries) db1))"

subsection \<open>The contract\<close>

text \<open>
  What migrating means: in the order of the file names, every file not yet recorded is executed
  and recorded; \<^term>\<open>None\<close> when one of them cannot be.
\<close>

definition created :: "'s mig_db \<Rightarrow> 's mig_db" where
  "created db = db\<lparr>applied := Some (case applied db of None \<Rightarrow> [] | Some a \<Rightarrow> a)\<rparr>"

definition recorded :: "'s mig_db \<Rightarrow> string list" where
  "recorded db = (case applied db of None \<Rightarrow> [] | Some a \<Rightarrow> a)"

definition mig_step :: "(string \<Rightarrow> 's \<Rightarrow> goerr + 's) \<Rightarrow> (string \<Rightarrow> goerr + string) \<Rightarrow> string \<Rightarrow> 's mig_db \<Rightarrow> 's mig_db option" where
  "mig_step exec read name db =
     (case read name of
        Inl e \<Rightarrow> None
      | Inr body \<Rightarrow>
          (case exec body (schema db) of
             Inl e \<Rightarrow> None
           | Inr s \<Rightarrow> Some \<lparr>schema = s, applied = Some (recorded db @ [name])\<rparr>))"

fun mig_apply :: "(string \<Rightarrow> 's \<Rightarrow> goerr + 's) \<Rightarrow> (string \<Rightarrow> goerr + string) \<Rightarrow> string list \<Rightarrow> 's mig_db \<Rightarrow> 's mig_db option" where
  "mig_apply exec read [] db = Some db"
| "mig_apply exec read (name # names) db =
     (if name \<in> set (recorded db) then mig_apply exec read names db
      else Option.bind (mig_step exec read name db) (mig_apply exec read names))"

text \<open>Starts of the service one after the other, each with its own answers; the database that is left.\<close>

fun migrate_runs :: "(string \<Rightarrow> 's \<Rightarrow> goerr + 's) \<Rightarrow> string list \<Rightarrow> (string \<Rightarrow> goerr + string)
    \<Rightarrow> (pg_reply \<times> (string \<Rightarrow> mig_env)) list \<Rightarrow> 's mig_db \<Rightarrow> 's mig_db" where
  "migrate_runs exec entries read [] db = db"
| "migrate_runs exec entries read ((c, envs) # rs) db =
     migrate_runs exec entries read rs (snd (Migrate exec (Inr entries) read c envs db))"

definition good_env :: mig_env where
  "good_env = \<lparr>exists_reply = ReplyOk, begin_reply = ReplyOk, body_reply = ReplyOk, record_reply = ReplyOk, commit_reply = ReplyOk\<rparr>"

text \<open>A schema that is the list of the executed texts, two files, and a commit whose answer is lost.\<close>

definition sample_exec :: "string \<Rightarrow> string list \<Rightarrow> goerr + string list" where
  "sample_exec body s = Inr (s @ [body])"

definition sample_read :: "string \<Rightarrow> goerr + string" where
  "sample_read name = Inr (''-- '' @ name)"

definition lost_commit :: "string \<Rightarrow> mig_env" where
  "lost_commit name = good_env\<lparr>commit_reply := ReplyLost 0 (Plain ''connection reset'')\<rparr>"

section \<open>Lemmas\<close>

lemma created_simps [simp]:
  "applied (created db) = Some (recorded db)" "schema (created db) = schema db" "recorded (created db) = recorded db"
  "created (created db) = created db"
  by (simp_all add: created_def recorded_def)

lemma created_id: "applied db = Some a \<Longrightarrow> created db = db"
  by (simp add: created_def)

lemma create_stmt_created: "create_stmt db = Inr (created db, ())"
  by (simp add: create_stmt_def created_def)

lemma pg_run_cases:
  assumes "pg_run r stmt db = (x, db')"
  shows "db' = db \<or> (\<exists>y. stmt db = Inr (db', y))"
    and "x = Ok y \<Longrightarrow> stmt db = Inr (db', y)"
  using assms by (auto simp: pg_run_def pg_table_def Let_def split: pg_reply.splits sum.splits)

lemma migrate_one_step:
  assumes "migrate_one exec read e name db = (r, db')" "applied db = Some a" "name \<notin> set a"
  shows "db' = db \<or> mig_step exec read name db = Some db'"
    and "r = Ok x \<Longrightarrow> mig_step exec read name db = Some db'"
  using assms
  by (auto simp: migrate_one_def pg_run_def pg_table_def body_stmt_def record_stmt_def mig_step_def recorded_def Let_def
      split: sum.splits pg_reply.splits res.splits prod.splits)


lemma mig_step_recorded:
  assumes "mig_step exec read name db = Some db'"
  shows "applied db' = Some (recorded db @ [name])" "recorded db' = recorded db @ [name]"
  using assms by (auto simp: mig_step_def recorded_def split: sum.splits)

lemma mig_apply_skip: "set pre \<subseteq> set (recorded db) \<Longrightarrow> mig_apply exec read (pre @ names) db = mig_apply exec read names db"
  by (induction pre) auto

lemma mig_apply_recorded:
  assumes "mig_apply exec read names db = Some db'" "distinct names"
  shows "recorded db' = recorded db @ filter (\<lambda>n. n \<notin> set (recorded db)) names"
  using assms
proof (induction names arbitrary: db)
  case (Cons n names)
  show ?case
  proof (cases "n \<in> set (recorded db)")
    case False
    then obtain d where d: "mig_step exec read n db = Some d" "mig_apply exec read names d = Some db'"
      using Cons.prems by (auto simp: bind_eq_Some_conv)
    have "filter (\<lambda>k. k \<notin> set (recorded db @ [n])) names = filter (\<lambda>k. k \<notin> set (recorded db)) names"
      using Cons.prems(2) by (intro filter_cong) auto
    then show ?thesis using Cons.IH [OF d(2)] Cons.prems(2) False mig_step_recorded(2) [OF d(1)] by simp
  qed (use Cons in simp)
qed simp

lemma exists_check:
  assumes "pg_run r (exists_stmt name) db = (x, db1)" "applied db = Some a"
  shows "db1 = db" and "x = Ok p \<Longrightarrow> p = (name \<in> set (recorded db))"
  using assms by (auto simp: pg_run_def pg_table_def exists_stmt_def recorded_def Let_def split: pg_reply.splits)

lemma mig_step_kept:
  assumes "mig_step exec read n db = Some d" "n \<notin> set (recorded db)" "set pre \<subseteq> set (recorded db)"
  shows "mig_apply exec read (pre @ n # names) d = mig_apply exec read (n # names) db"
  using assms mig_step_recorded [OF assms(1)] mig_apply_skip [of "pre @ [n]" d exec read names] by auto

lemma migrate_loop_apply:
  assumes "migrate_loop exec read envs names db = (r, db')" "applied db = Some a" "set pre \<subseteq> set (recorded db)"
  shows "(\<exists>a'. applied db' = Some a') \<and> mig_apply exec read (pre @ names) db' = mig_apply exec read names db \<and>
    (r = Ok () \<longrightarrow> mig_apply exec read names db = Some db')"
  using assms
proof (induction names arbitrary: db a pre)
  case Nil
  then show ?case using mig_apply_skip [of pre db' exec read "[]"] by auto
next
  case (Cons n names)
  obtain x db1 where x: "pg_run (exists_reply (envs n)) (exists_stmt n) db = (x, db1)" by (metis surj_pair)
  note check = exists_check [OF x Cons.prems(2)]
  have stay: "mig_apply exec read (pre @ n # names) db = mig_apply exec read (n # names) db"
    using Cons.prems(3) by (rule mig_apply_skip)
  show ?case
  proof (cases x)
    case (Ok p)
    show ?thesis
    proof (cases p)
      case True
      then show ?thesis
        using Cons.IH [of db a "pre @ [n]"] Cons.prems check Ok x by simp
    next
      case False
      obtain y db2 where one: "migrate_one exec read (envs n) n db = (y, db2)" by (metis surj_pair)
      have new: "n \<notin> set a" using False Ok check Cons.prems(2) by (simp add: recorded_def)
      note step = migrate_one_step [OF one Cons.prems(2) new]
      have failed: "(\<exists>a'. applied db2 = Some a') \<and>
          mig_apply exec read (pre @ n # names) db2 = mig_apply exec read (n # names) db"
        using step(1) stay Cons.prems(2,3) mig_step_recorded(1) mig_step_kept new
        by (metis option.simps(5) recorded_def)
      show ?thesis
      proof (cases y)
        case (Ok u)
        then have d: "mig_step exec read n db = Some db2" using step by simp
        then show ?thesis
          using Cons.IH [of db2 "recorded db @ [n]" "pre @ [n]"] Cons.prems check x \<open>x = Ok p\<close> False Ok one
            mig_step_recorded [OF d] new by (auto simp: recorded_def)
      qed (use Cons.prems check x \<open>x = Ok p\<close> False one stay failed in auto)
    qed
  qed (use Cons.prems check x stay in auto)
qed


lemma Migrate_apply:
  assumes "Migrate exec (Inr entries) read c envs db = (r, db')"
  shows "mig_apply exec read (sort entries) (created db') = mig_apply exec read (sort entries) (created db)"
    and "r = Ok () \<Longrightarrow> mig_apply exec read (sort entries) (created db) = Some db'"
proof -
  obtain x db1 where x: "pg_run c create_stmt db = (x, db1)" by (metis surj_pair)
  have db1: "db1 = db \<or> db1 = created db" "x = Ok () \<Longrightarrow> db1 = created db"
    using pg_run_cases [OF x] by (auto simp: create_stmt_created)
  have both: "mig_apply exec read (sort entries) (created db') = mig_apply exec read (sort entries) (created db) \<and>
      (r = Ok () \<longrightarrow> mig_apply exec read (sort entries) (created db) = Some db')"
  proof (cases x)
    case (Ok u)
    then have "migrate_loop exec read envs (sort entries) (created db) = (r, db')" "db1 = created db"
      using assms x db1 by (auto simp: Migrate_def)
    then show ?thesis using migrate_loop_apply [of exec read envs "sort entries" "created db" r db' _ "[]"]
      by (auto simp: created_id)
  qed (use assms x db1 in \<open>auto simp: Migrate_def\<close>)
  then show "mig_apply exec read (sort entries) (created db') = mig_apply exec read (sort entries) (created db)"
    "r = Ok () \<Longrightarrow> mig_apply exec read (sort entries) (created db) = Some db'" by blast+
qed

lemma migrate_runs_apply:
  "mig_apply exec read (sort entries) (created (migrate_runs exec entries read rs db)) =
   mig_apply exec read (sort entries) (created db)"
proof (induction rs arbitrary: db)
  case (Cons x rs)
  obtain c envs where x: "x = (c, envs)" by force
  show ?case using Cons Migrate_apply(1) [of exec entries read c envs db, OF surjective_pairing] x by simp
qed simp

lemma migrate_loop_good:
  assumes "applied db = Some a" "mig_apply exec read names db = Some db'"
  shows "migrate_loop exec read (\<lambda>_. good_env) names db = (Ok (), db')"
  using assms
proof (induction names arbitrary: db a)
  case (Cons n names)
  have check: "pg_run ReplyOk (exists_stmt n) db = (Ok (n \<in> set a), db)"
    using Cons.prems by (simp add: pg_run_def pg_table_def exists_stmt_def)
  show ?case
  proof (cases "n \<in> set a")
    case False
    then obtain d where d: "mig_step exec read n db = Some d" "mig_apply exec read names d = Some db'"
      using Cons.prems by (auto simp: bind_eq_Some_conv recorded_def)
    then have "migrate_one exec read good_env n db = (Ok (), d)"
      using Cons.prems(1) False
      by (auto simp: migrate_one_def good_env_def pg_run_def pg_table_def body_stmt_def record_stmt_def mig_step_def
          recorded_def split: sum.splits)
    then show ?thesis
      using check False Cons.IH [OF mig_step_recorded(1) [OF d(1)] d(2)] by (simp add: good_env_def)
  qed (use Cons check in \<open>auto simp: good_env_def recorded_def\<close>)
qed simp

lemma Migrate_good:
  "mig_apply exec read (sort entries) (created db) = Some db' \<Longrightarrow>
   Migrate exec (Inr entries) read ReplyOk (\<lambda>_. good_env) db = (Ok (), db')"
  using migrate_loop_good [of "created db" "recorded db" exec read "sort entries" db']
  by (simp add: Migrate_def pg_run_def pg_table_def create_stmt_created)

text \<open>
  (C31) Migrations are applied exactly once, across restarts. Start the service any number of times,
  each start failing at whatever round trip and in whatever way, answers lost after a commit
  included: a start whose \<open>Migrate\<close> returns without error leaves the database that one clean run on
  the original database gives, with every file recorded once, in file-name order, after those
  recorded before; and when the database answers and a clean run is possible, \<open>Migrate\<close> does
  return without error.
\<close>

theorem migrate_exactly_once:
  assumes "distinct entries"
  shows "\<forall>rs db0. let db = migrate_runs exec entries read rs db0 in
    (\<forall>c envs db'. Migrate exec (Inr entries) read c envs db = (Ok (), db') \<longrightarrow>
       mig_apply exec read (sort entries) (created db0) = Some db' \<and>
       recorded db' = recorded db0 @ filter (\<lambda>n. n \<notin> set (recorded db0)) (sort entries)) \<and>
    (\<forall>db'. mig_apply exec read (sort entries) (created db0) = Some db' \<longrightarrow>
       Migrate exec (Inr entries) read ReplyOk (\<lambda>_. good_env) db = (Ok (), db'))"
proof (intro allI, unfold Let_def, intro conjI allI impI)
  fix rs db0 c envs db'
  assume "Migrate exec (Inr entries) read c envs (migrate_runs exec entries read rs db0) = (Ok (), db')"
  then show clean: "mig_apply exec read (sort entries) (created db0) = Some db'"
    using Migrate_apply(2) migrate_runs_apply by metis
  show "recorded db' = recorded db0 @ filter (\<lambda>n. n \<notin> set (recorded db0)) (sort entries)"
    using mig_apply_recorded [OF clean] assms by simp
next
  fix rs db0 db'
  assume "mig_apply exec read (sort entries) (created db0) = Some db'"
  then show "Migrate exec (Inr entries) read ReplyOk (\<lambda>_. good_env) (migrate_runs exec entries read rs db0) = (Ok (), db')"
    by (intro Migrate_good) (simp add: migrate_runs_apply)
qed

text \<open>The witness: two files, whose first start loses the answer to the first commit.\<close>

theorem migrate_exactly_once_witness:
  "let db0 = \<lparr>schema = [], applied = None\<rparr>;
       db = migrate_runs sample_exec [''b'', ''a''] sample_read [(ReplyOk, lost_commit)] db0
   in Migrate sample_exec (Inr [''b'', ''a'']) sample_read ReplyOk (\<lambda>_. good_env) db =
        (Ok (), \<lparr>schema = [''-- a'', ''-- b''], applied = Some [''a'', ''b'']\<rparr>)"
proof -
  have "mig_apply sample_exec sample_read (sort [''b'', ''a'']) (created \<lparr>schema = [], applied = None\<rparr>) =
      Some \<lparr>schema = [''-- a'', ''-- b''], applied = Some [''a'', ''b'']\<rparr>"
    by (simp add: mig_step_def sample_exec_def sample_read_def recorded_def created_def)
  moreover have "distinct [''b'', ''a'']" by simp
  note migrate_exactly_once [OF this, of sample_exec sample_read, THEN spec, of "[(ReplyOk, lost_commit)]",
      THEN spec, of "\<lparr>schema = [], applied = None\<rparr>"]
  ultimately show ?thesis unfolding Let_def by blast
qed

end
