(* ===== verification/Admin.thy ===== *)
theory Admin
  imports Api
begin

text \<open>
  The admin server: the routes of internal/metrics/server.go with those that cmd/api/main.go adds,
  and the runtime log level endpoint of internal/logging/level.go. The level variable is the state
  of the endpoint; the line it logs is an event, emitted after the variable was set. The scrape handler
  is the Prometheus library's.
\<close>

section \<open>Definitions\<close>

definition level_missing :: string where
  "level_missing = ''missing ?level= (debug|info|warn|error)''"

definition encode :: "serve_env \<Rightarrow> body \<Rightarrow> event list" where
  "encode env b = (let (n, err) = write_res env b in [W (Write b n err)])"

definition LevelHandler :: "serve_env \<Rightarrow> request \<Rightarrow> level \<Rightarrow> event list \<times> level" where
  "LevelHandler env r lv =
     (let ct = [W (SetHeader ''Content-Type'' ''application/json; charset=utf-8'')] in
      if Method r = ''GET'' then (ct @ encode env (MapBody ''level'' (level_string lv)), lv)
      else if Method r = ''PUT'' \<or> Method r = ''POST'' then
        let raw = query_get r ''level'' in
        if raw = [] then (ct @ [W (WriteHeader 400)] @ encode env (MapBody ''error'' level_missing), lv)
        else case UnmarshalText raw of
               None \<Rightarrow>
                 (ct @ [W (WriteHeader 400)] @
                  encode env (MapBody ''error'' (''unknown level '' @ raw @ '' (want debug|info|warn|error)'')), lv)
             | Some lvl \<Rightarrow>
                 (ct @
                  [L [] LevelWarn ''log level changed at runtime''
                     [(''from'', AStr (level_string lv)), (''to'', AStr (level_string lvl)),
                      (''remote_addr'', AStr (RemoteAddr r))]] @
                  encode env (MapBody ''level'' (level_string lvl)), lvl)
      else (ct @ [W (SetHeader ''Allow'' ''GET, PUT''), W (WriteHeader 405)], lv))"

text \<open>
  The admin routes on a clean path. A method that no pattern of the path accepts is refused by
  \<open>ServeMux\<close> itself, with the methods it would accept.
\<close>

datatype admin_endpoint = Scrape | LogLevel | Landing | MethodNotAllowed "string list"

definition admin_match :: "string \<Rightarrow> string list \<Rightarrow> admin_endpoint" where
  "admin_match m segs =
     (let get_like = (m = ''GET'' \<or> m = ''HEAD'') in
      if segs = [''loglevel''] then
        (if get_like \<or> m = ''PUT'' \<or> m = ''POST'' then LogLevel else MethodNotAllowed [''GET'', ''HEAD'', ''POST'', ''PUT''])
      else if \<not> get_like then MethodNotAllowed [''GET'', ''HEAD'']
      else if segs = [''metrics''] then Scrape
      else Landing)"

text \<open>The landing page, and what the scrape handler reports through \<open>promLogger\<close>.\<close>

definition landing_page :: string where
  "landing_page =
     ''<!doctype html><title>orders admin</title>'' @ [CHR 0x0A] @ ''<h1>orders '' @ bytes [226, 128, 148] @
     '' admin port</h1><p><a href='' @ [CHR 0x22] @ ''/metrics'' @ [CHR 0x22] @ ''>/metrics</a></p>''"

definition landing :: "serve_env \<Rightarrow> event list" where
  "landing env = [W (SetHeader ''Content-Type'' ''text/html; charset=utf-8'')] @ encode env (HtmlBody landing_page)"

definition promLogger_Println :: "string \<Rightarrow> event list" where
  "promLogger_Println v = [L [] LevelError ''metrics handler'' [(''error'', AStr v)]]"

text \<open>The limits that \<open>NewServer\<close> sets on the scrape handler and on the server.\<close>

record scrape_opts =
  fails_as_500 :: bool \<comment> \<open>\<open>HTTPErrorOnError\<close>\<close>
  EnableOpenMetrics :: bool
  MaxRequestsInFlight :: int
  ScrapeTimeout :: duration

record http_server =
  server_addr :: string
  ReadHeaderTimeout :: duration
  ReadTimeout :: duration
  WriteTimeout :: duration
  IdleTimeout :: duration

definition scrape_handler_opts :: scrape_opts where
  "scrape_handler_opts =
     \<lparr>fails_as_500 = True, EnableOpenMetrics = True, MaxRequestsInFlight = 5, ScrapeTimeout = 10 * Second\<rparr>"

definition NewServer :: "string \<Rightarrow> http_server" where
  "NewServer addr =
     \<lparr>server_addr = addr, ReadHeaderTimeout = 5 * Second, ReadTimeout = 15 * Second, WriteTimeout = 30 * Second,
      IdleTimeout = 60 * Second\<rparr>"

text \<open>
  The admin port on a clean path: \<open>scrape\<close> is the instrumented handler of the library, with the errors it
  reports.
\<close>

definition admin_serve :: "serve_env \<Rightarrow> (request \<Rightarrow> string list \<times> event list) \<Rightarrow> request \<Rightarrow> level \<Rightarrow> event list \<times> level" where
  "admin_serve env scrape r lv =
     (case admin_match (Method r) (split_slash [] (tl (Path r))) of
        Scrape \<Rightarrow> (case scrape r of (errs, es) \<Rightarrow> (concat (map promLogger_Println errs) @ es, lv))
      | LogLevel \<Rightarrow> LevelHandler env r lv
      | Landing \<Rightarrow> (landing env, lv)
      | MethodNotAllowed ms \<Rightarrow>
          ([W (SetHeader ''Allow'' (join '', '' ms)), W (SetHeader ''Content-Type'' ''text/plain; charset=utf-8''),
            W (SetHeader ''X-Content-Type-Options'' ''nosniff''), W (WriteHeader 405)] @
           encode env (HtmlBody (''Method Not Allowed'' @ [CHR 0x0A])), lv))"

text \<open>The level a request asks for.\<close>

definition asks :: "request \<Rightarrow> level option" where
  "asks r =
     (if Method r = ''PUT'' \<or> Method r = ''POST'' then
        (if query_get r ''level'' = [] then None else UnmarshalText (query_get r ''level''))
      else None)"

text \<open>What the line about a change from the first level to the second says.\<close>

definition audit_attrs :: "request \<Rightarrow> level \<Rightarrow> level \<Rightarrow> attr list" where
  "audit_attrs r old new =
     [(''from'', AStr (level_string old)), (''to'', AStr (level_string new)), (''remote_addr'', AStr (RemoteAddr r))]"

definition raise_request :: request where
  "raise_request = sample_request\<lparr>Method := ''PUT'', Query := [(''level'', ''error'')]\<rparr>"

section \<open>Lemmas\<close>

lemma atoi_plus: "0 \<le> v \<Longrightarrow> int64_ok v \<Longrightarrow> atoi (CHR ''+'' # itoa v) = Some v"
  by (simp add: atoi_def itoa_def decimal_value_decimal)

lemma level_names:
  "level_name ''DEBUG'' = Some LevelDebug" "level_name ''INFO'' = Some LevelInfo"
  "level_name ''WARN'' = Some LevelWarn" "level_name ''ERROR'' = Some LevelError"
  by code_simp+

lemma UnmarshalText_base:
  assumes "level_name base = Some l" "CHR ''+'' \<notin> set base" "CHR ''-'' \<notin> set base"
    "int64_ok v" "int64_ok (level_int l + v)"
  shows "UnmarshalText (if v = 0 then base else base @ (if v < 0 then itoa v else CHR ''+'' # itoa v)) =
    Some (Level (level_int l + v))"
proof -
  have tw: "takeWhile (\<lambda>c. c \<noteq> CHR ''+'' \<and> c \<noteq> CHR ''-'') base = base"
    using assms(2,3) by (auto simp: takeWhile_eq_all_conv)
  consider "v = 0" | "v < 0" | "0 < v" by linarith
  then show ?thesis
  proof cases
    case 1
    then show ?thesis using assms(1) tw by (simp add: UnmarshalText_def Let_def del: takeWhile_eq_all_conv)
  next
    case 2
    then obtain s where s: "itoa v = CHR ''-'' # s" by (auto simp: itoa_def)
    have name: "takeWhile (\<lambda>c. c \<noteq> CHR ''+'' \<and> c \<noteq> CHR ''-'') (base @ itoa v) = base"
      using assms(2,3) s by (subst takeWhile_append2) auto
    moreover have "atoi (CHR ''-'' # s) = Some v" using atoi_itoa [OF assms(4)] s by simp
    ultimately show ?thesis using 2 assms s by (simp add: UnmarshalText_def Let_def)
  next
    case 3
    have name: "takeWhile (\<lambda>c. c \<noteq> CHR ''+'' \<and> c \<noteq> CHR ''-'') (base @ CHR ''+'' # itoa v) = base"
      using assms(2,3) by (subst takeWhile_append2) auto
    then show ?thesis using 3 assms by (simp add: UnmarshalText_def Let_def atoi_plus)
  qed
qed

lemma level_roundtrip:
  assumes "int64_ok (level_int l)"
  shows "UnmarshalText (level_string l) = Some l"
proof -
  obtain n where n: "l = Level n" by (cases l)
  consider "n < 0" | "0 \<le> n" "n < 4" | "4 \<le> n" "n < 8" | "8 \<le> n" by linarith
  then show ?thesis
  proof cases
    case 1
    then show ?thesis using UnmarshalText_base [OF level_names(1), of "n + 4"] assms n
      by (simp add: level_string_def int64_ok_def)
  next
    case 2
    then show ?thesis using UnmarshalText_base [OF level_names(2), of n] assms n
      by (simp add: level_string_def int64_ok_def)
  next
    case 3
    then show ?thesis using UnmarshalText_base [OF level_names(3), of "n - 4"] assms n
      by (simp add: level_string_def int64_ok_def)
  next
    case 4
    then show ?thesis using UnmarshalText_base [OF level_names(4), of "n - 8"] assms n
      by (simp add: level_string_def int64_ok_def)
  qed
qed


lemma level_name_ok: "level_name s = Some l \<Longrightarrow> int64_ok (level_int l)"
  by (auto simp: level_name_def Let_def int64_ok_def split: if_splits)

lemma UnmarshalText_ok: "UnmarshalText s = Some l \<Longrightarrow> int64_ok (level_int l)"
  by (auto simp: UnmarshalText_def Let_def level_name_ok split: if_splits option.splits)

lemma asks_ok: "asks r = Some l \<Longrightarrow> int64_ok (level_int l)"
  by (auto simp: asks_def UnmarshalText_ok split: if_splits)

lemma encode_wcalls [simp]: "wcalls (es @ encode env b) = wcalls es @ [Write b (fst (write_res env b)) (snd (write_res env b))]"
  by (induction es rule: wcalls.induct) (auto simp: encode_def split: prod.split)

lemma LevelHandler_cases:
  assumes "LevelHandler env r lv = (es, lv')"
  shows "lv' = (case asks r of Some l \<Rightarrow> l | None \<Rightarrow> lv)"
    "client_status (wcalls es) = (if Method r = ''GET'' \<or> asks r \<noteq> None then 200
       else if Method r = ''PUT'' \<or> Method r = ''POST'' then 400 else 405)"
    "Method r = ''GET'' \<or> asks r \<noteq> None \<Longrightarrow> content (client (wcalls es)) = [MapBody ''level'' (level_string lv')]"
    "log_events es = (if asks r = None then [] else [L [] LevelWarn ''log level changed at runtime'' (audit_attrs r lv lv')])"
  using assms
  by (auto simp: LevelHandler_def asks_def client_status_def client_def base_header_def new_response_def encode_def Let_def
      audit_attrs_def split: if_splits option.splits prod.splits)

text \<open>Nothing on the admin port but a request for the level changes the level.\<close>

lemma admin_serve_level:
  assumes "admin_serve env scrape r lv = (es, lv')"
  shows "lv' = lv \<or> Path r \<noteq> [] \<and> split_slash [] (tl (Path r)) = [''loglevel''] \<and> asks r = Some lv'"
proof (cases "admin_match (Method r) (split_slash [] (tl (Path r)))")
  case LogLevel
  then have m: "split_slash [] (tl (Path r)) = [''loglevel'']" by (auto simp: admin_match_def Let_def split: if_splits)
  then have "Path r \<noteq> []" by (cases "Path r") auto
  moreover have "LevelHandler env r lv = (es, lv')" using assms LogLevel by (simp add: admin_serve_def)
  from LevelHandler_cases(1) [OF this] have "lv' = (case asks r of Some l \<Rightarrow> l | None \<Rightarrow> lv)" .
  ultimately show ?thesis using m by (auto split: option.splits)
qed (use assms in \<open>auto simp: admin_serve_def split: prod.splits\<close>)

text \<open>
  (C34) The runtime log level. Whatever is sent to the endpoint, the level changes exactly when a
  \<open>PUT\<close> or \<open>POST\<close> names a level that parses, and then to that level; such a request and
  every \<open>GET\<close> are answered with 200 and the name of the level in force, and that name parses back to
  the same level; the other requests are answered with 400 or 405 and change nothing. A request that
  sets the level makes exactly one call of the logger, at \<open>WARN\<close>, with the old level, the new one and the
  client's address; no other request makes any. The call comes after the new level is in force, so any
  logger that \<open>New\<close> builds writes its line exactly when the new level is not above \<open>WARN\<close>, whatever
  the sampler's state: raising the level to \<open>ERROR\<close> leaves no trace of who did it.
\<close>

theorem level_endpoint_spec:
  assumes "LevelHandler env r lv = (es, lv')" "int64_ok (level_int lv)" "logging_New cfg hp0 = (h, hp1, l0)"
    and "audit = \<lparr>RLevel = LevelWarn, RMessage = ''log level changed at runtime'', RTime = t, RAttrs = audit_attrs r lv lv', RSource = src\<rparr>"
  shows "lv' = (case asks r of Some l \<Rightarrow> l | None \<Rightarrow> lv) \<and>
    client_status (wcalls es) = (if Method r = ''GET'' \<or> asks r \<noteq> None then 200
       else if Method r = ''PUT'' \<or> Method r = ''POST'' then 400 else 405) \<and>
    (client_status (wcalls es) = 200 \<longrightarrow>
       content (client (wcalls es)) = [MapBody ''level'' (level_string lv')] \<and> UnmarshalText (level_string lv') = Some lv') \<and>
    log_events es = (if asks r = None then [] else [L [] (RLevel audit) (RMessage audit) (RAttrs audit)]) \<and>
    lines (fst (log_call etext h lv' ([], audit) hp)) =
      (if lv' \<le> LevelWarn
       then [(LevelWarn, RMessage audit, line_attrs etext (source_attrs (CSource cfg) audit @ service_attrs cfg @ RAttrs audit))]
       else [])"
proof -
  note cs = LevelHandler_cases [OF assms(1)]
  have ok: "int64_ok (level_int lv')" using cs(1) assms(2) asks_ok by (auto split: option.splits)
  have status: "client_status (wcalls es) = 200 \<longleftrightarrow> Method r = ''GET'' \<or> asks r \<noteq> None" using cs(2) by auto
  have "lines (fst (log_call etext h lv' ([], audit) hp)) =
      (if lv' \<le> LevelWarn
       then [(LevelWarn, RMessage audit, line_attrs etext (source_attrs (CSource cfg) audit @ service_attrs cfg @ RAttrs audit))]
       else [])"
    using New_lines [OF assms(3), of etext "[]" audit hp] by (simp add: log_call_def passes_def assms(4))
  moreover have "log_events es = (if asks r = None then [] else [L [] (RLevel audit) (RMessage audit) (RAttrs audit)])"
    using cs(4) by (simp add: assms(4))
  ultimately show ?thesis using cs(1-3) status level_roundtrip [OF ok] by auto
qed


text \<open>The witness: raising the level to \<open>ERROR\<close>, which is accepted, calls the logger and leaves no line.\<close>

theorem level_endpoint_spec_witness:
  "let (es, lv) = LevelHandler sample_serve_env raise_request LevelInfo
   in lv = LevelError \<and> client_status (wcalls es) = 200 \<and>
      (\<exists>as. log_events es = [L [] LevelWarn ''log level changed at runtime'' as] \<and>
         (''to'', AStr (level_string LevelError)) \<in> set as \<and>
         lines (fst (log_call (\<lambda>_. []) (fst (logging_New sample_log_config [])) lv
           ([], \<lparr>RLevel = LevelWarn, RMessage = ''log level changed at runtime'', RTime = 0, RAttrs = as, RSource = ([], 0)\<rparr>)
           [new_sampleState 1 1000 True])) = [])"
proof -
  obtain es lv where r: "LevelHandler sample_serve_env raise_request LevelInfo = (es, lv)" by force
  have asks: "asks raise_request = Some LevelError"
  proof -
    have "UnmarshalText ''error'' = Some LevelError" by code_simp
    then show ?thesis by (simp add: asks_def raise_request_def query_get_def sample_request_def)
  qed
  have "int64_ok (level_int LevelInfo)" by (simp add: int64_ok_def)
  note sp = level_endpoint_spec [OF r this sample_logger refl, where etext = "\<lambda>_. []" and t = 0 and src = "([], 0)"
      and hp = "[new_sampleState 1 1000 True]"]
  from sp have lv: "lv = LevelError" using asks by simp
  have "(''to'', AStr (level_string LevelError)) \<in> set (audit_attrs raise_request LevelInfo lv)" by (simp add: audit_attrs_def lv)
  with sp lv asks r show ?thesis by simp
qed

end
