(* ===== verification/Service.thy ===== *)
theory Service
  imports Config
begin

text \<open>
  The life of the process: \<open>run\<close> and \<open>main\<close> of cmd/api/main.go and \<open>Open\<close> of
  internal/store/store.go. What each library call answers is a field of \<open>run_env\<close>; the model
  records, in order, the steps that acquire or release something or start or stop a component.
  Deferred calls run in reverse order on every return, so the closing of the pool and the final
  \<open>stop\<close> are appended to every path on which they were deferred. A goroutine that was started is
  waited for at \<open>WaitBackground\<close>, which returns because the loops end when the root context is
  cancelled.
\<close>

section \<open>Definitions\<close>

datatype life =
    NewRegistry
  | NewLogger
  | InitTracing "otel_call list"
  | RegisterMetrics
  | OpenPool
  | ClosePool
  | RegisterPool
  | MigrateSchema
  | BuildRouter
  | ListenAPI
  | ListenMetrics
  | CloseAPIListener
  | Logged string
  | StartWorker
  | StartBacklog
  | ServeAPI
  | ServeMetrics
  | StopSignals \<comment> \<open>\<open>stop()\<close>: cancels the root context\<close>
  | ShutdownAPI
  | WaitBackground
  | ShutdownMetrics
  | FlushTraces

record open_env =
  parse_url :: "goerr option"
  new_pool :: "goerr option"
  ping :: "goerr option"

definition Open :: "open_env \<Rightarrow> unit res \<times> life list" where
  "Open oe =
     (case parse_url oe of
        Some e \<Rightarrow> (Err (Wrap ''store: parse database url'' e), [])
      | None \<Rightarrow>
          (case new_pool oe of
             Some e \<Rightarrow> (Err (Wrap ''store: connect'' e), [])
           | None \<Rightarrow>
               (case ping oe of
                  Some e \<Rightarrow> (Err (Wrap ''store: ping'' e), [OpenPool, ClosePool])
                | None \<Rightarrow> (Ok (), [OpenPool]))))"

record run_env =
  loaded :: "Config res"
  the_sdk :: sdk
  pool_env :: open_env
  migrated :: "unit res"
  listen_api :: "goerr option"
  listen_metrics :: "goerr option"
  server_err :: "goerr option" \<comment> \<open>the first server to fail, \<^term>\<open>None\<close> when a signal came first\<close>
  api_shutdown :: "goerr option"
  metrics_shutdown :: "goerr option"

definition errors_Join :: "goerr option list \<Rightarrow> goerr option" where
  "errors_Join es = (let ers = List.map_filter id es in if ers = [] then None else Some (Join ers))"

text \<open>From the select on the servers and the signal to the return, with the deferred calls.\<close>

definition run_shutdown :: "run_env \<Rightarrow> Provider \<Rightarrow> unit res \<times> life list" where
  "run_shutdown e tp =
     (let wait = (case server_err e of Some er \<Rightarrow> [] | None \<Rightarrow> [Logged ''shutdown signal received'']);
          seq = wait @ [StopSignals, ShutdownAPI, WaitBackground, ShutdownMetrics, FlushTraces];
          err = errors_Join [server_err e, api_shutdown e, metrics_shutdown e, Provider_Shutdown (the_sdk e) tp]
      in case err of
           Some er \<Rightarrow> (Err er, seq @ [ClosePool, StopSignals])
         | None \<Rightarrow> (Ok (), seq @ [Logged ''shutdown complete'', ClosePool, StopSignals]))"

text \<open>From the open store on: migrate, bind both sockets, start, wait for the end.\<close>

definition run_opened :: "run_env \<Rightarrow> Config \<Rightarrow> Provider \<Rightarrow> unit res \<times> life list" where
  "run_opened e cfg tp =
     (let closing = [ClosePool, StopSignals];
          s1 = [RegisterPool, Logged ''connected to postgres'', MigrateSchema]
      in case migrated e of
           Err er \<Rightarrow> (Err er, s1 @ closing)
         | Panicked m \<Rightarrow> (Panicked m, s1 @ closing)
         | Ok _ \<Rightarrow>
             (let s2 = s1 @ [Logged ''migrations applied'', BuildRouter] in
              case listen_api e of
                Some er \<Rightarrow> (Err (Wrap (''api listener on '' @ HTTPAddr cfg) er), s2 @ closing)
              | None \<Rightarrow>
                  (case listen_metrics e of
                     Some er \<Rightarrow>
                       (Err (Wrap (''metrics listener on '' @ MetricsAddr cfg) er), s2 @ [ListenAPI, CloseAPIListener] @ closing)
                   | None \<Rightarrow>
                       (let s3 = s2 @ [ListenAPI, ListenMetrics, Logged ''api server listening'', Logged ''metrics server listening''];
                            bg = (if WorkerEnabled cfg then [StartWorker, StartBacklog] else []);
                            (r, s4) = run_shutdown e tp
                        in (r, s3 @ bg @ [ServeAPI, ServeMetrics] @ s4)))))"

definition run :: "run_env \<Rightarrow> unit res \<times> life list" where
  "run e =
     (case loaded e of
        Err er \<Rightarrow> (Err er, [])
      | Panicked m \<Rightarrow> (Panicked m, [])
      | Ok cfg \<Rightarrow>
          (let s0 = [NewRegistry, NewLogger] in
           case tracing_Init (the_sdk e) (run_tracing cfg) of
             (Err er, calls) \<Rightarrow> (Err er, s0 @ [InitTracing calls, StopSignals])
           | (Panicked m, calls) \<Rightarrow> (Panicked m, s0 @ [InitTracing calls, StopSignals])
           | (Ok tp, calls) \<Rightarrow>
               (let s1 = s0 @ [InitTracing calls, RegisterMetrics] in
                case Open (pool_env e) of
                  (Err er, os) \<Rightarrow> (Err er, s1 @ os @ [StopSignals])
                | (Panicked m, os) \<Rightarrow> (Panicked m, s1 @ os @ [StopSignals])
                | (Ok _, os) \<Rightarrow> (let (r, s2) = run_opened e cfg tp in (r, s1 @ os @ s2)))))"

text \<open>\<open>main\<close>: the exit code; an unrecovered panic ends a Go process with 2.\<close>

definition main_exit :: "run_env \<Rightarrow> int" where
  "main_exit e = (case fst (run e) of Err er \<Rightarrow> 1 | Ok _ \<Rightarrow> 0 | Panicked m \<Rightarrow> 2)"

subsection \<open>Order of steps\<close>

text \<open>Every \<open>b\<close> comes after an \<open>a\<close>.\<close>

definition after :: "'a list \<Rightarrow> 'a \<Rightarrow> 'a \<Rightarrow> bool" where
  "after es a b \<longleftrightarrow> b \<notin> set (takeWhile (\<lambda>x. x \<noteq> a) es)"

definition started :: "life list \<Rightarrow> bool" where
  "started es \<longleftrightarrow> ServeAPI \<in> set es"

text \<open>A start that got as far as the router.\<close>

definition routed :: "life list" where
  "routed = [RegisterPool, Logged ''connected to postgres'', MigrateSchema, Logged ''migrations applied'', BuildRouter]"

definition boot :: "otel_call list \<Rightarrow> life list" where
  "boot calls = [NewRegistry, NewLogger, InitTracing calls, RegisterMetrics, OpenPool] @ routed"

text \<open>The starts that fail: nowhere, tracing, the pool, its ping, the schema, one of the sockets.\<close>

definition failed_starts :: "otel_call list \<Rightarrow> life list list" where
  "failed_starts calls =
     [[],
      [NewRegistry, NewLogger, InitTracing calls, StopSignals],
      [NewRegistry, NewLogger, InitTracing calls, RegisterMetrics, StopSignals],
      [NewRegistry, NewLogger, InitTracing calls, RegisterMetrics, OpenPool, ClosePool, StopSignals],
      [NewRegistry, NewLogger, InitTracing calls, RegisterMetrics, OpenPool, RegisterPool,
       Logged ''connected to postgres'', MigrateSchema, ClosePool, StopSignals],
      boot calls @ [ClosePool, StopSignals],
      boot calls @ [ListenAPI, CloseAPIListener, ClosePool, StopSignals]]"

text \<open>A start whose second socket is taken.\<close>

definition taken_port :: "Config \<Rightarrow> run_env" where
  "taken_port cfg =
     \<lparr>loaded = Ok cfg, the_sdk = working_sdk, pool_env = \<lparr>parse_url = None, new_pool = None, ping = None\<rparr>, migrated = Ok (),
      listen_api = None, listen_metrics = Some (Plain ''address already in use''), server_err = None,
      api_shutdown = None, metrics_shutdown = None\<rparr>"

section \<open>Lemmas\<close>


lemma errors_Join_None: "errors_Join es = None \<longleftrightarrow> (\<forall>x \<in> set es. x = None)"
  by (induction es) (auto simp: errors_Join_def Let_def split: option.splits if_splits)

lemma run_shutdown_cases:
  obtains (ok) w where "run_shutdown e tp = (Ok (), w @ [StopSignals, ShutdownAPI, WaitBackground, ShutdownMetrics, FlushTraces,
      Logged ''shutdown complete'', ClosePool, StopSignals])" "w = [] \<or> w = [Logged ''shutdown signal received'']"
  | (err) w er where "run_shutdown e tp = (Err er, w @ [StopSignals, ShutdownAPI, WaitBackground, ShutdownMetrics, FlushTraces,
      ClosePool, StopSignals])" "w = [] \<or> w = [Logged ''shutdown signal received'']"
  by (cases "errors_Join [server_err e, api_shutdown e, metrics_shutdown e, Provider_Shutdown (the_sdk e) tp]";
      cases "server_err e") (auto simp: run_shutdown_def Let_def)

lemma run_opened_cases:
  assumes "run_opened e cfg tp = (q, s)"
  obtains (mig) "q \<noteq> Ok ()" "s = [RegisterPool, Logged ''connected to postgres'', MigrateSchema, ClosePool, StopSignals]"
  | (api) "q \<noteq> Ok ()" "s = routed @ [ClosePool, StopSignals]"
  | (met) "q \<noteq> Ok ()" "s = routed @ [ListenAPI, CloseAPIListener, ClosePool, StopSignals]"
  | (all) "q = fst (run_shutdown e tp)"
      "s = routed @ [ListenAPI, ListenMetrics, Logged ''api server listening'', Logged ''metrics server listening''] @
        (if WorkerEnabled cfg then [StartWorker, StartBacklog] else []) @ [ServeAPI, ServeMetrics] @ snd (run_shutdown e tp)"
proof (cases "migrated e")
  case (Ok u)
  show ?thesis
  proof (cases "listen_api e")
    case l: None
    show ?thesis
    proof (cases "listen_metrics e")
      case None
      then show ?thesis using all assms Ok l by (simp add: run_opened_def routed_def Let_def case_prod_beta)
    next
      case (Some er)
      then show ?thesis using met assms Ok l by (auto simp: run_opened_def routed_def Let_def)
    qed
  next
    case (Some er)
    then show ?thesis using api assms Ok by (auto simp: run_opened_def routed_def Let_def)
  qed
next
  case (Err er)
  then show ?thesis using assms by (intro mig) (auto simp: run_opened_def Let_def)
next
  case (Panicked m)
  then show ?thesis using assms by (intro mig) (auto simp: run_opened_def Let_def)
qed

lemma run_shapes:
  assumes "run e = (r, es)"
  obtains (failed) calls where "r \<noteq> Ok ()" "es \<in> set (failed_starts calls)"
  | (served) calls bg tp where "r = fst (run_shutdown e tp)" "bg = [] \<or> bg = [StartWorker, StartBacklog]"
      "es = boot calls @ [ListenAPI, ListenMetrics, Logged ''api server listening'', Logged ''metrics server listening''] @
        bg @ [ServeAPI, ServeMetrics] @ snd (run_shutdown e tp)"
proof (cases "loaded e")
  case (Ok cfg)
  obtain t calls where init: "tracing_Init (the_sdk e) (run_tracing cfg) = (t, calls)" by force
  show ?thesis
  proof (cases t)
    case t: (Ok tp)
    obtain x os where o: "Open (pool_env e) = (x, os)" by force
    show ?thesis
    proof (cases "x = Ok ()")
      case False
      then have "os = [] \<or> os = [OpenPool, ClosePool]" "r \<noteq> Ok ()"
          "es = [NewRegistry, NewLogger, InitTracing calls, RegisterMetrics] @ os @ [StopSignals]"
        using o assms Ok init t by (auto simp: Open_def run_def Let_def split: option.splits res.splits)
      then show ?thesis by (intro failed [of calls]) (auto simp: failed_starts_def)
    next
      case True
      obtain q s2 where op: "run_opened e cfg tp = (q, s2)" by force
      have "os = [OpenPool]" using o True by (auto simp: Open_def split: option.splits)
      then have es: "r = q" "es = [NewRegistry, NewLogger, InitTracing calls, RegisterMetrics, OpenPool] @ s2"
        using assms Ok init t o True op by (auto simp: run_def Let_def)
      from op show ?thesis
      proof (cases rule: run_opened_cases)
        case all
        then show ?thesis using es served [of tp "if WorkerEnabled cfg then [StartWorker, StartBacklog] else []" calls]
          by (auto simp: boot_def)
      qed (use es in \<open>auto intro!: failed [of calls] simp: failed_starts_def boot_def\<close>)
    qed
  next
    case (Err er)
    then show ?thesis using assms Ok init by (intro failed [of calls]) (auto simp: run_def failed_starts_def Let_def)
  next
    case (Panicked m)
    then show ?thesis using assms Ok init by (intro failed [of calls]) (auto simp: run_def failed_starts_def Let_def)
  qed
next
  case (Err er)
  then show ?thesis using assms by (intro failed [of "[]"]) (auto simp: run_def failed_starts_def)
next
  case (Panicked m)
  then show ?thesis using assms by (intro failed [of "[]"]) (auto simp: run_def failed_starts_def)
qed

lemma working_sdk_Init: "\<exists>tp calls. tracing_Init working_sdk c = (Ok tp, calls)"
proof -
  have "\<exists>x. newExporter working_sdk c = Ok x"
    by (cases "TExporter c") (simp_all add: newExporter_def working_sdk_def Let_def)
  moreover have "resource_merge working_sdk = None" by (simp add: working_sdk_def)
  ultimately show ?thesis by (auto simp: tracing_Init_def Let_def)
qed

lemma after_simps [simp]:
  "after [] a b"
  "after (x # es) a b \<longleftrightarrow> x = a \<or> (x \<noteq> b \<and> after es a b)"
proof -
  show "after (x # es) a b \<longleftrightarrow> x = a \<or> (x \<noteq> b \<and> after es a b)"
    by (cases "x = a"; cases "x = b") (auto simp: after_def)
qed (simp add: after_def)

lemma after_absent: "b \<notin> set es \<Longrightarrow> after es a b"
  by (auto simp: after_def dest: set_takeWhileD)

lemma after_prefix: "b \<notin> set ys \<Longrightarrow> after (ys @ zs) a b \<longleftrightarrow> a \<in> set ys \<or> after zs a b"
  by (induction ys) auto

lemmas boot_lists = boot_def routed_def

text \<open>
  (C35) The life of the process, whatever fails. The pool is closed exactly when it was opened, once
  and after it was opened; nothing is served and no background goroutine starts before the schema is
  migrated and both sockets are bound; once the servers run, every path to the end drains the API,
  waits for the background goroutines, stops the metrics server, flushes the traces and closes
  the pool, in this order; the process reports success exactly when it ran to the end without an
  error, and only then logs that the shutdown is complete. A start that fails serves nothing and
  returns an error; it does not flush the traces.
\<close>

theorem service_life_cycle:
  assumes "run e = (r, es)"
  shows "count_list es ClosePool = count_list es OpenPool \<and> count_list es OpenPool \<le> 1 \<and> after es OpenPool ClosePool \<and>
    (\<forall>x \<in> {StartWorker, StartBacklog, ServeAPI, ServeMetrics}.
       after es MigrateSchema x \<and> after es ListenAPI x \<and> after es ListenMetrics x) \<and>
    (if ServeAPI \<in> set es
     then filter (\<lambda>x. x \<in> {StartWorker, StartBacklog, ShutdownAPI, WaitBackground, ShutdownMetrics, FlushTraces, ClosePool}) es \<in>
       {[ShutdownAPI, WaitBackground, ShutdownMetrics, FlushTraces, ClosePool],
        [StartWorker, StartBacklog, ShutdownAPI, WaitBackground, ShutdownMetrics, FlushTraces, ClosePool]}
     else r \<noteq> Ok () \<and> (\<forall>x \<in> {StartWorker, StartBacklog, ServeMetrics, FlushTraces}. x \<notin> set es)) \<and>
    (r = Ok () \<longleftrightarrow> Logged ''shutdown complete'' \<in> set es) \<and> (main_exit e = 0 \<longleftrightarrow> r = Ok ())"
proof -
  have exit: "main_exit e = 0 \<longleftrightarrow> r = Ok ()" using assms by (simp add: main_exit_def split: res.split)
  from assms show ?thesis
  proof (cases rule: run_shapes)
    case (failed calls)
    have "count_list es ClosePool = count_list es OpenPool \<and> count_list es OpenPool \<le> 1 \<and> after es OpenPool ClosePool"
      "\<forall>x \<in> {StartWorker, StartBacklog, ServeAPI, ServeMetrics, FlushTraces, Logged ''shutdown complete''}. x \<notin> set es"
      using failed(2) by (auto simp: failed_starts_def boot_lists)
    then show ?thesis using failed(1) exit by (simp add: after_absent)
  next
    case (served calls bg tp)
    obtain w v where sd: "run_shutdown e tp = (r, w @ [StopSignals, ShutdownAPI, WaitBackground, ShutdownMetrics, FlushTraces] @ v)"
       "w = [] \<or> w = [Logged ''shutdown signal received'']"
       "v = [ClosePool, StopSignals] \<and> r \<noteq> Ok () \<or> v = [Logged ''shutdown complete'', ClosePool, StopSignals] \<and> r = Ok ()"
      using served(1) by (cases rule: run_shutdown_cases [of e tp]) auto
    have es: "es = boot calls @ [ListenAPI, ListenMetrics, Logged ''api server listening'', Logged ''metrics server listening''] @
        bg @ [ServeAPI, ServeMetrics] @ w @ [StopSignals, ShutdownAPI, WaitBackground, ShutdownMetrics, FlushTraces] @ v"
      using served(3) sd(1) by simp
    have pool: "count_list es ClosePool = 1 \<and> count_list es OpenPool = 1 \<and> after es OpenPool ClosePool"
      using sd(2,3) served(2) by (elim disjE conjE) (simp_all add: es boot_lists)
    have bound: "\<forall>x \<in> {StartWorker, StartBacklog, ServeAPI, ServeMetrics}.
        after es MigrateSchema x \<and> after es ListenAPI x \<and> after es ListenMetrics x" by (simp add: es boot_lists)
    have order: "filter (\<lambda>x. x \<in> {StartWorker, StartBacklog, ShutdownAPI, WaitBackground, ShutdownMetrics, FlushTraces, ClosePool}) es =
        bg @ [ShutdownAPI, WaitBackground, ShutdownMetrics, FlushTraces, ClosePool]"
      using sd(2,3) served(2) by (elim disjE conjE) (simp_all add: es boot_lists)
    have "r = Ok () \<longleftrightarrow> Logged ''shutdown complete'' \<in> set es"
      using sd(2,3) served(2) by (elim disjE conjE) (simp_all add: es boot_lists)
    moreover have "ServeAPI \<in> set es" by (simp add: es)
    ultimately show ?thesis using pool bound order served(2) exit by auto
  qed
qed


text \<open>The witness: the second socket is taken; the pool is closed and nothing was served.\<close>

theorem service_life_cycle_witness:
  "let es = snd (run (taken_port (load_literal Map.empty)))
   in OpenPool \<in> set es \<and> count_list es ClosePool = 1 \<and> FlushTraces \<notin> set es"
proof -
  let ?e = "taken_port (load_literal Map.empty)"
  obtain r es where run: "run ?e = (r, es)" by force
  note life = service_life_cycle [OF run]
  obtain tp calls where init: "tracing_Init working_sdk (run_tracing (load_literal Map.empty)) = (Ok tp, calls)"
    using working_sdk_Init by blast
  have "OpenPool \<in> set es" "ServeAPI \<notin> set es"
    using run init by (auto simp: run_def taken_port_def Open_def run_opened_def Let_def)
  moreover from this(1) have "count_list es OpenPool \<noteq> 0" by (simp add: count_list_0_iff)
  ultimately show ?thesis using life run by auto
qed

end
