(* ===== verification/Window.thy ===== *)
theory Window
  imports Prelude
begin

text \<open>
  The contract of a bounded history: adding an element that it admits appends it and forgets the
  oldest one when the history is full. The generator's ring of order ids and the alert sink's list of
  notifications both promise it.
\<close>

definition last_n :: "nat \<Rightarrow> 'a list \<Rightarrow> 'a list" where
  "last_n n xs = drop (length xs - n) xs"

lemma length_last_n [simp]: "length (last_n n xs) = min n (length xs)"
  by (auto simp: last_n_def)

lemma last_n_all [simp]: "length xs \<le> n \<Longrightarrow> last_n n xs = xs"
  by (simp add: last_n_def)

lemma last_n_snoc: "last_n n (last_n n xs @ [x]) = last_n n (xs @ [x])"
  by (cases "n \<le> length xs") (auto simp: last_n_def Suc_diff_le)

lemma set_last_n: "set (last_n n xs) \<subseteq> set xs"
  by (simp add: last_n_def set_drop_subset)

locale sliding_window =
  fixes add :: "'a \<Rightarrow> 's \<Rightarrow> 's"
    and view :: "'s \<Rightarrow> 'a list"
    and admits :: "'a \<Rightarrow> bool"
    and cap :: nat
    and inv :: "'s \<Rightarrow> bool"
  assumes inv_add: "inv s \<Longrightarrow> inv (add x s)"
    and bounded: "inv s \<Longrightarrow> length (view s) \<le> cap"
    and refused: "inv s \<Longrightarrow> \<not> admits x \<Longrightarrow> add x s = s"
    and added: "inv s \<Longrightarrow> admits x \<Longrightarrow> view (add x s) = last_n cap (view s @ [x])"
begin

lemma adds:
  assumes "inv s"
  shows "inv (fold add xs s) \<and> view (fold add xs s) = last_n cap (view s @ filter admits xs)"
  using assms
proof (induction xs rule: rev_induct)
  case (snoc x xs)
  then show ?case
    by (cases "admits x") (auto simp: inv_add refused added last_n_snoc simp flip: append_assoc)
qed (simp add: bounded)

lemma window_bounded: "inv s \<Longrightarrow> length (view (fold add xs s)) \<le> cap"
  using adds bounded by blast

lemma window_elements: "inv s \<Longrightarrow> x \<in> set (view (fold add xs s)) \<Longrightarrow> x \<in> set (view s) \<or> (x \<in> set xs \<and> admits x)"
  using adds [of s xs] set_last_n [of cap "view s @ filter admits xs"] by auto

end

end
