(* ===== verification/Alert_Sink.thy ===== *)
theory Alert_Sink
  imports Window
begin

text \<open>
  cmd/alertsink/main.go: the receiver of Alertmanager webhooks. The decoded body is an argument,
  \<^term>\<open>None\<close> when it is not valid JSON. A map of labels is the association list in the order in
  which Go's \<open>range\<close> delivers it; a missing key reads as the empty string. What is printed to the
  terminal is a list of lines, by their kinds and contents, without the escape codes and the padding
  between them. \<open>handle\<close> appends to the history in a critical section, so any interleaving of
  webhooks is a sequence of them. Listening and shutting down are left out.
\<close>

section \<open>Definitions\<close>

type_synonym labels = "(string \<times> string) list"

record alert =
  AStatus :: string
  Labels :: labels
  Annotations :: labels
  StartsAt :: time
  EndsAt :: time
  GeneratorURL :: string
  Fingerprint :: string

record payload =
  Version :: string
  GroupKey :: string
  PStatus :: string
  Receiver :: string
  GroupLabels :: labels
  CommonLabels :: labels
  CommonAnnotations :: labels
  ExternalURL :: string
  Alerts :: "alert list"

record notification =
  At :: time
  Route :: string
  NStatus :: string
  NReceiver :: string
  NGroupKey :: string
  Count :: nat
  Names :: "string list"

record sink =
  history :: "notification list"
  smax :: nat

datatype colour = Red | Green | Yellow

datatype sink_line =
    Banner colour string string string nat \<comment> \<open>marker, receiver, route, number of alerts\<close>
  | GroupedBy string
  | AlertLine string string \<comment> \<open>name and summary\<close>
  | Description string
  | Runbook string
  | OtherLabels string
  | FiringFor duration

definition label_of :: "labels \<Rightarrow> string \<Rightarrow> string" where
  "label_of m k = (case map_of m k of Some v \<Rightarrow> v | None \<Rightarrow> [])"

definition fmtLabels :: "labels \<Rightarrow> string" where
  "fmtLabels m = join '' '' (map (\<lambda>k. k @ ''='' @ label_of m k) (sort (map fst m)))"

fun dedupe_loop :: "string set \<Rightarrow> string list \<Rightarrow> string list" where
  "dedupe_loop seen [] = []"
| "dedupe_loop seen (s # ss) =
     (if s \<notin> seen then s # dedupe_loop (insert s seen) ss else dedupe_loop seen ss)"

definition dedupe :: "string list \<Rightarrow> string list" where
  "dedupe xs = dedupe_loop {} xs"

definition extra_labels :: "alert \<Rightarrow> labels" where
  "extra_labels a = filter (\<lambda>(k, v). k \<noteq> ''alertname'' \<and> k \<noteq> ''job'' \<and> k \<noteq> ''service'') (Labels a)"

text \<open>The lines of one alert; \<open>now\<close> is read for a firing one, and its age rounded to the second.\<close>

definition alert_lines :: "time \<Rightarrow> alert \<Rightarrow> sink_line list" where
  "alert_lines now a =
     [AlertLine (label_of (Labels a) ''alertname'') (label_of (Annotations a) ''summary'')] @
     (let d = label_of (Annotations a) ''description'' in if d \<noteq> [] then [Description d] else []) @
     (let rb = label_of (Annotations a) ''runbook_url'' in if rb \<noteq> [] then [Runbook rb] else []) @
     (if extra_labels a \<noteq> [] then [OtherLabels (fmtLabels (extra_labels a))] else []) @
     (if AStatus a = ''firing'' then [FiringFor (duration_round (time_sub now (StartsAt a)) Second)] else [])"

record post_env =
  decoded_payload :: "payload option"
  route_param :: string \<comment> \<open>\<open>r.URL.Query().Get("route")\<close>\<close>
  print_now :: "nat \<Rightarrow> time" \<comment> \<open>the clock, when the alert of that index is printed\<close>
  stored_at :: time

definition sink_route :: "post_env \<Rightarrow> string" where
  "sink_route e = (if route_param e = [] then ''default'' else route_param e)"

definition sink_record :: "post_env \<Rightarrow> payload \<Rightarrow> notification" where
  "sink_record e p =
     \<lparr>At = stored_at e, Route = sink_route e, NStatus = PStatus p, NReceiver = Receiver p, NGroupKey = GroupKey p,
      Count = length (Alerts p), Names = map (\<lambda>a. label_of (Labels a) ''alertname'') (Alerts p)\<rparr>"

text \<open>The critical section at the end of \<open>handle\<close>.\<close>

definition sink_append :: "notification \<Rightarrow> sink \<Rightarrow> sink" where
  "sink_append n s =
     (let h = history s @ [n]
      in s\<lparr>history := (if length h > smax s then drop (length h - smax s) h else h)\<rparr>)"

text \<open>\<open>handle\<close>: the status of the answer, what is printed, and the sink afterwards.\<close>

definition sink_handle :: "post_env \<Rightarrow> sink \<Rightarrow> int \<times> sink_line list \<times> sink" where
  "sink_handle e s =
     (case decoded_payload e of
        None \<Rightarrow> (400, [], s)
      | Some p \<Rightarrow>
          (let firing = (PStatus p = ''firing'');
               col = (if firing then (if sink_route e = ''ticket'' then Yellow else Red) else Green);
               marker = (if firing then ''FIRING'' else ''RESOLVED'')
           in (200,
               [Banner col marker (Receiver p) (sink_route e) (length (Alerts p))] @
               (if GroupLabels p \<noteq> [] then [GroupedBy (fmtLabels (GroupLabels p))] else []) @
               concat (map (\<lambda>(i, a). alert_lines (print_now e i) a) (List.enumerate 0 (Alerts p))),
               sink_append (sink_record e p) s)))"

text \<open>\<open>list\<close>: the rows of the history page, newest first; \<^term>\<open>None\<close> is the page without any.\<close>

definition sink_row :: "notification \<Rightarrow> time \<times> string \<times> string \<times> nat \<times> string" where
  "sink_row r = (At r, NStatus r, Route r, Count r, join '', '' (dedupe (Names r)))"

definition sink_list :: "sink \<Rightarrow> (time \<times> string \<times> string \<times> nat \<times> string) list option" where
  "sink_list s =
     (if history s = [] then None
      else Some (map (\<lambda>i. sink_row (history s ! i)) (rev [0..<length (history s)])))"

definition new_sink :: sink where
  "new_sink = \<lparr>history = [], smax = 200\<rparr>"

fun sink_posts :: "post_env list \<Rightarrow> sink \<Rightarrow> sink" where
  "sink_posts [] s = s"
| "sink_posts (e # es) s = sink_posts es (snd (snd (sink_handle e s)))"

definition accepted_posts :: "post_env list \<Rightarrow> notification list" where
  "accepted_posts es = concat (map (\<lambda>e. case decoded_payload e of None \<Rightarrow> [] | Some p \<Rightarrow> [sink_record e p]) es)"

text \<open>The routes of \<open>main\<close>: the mux answers a path that exists under other methods with 405.\<close>

datatype sink_endpoint = Deliver | HistoryPage | Health | NotAllowed "string list"

definition sink_match :: "string \<Rightarrow> string list \<Rightarrow> sink_endpoint" where
  "sink_match m segs =
     (if segs = [''alerts''] \<and> m = ''POST'' then Deliver
      else if m = ''GET'' \<or> m = ''HEAD'' then (if segs = [''healthz''] then Health else HistoryPage)
      else NotAllowed (if segs = [''alerts''] then [''GET'', ''HEAD'', ''POST''] else [''GET'', ''HEAD'']))"

text \<open>
  \<open>main\<close> after the routes: what it prints and the exit status. A signal closes the server, and
  \<open>ErrServerClosed\<close> is a normal end; any other error of \<open>ListenAndServe\<close> is fatal.
\<close>

datatype sink_stop = Signalled | ServeFails string

definition sink_main :: "string \<Rightarrow> sink_stop \<Rightarrow> string list \<times> int" where
  "sink_main addr stop =
     (let banner = [''alertsink listening on '' @ addr, ''waiting for Alertmanager webhooks... (GET / for history)''] in
      case stop of
        Signalled \<Rightarrow> (banner @ [''shutting down''], 0)
      | ServeFails e \<Rightarrow> (banner @ [e], 1))"

definition sample_post :: post_env where
  "sample_post =
     \<lparr>decoded_payload = Some
        \<lparr>Version = ''4'', GroupKey = ''k'', PStatus = ''firing'', Receiver = ''pager'', GroupLabels = [],
         CommonLabels = [], CommonAnnotations = [], ExternalURL = [],
         Alerts = [\<lparr>AStatus = ''firing'', Labels = [(''alertname'', ''HighErrorRate'')], Annotations = [],
           StartsAt = 0, EndsAt = 0, GeneratorURL = [], Fingerprint = ''f1''\<rparr>]\<rparr>,
      route_param = [], print_now = (\<lambda>_. 1500000000), stored_at = 1600000000\<rparr>"

section \<open>Lemmas\<close>

interpretation sink_window: sliding_window sink_append history "\<lambda>_. True" "smax (s0 :: sink)"
  "\<lambda>s. smax s = smax s0 \<and> length (history s) \<le> smax s0" for s0
  by unfold_locales (auto simp: sink_append_def last_n_def Let_def)

lemma sink_posts_fold: "sink_posts es s = fold sink_append (accepted_posts es) s"
  by (induction es arbitrary: s) (auto simp: accepted_posts_def sink_handle_def Let_def split: option.splits)

lemma dedupe_loop_set: "set (dedupe_loop seen xs) = set xs - seen"
  by (induction seen xs rule: dedupe_loop.induct) auto

lemma dedupe_loop_distinct: "distinct (dedupe_loop seen xs)"
  by (induction seen xs rule: dedupe_loop.induct) (auto simp: dedupe_loop_set)

lemma map_nth_index: "map (\<lambda>i. f (xs ! i)) (rev [0..<length xs]) = rev (map f xs)"
proof -
  have "map (\<lambda>i. f (xs ! i)) [0..<length xs] = map f xs" by (rule nth_equalityI) auto
  then show ?thesis by (simp add: rev_map [symmetric])
qed

lemma sink_list_rev:
  "sink_list s = (if history s = [] then None else Some (rev (map sink_row (history s))))"
  by (simp only: sink_list_def map_nth_index)

lemma sink_history: "history (sink_posts es new_sink) = last_n 200 (accepted_posts es)"
  using sink_window.adds [of new_sink new_sink "accepted_posts es"] by (simp add: sink_posts_fold new_sink_def)

lemma last_n_Nil_iff: "0 < n \<Longrightarrow> last_n n xs = [] \<longleftrightarrow> xs = []"
  by (cases xs) (auto simp: last_n_def)

text \<open>
  (C36) The alert sink keeps the last 200 notifications. Whatever sequence of webhooks arrives, the
  history is the last 200 of those whose body was decoded, in the order of arrival, with the route,
  status and alert names of each; a body that does not decode is answered with 400, prints nothing and
  changes nothing, any other is answered with 200. The page lists the history newest first, each
  notification with the names of its alerts, every name once.
\<close>

theorem sink_keeps_last:
  "history (sink_posts es new_sink) = last_n 200 (accepted_posts es) \<and>
   (decoded_payload e = None \<longrightarrow> sink_handle e s = (400, [], s)) \<and>
   (decoded_payload e = Some p \<longrightarrow>
      (\<exists>out. sink_handle e s = (200, out, sink_append (sink_record e p) s)) \<and>
      Names (sink_record e p) = map (\<lambda>a. label_of (Labels a) ''alertname'') (Alerts p)) \<and>
   sink_list (sink_posts es new_sink) =
     (if accepted_posts es = [] then None else Some (rev (map sink_row (last_n 200 (accepted_posts es))))) \<and>
   sink_row r = (At r, NStatus r, Route r, Count r, join '', '' (dedupe (Names r))) \<and>
   distinct (dedupe xs) \<and> set (dedupe xs) = set xs"
  by (auto simp: sink_history sink_list_rev last_n_Nil_iff sink_handle_def sink_record_def sink_row_def dedupe_def Let_def
        dedupe_loop_set dedupe_loop_distinct)

theorem sink_keeps_last_witness:
  "sink_handle sample_post new_sink =
     (200, [Banner Red ''FIRING'' ''pager'' ''default'' 1, AlertLine ''HighErrorRate'' [], FiringFor (2 * Second)],
      new_sink\<lparr>history := [sink_record sample_post (the (decoded_payload sample_post))]\<rparr>) \<and>
   length (history (sink_posts (replicate 3 sample_post) new_sink)) = 3"
  using sink_keeps_last [of "replicate 3 sample_post" sample_post new_sink
      "the (decoded_payload sample_post)"]
  by (simp add: sink_handle_def sample_post_def new_sink_def sink_append_def sink_record_def sink_route_def alert_lines_def
      label_of_def extra_labels_def duration_round_def time_sub_def accepted_posts_def numeral_3_eq_3 wrap64_def)

end
