(* ===== verification/Loadgen.thy ===== *)
theory Loadgen
  imports Window Order_Json Go_Numbers "HOL-Library.AList"
begin

text \<open>
  cmd/loadgen/main.go: the synthetic traffic generator. A source of random numbers is a stream of
  draws with a position; the server and the transport are an argument of the
  operations. The recorded counts are association lists, which the report sorts by their keys, so the
  order of Go's map does not matter. Each operation on the ring and on the results is a critical
  section. The ticker, the channel and the workers are a step relation. Flag parsing, the HTTP
  client's settings and the padding of the report are left out.
\<close>

section \<open>Definitions\<close>

subsection \<open>Operations and random draws\<close>

datatype opKind =
  opCreate | opGet | opList | opGetMissing | opBadPayload | opBadUUID | opUnknownPath | opSlow

fun op_name :: "opKind \<Rightarrow> string" where
  "op_name opCreate = ''create''"
| "op_name opGet = ''get''"
| "op_name opList = ''list''"
| "op_name opGetMissing = ''get_missing_404''"
| "op_name opBadPayload = ''bad_payload_422''"
| "op_name opBadUUID = ''bad_uuid_400''"
| "op_name opUnknownPath = ''unknown_path_404''"
| "op_name opSlow = ''slow_query''"

definition mix :: "(opKind \<times> nat) list" where
  "mix =
     [(opCreate, 35), (opGet, 28), (opList, 15), (opGetMissing, 8), (opBadPayload, 7), (opBadUUID, 4),
      (opUnknownPath, 3)]"

record rand =
  draws :: "nat \<Rightarrow> nat"
  unit_draws :: "nat \<Rightarrow> rat" \<comment> \<open>\<open>Float64\<close>\<close>
  drawn :: nat

definition Intn :: "nat \<Rightarrow> rand \<Rightarrow> nat \<times> rand" where
  "Intn n r = (draws r (drawn r) mod n, r\<lparr>drawn := Suc (drawn r)\<rparr>)"

definition Float64 :: "rand \<Rightarrow> rat \<times> rand" where
  "Float64 r = (unit_draws r (drawn r), r\<lparr>drawn := Suc (drawn r)\<rparr>)"

fun pick_loop :: "(opKind \<times> nat) list \<Rightarrow> nat \<Rightarrow> opKind" where
  "pick_loop [] n = opCreate"
| "pick_loop ((k, w) # ms) n = (if n < w then k else pick_loop ms (n - w))"

definition pick :: "rand \<Rightarrow> opKind \<times> rand" where
  "pick r =
     (let total = foldl (\<lambda>t (k, w). t + w) 0 mix;
          (n, r') = Intn total r
      in (pick_loop mix n, r'))"

fun random_bytes :: "nat \<Rightarrow> rand \<Rightarrow> 8 word list \<times> rand" where
  "random_bytes 0 r = ([], r)"
| "random_bytes (Suc k) r =
     (let (n, r1) = Intn 256 r; (bs, r2) = random_bytes k r1 in (word_of_nat n # bs, r2))"

text \<open>\<open>%x\<close> of a byte slice: two lower-case digits for each byte.\<close>

definition hex_bytes :: "8 word list \<Rightarrow> string" where
  "hex_bytes bs = concat (map (\<lambda>b. [hex_char (unat b div 16), hex_char (unat b mod 16)]) bs)"

unbundle bit_operations_syntax

definition randomUUID :: "rand \<Rightarrow> string \<times> rand" where
  "randomUUID r =
     (let (b0, r') = random_bytes 16 r;
          b1 = b0[6 := (b0 ! 6 AND 0x0f) OR 0x40];
          b = b1[8 := (b1 ! 8 AND 0x3f) OR 0x80]
      in (hex_bytes (take 4 b) @ ''-'' @ hex_bytes (take 2 (drop 4 b)) @ ''-'' @ hex_bytes (take 2 (drop 6 b)) @
          ''-'' @ hex_bytes (take 2 (drop 8 b)) @ ''-'' @ hex_bytes (drop 10 b), r'))"

subsection \<open>The ring of order ids\<close>

record idRing =
  buf :: "string list"
  next_slot :: nat
  ring_cap :: nat \<comment> \<open>\<open>cap(r.buf)\<close>\<close>

definition newIDRing :: "nat \<Rightarrow> idRing" where
  "newIDRing n = \<lparr>buf = [], next_slot = 0, ring_cap = n\<rparr>"

definition ring_add :: "string \<Rightarrow> idRing \<Rightarrow> idRing" where
  "ring_add x r =
     (if x = [] then r
      else if length (buf r) < ring_cap r then r\<lparr>buf := buf r @ [x]\<rparr>
      else r\<lparr>buf := (buf r)[next_slot r := x], next_slot := (next_slot r + 1) mod ring_cap r\<rparr>)"

definition ring_random :: "rand \<Rightarrow> idRing \<Rightarrow> string option \<times> rand" where
  "ring_random g r =
     (if buf r = [] then (None, g)
      else let (i, g') = Intn (length (buf r)) g in (Some (buf r ! i), g'))"

subsection \<open>Results\<close>

record stat =
  stat_count :: nat
  stat_codes :: "(int \<times> nat) list"

record results =
  byKind :: "(opKind \<times> stat) list"
  byCode :: "(int \<times> nat) list"
  latencies :: "duration list"

definition newResults :: results where
  "newResults = \<lparr>byKind = [], byCode = [], latencies = []\<rparr>"

definition tally :: "('k \<times> nat) list \<Rightarrow> 'k \<Rightarrow> nat" where
  "tally m k = (case map_of m k of Some n \<Rightarrow> n | None \<Rightarrow> 0)"

definition bump :: "'k \<Rightarrow> ('k \<times> nat) list \<Rightarrow> ('k \<times> nat) list" where
  "bump k m = AList.update k (tally m k + 1) m"

definition new_stat :: stat where
  "new_stat = \<lparr>stat_count = 0, stat_codes = []\<rparr>"

definition stat_of :: "results \<Rightarrow> opKind \<Rightarrow> stat" where
  "stat_of r k = (case map_of (byKind r) k of Some s \<Rightarrow> s | None \<Rightarrow> new_stat)"

definition record_result :: "opKind \<times> int \<times> duration \<Rightarrow> results \<Rightarrow> results" where
  "record_result x r =
     (case x of (k, c, d) \<Rightarrow>
       let s = stat_of r k
       in \<lparr>byKind = AList.update k \<lparr>stat_count = stat_count s + 1, stat_codes = bump c (stat_codes s)\<rparr> (byKind r),
           byCode = bump c (byCode r),
           latencies = latencies r @ [d]\<rparr>)"

subsection \<open>Percentiles and the report\<close>

definition pct :: "duration list \<Rightarrow> rat \<Rightarrow> duration res" where
  "pct xs p =
     (if xs = [] then Ok 0
      else let i = trunc (f64 (f64 (of_nat (length xs - 1)) * p))
           in if 0 \<le> i \<and> i < int (length xs) then Ok (duration_round (xs ! nat i) Microsecond)
              else Panicked ''index out of range'')"

record report =
  rows :: "(string \<times> nat \<times> string) list" \<comment> \<open>kind, count, codes\<close>
  total_requests :: nat
  dropped_ticks :: "nat option"
  percentiles :: "duration list option"

definition code_parts :: "(int \<times> nat) list \<Rightarrow> string" where
  "code_parts cs =
     concat (map (\<lambda>c. '' '' @ (if c = 0 then ''ERR'' else itoa c) @ ''='' @ decimal (tally cs c)) (sort (map fst cs)))"

definition kind_of_name :: "string \<Rightarrow> opKind option" where
  "kind_of_name n = map_of (map (\<lambda>k. (op_name k, k)) (map fst mix @ [opSlow])) n"

fun pcts :: "duration list \<Rightarrow> rat list \<Rightarrow> duration list res" where
  "pcts xs [] = Ok []"
| "pcts xs (p # ps) = res_bind (pct xs p) (\<lambda>v. res_bind (pcts xs ps) (\<lambda>vs. Ok (v # vs)))"

text \<open>The fractions, as the compiler rounds them to \<open>float64\<close>.\<close>

definition report_fractions :: "rat list" where
  "report_fractions = [f64 (50 / 100), f64 (90 / 100), f64 (95 / 100), f64 (99 / 100)]"

definition print_results :: "nat \<Rightarrow> results \<Rightarrow> report res" where
  "print_results dropped r =
     (let kinds = sort (map (op_name \<circ> fst) (byKind r));
          stats = map (\<lambda>k. (k, stat_of r (the (kind_of_name k)))) kinds;
          rep = \<lparr>rows = map (\<lambda>(k, s). (k, stat_count s, code_parts (stat_codes s))) stats,
                 total_requests = foldl (\<lambda>t (k, s). t + stat_count s) 0 stats,
                 dropped_ticks = (if dropped > 0 then Some dropped else None),
                 percentiles = None\<rparr>
      in if latencies r = [] then Ok rep
         else let ls = sort (latencies r)
              in res_bind (pcts ls report_fractions)
                   (\<lambda>vs. Ok (rep\<lparr>percentiles := Some (vs @ [duration_round (last ls) Microsecond])\<rparr>)))"

subsection \<open>Requests\<close>

text \<open>A request; a nil body is \<^term>\<open>None\<close>.\<close>

record sent =
  sent_method :: string
  sent_url :: string
  sent_body :: "string option"

datatype reply = BadRequest | TransportError duration | Reply int string duration

record generator =
  base :: string
  ids :: idRing
  res_of :: results
  slowFrac :: gofloat
  slowDelay :: duration

text \<open>
  \<open>request\<close>: what is sent and the status, the body and the latency. \<^term>\<open>BadRequest\<close> is a URL that
  \<open>NewRequestWithContext\<close> rejects; at most a mebibyte of the body is read.
\<close>

definition gen_request :: "(sent \<Rightarrow> reply) \<Rightarrow> generator \<Rightarrow> string \<Rightarrow> string \<Rightarrow> string option \<Rightarrow> sent \<times> int \<times> string \<times> duration" where
  "gen_request net g method path body =
     (let q = \<lparr>sent_method = method, sent_url = base g @ path, sent_body = body\<rparr>
      in case net q of
           BadRequest \<Rightarrow> (q, 0, [], 0)
         | TransportError d \<Rightarrow> (q, 0, [], d)
         | Reply code out d \<Rightarrow> (q, code, take (2 ^ 20) out, d))"

definition pad4 :: "nat \<Rightarrow> string" where
  "pad4 n = replicate (4 - length (decimal n)) (CHR ''0'') @ decimal n"

text \<open>The end of \<open>do\<close> and of \<open>doCreate\<close>: the result is recorded and a created id is kept.\<close>

definition finish_request :: "opKind \<Rightarrow> sent \<times> int \<times> string \<times> duration \<Rightarrow> generator \<Rightarrow> generator \<times> sent" where
  "finish_request k x g =
     (case x of (q, code, out, d) \<Rightarrow>
       let g1 = g\<lparr>res_of := record_result (k, code, d) (res_of g)\<rparr>
       in (if k = opCreate \<and> code = 201 then g1\<lparr>ids := ring_add (extractID out) (ids g1)\<rparr> else g1, q))"

text \<open>The customer and the amount of a new order, in the order of the draws.\<close>

definition order_draws :: "rand \<Rightarrow> (string \<times> int) \<times> rand" where
  "order_draws r = (let (c, r1) = Intn 500 r; (a, r2) = Intn 50000 r1 in ((''cust-'' @ pad4 c, 100 + int a), r2))"

definition doCreate :: "(sent \<Rightarrow> reply) \<Rightarrow> rand \<Rightarrow> generator \<Rightarrow> (generator \<times> sent) \<times> rand" where
  "doCreate net r g =
     (let ((c, a), r') = order_draws r
      in (finish_request opCreate
            (gen_request net g ''POST'' ''/orders''
              (Some (order_text \<lparr>NewCustomerID = c, NewAmountCents = a, NewCurrency = ''USD''\<rparr>))) g, r'))"

text \<open>The literal of the bad payload.\<close>

definition dq :: "string \<Rightarrow> string" where
  "dq s = CHR 0x22 # s @ [CHR 0x22]"

definition bad_payload :: string where
  "bad_payload =
     ''{'' @ dq ''customer_id'' @ '':'' @ dq [] @ '','' @ dq ''amount_cents'' @ '':0,'' @ dq ''currency'' @ '':'' @ dq ''US'' @ ''}''"

text \<open>The kind of the request: saturation traffic is drawn independently of the mix.\<close>

definition choose_kind :: "generator \<Rightarrow> rand \<Rightarrow> opKind \<times> rand" where
  "choose_kind g r =
     (let (k, r1) = pick r
      in if flt_less (Finite 0) (slowFrac g)
         then (let (u, r2) = Float64 r1 in (if flt_less (Finite u) (slowFrac g) then opSlow else k, r2))
         else (k, r1))"

definition gen_do :: "(sent \<Rightarrow> reply) \<Rightarrow> rand \<Rightarrow> generator \<Rightarrow> (generator \<times> sent) \<times> rand" where
  "gen_do net r g =
     (let (k, r2) = choose_kind g r;
          send = (\<lambda>method path body r'. (finish_request k (gen_request net g method path body) g, r'))
      in case k of
           opCreate \<Rightarrow>
             (let ((c, a), r3) = order_draws r2;
                  (i, r4) = Intn 4 r3
              in send ''POST'' ''/orders''
                   (Some (order_text \<lparr>NewCustomerID = c, NewAmountCents = a,
                               NewCurrency = [''USD'', ''EUR'', ''GBP'', ''INR''] ! i\<rparr>)) r4)
         | opGet \<Rightarrow>
             (case ring_random r2 (ids g) of
                (None, r3) \<Rightarrow> doCreate net r3 g
              | (Some i, r3) \<Rightarrow> send ''GET'' (''/orders/'' @ i) None r3)
         | opList \<Rightarrow>
             (let statuses = ['''', ''&status=pending'', ''&status=paid'', ''&status=failed''];
                  (l, r3) = Intn 40 r2;
                  (f, r4) = Intn 3 r3;
                  (s, r5) = Intn (length statuses) r4
              in send ''GET'' (''/orders?limit='' @ decimal (10 + l) @ ''&offset='' @ decimal (f * 10) @ statuses ! s) None r5)
         | opGetMissing \<Rightarrow> (let (u, r3) = randomUUID r2 in send ''GET'' (''/orders/'' @ u) None r3)
         | opBadPayload \<Rightarrow>
             send ''POST'' ''/orders'' (Some bad_payload) r2
         | opBadUUID \<Rightarrow> send ''GET'' ''/orders/not-a-uuid'' None r2
         | opUnknownPath \<Rightarrow> send ''GET'' ''/does-not-exist'' None r2
         | opSlow \<Rightarrow> send ''GET'' (''/debug/slow?d='' @ duration_string (slowDelay g)) None r2)"

subsection \<open>The start and the tick loop of main\<close>

record flags =
  flag_url :: string
  flag_rate :: int
  flag_duration :: duration
  flag_workers :: int
  flag_slow :: gofloat
  flag_slow_delay :: duration

datatype launch =
    Exits int string
  | TickerPanics \<comment> \<open>\<open>NewTicker\<close> refuses an interval that is not positive\<close>
  | Launches generator duration nat nat \<comment> \<open>interval, capacity of the channel, workers\<close>

definition loadgen_start :: "flags \<Rightarrow> launch" where
  "loadgen_start f =
     (if flt_less (flag_slow f) (Finite 0) \<or> flt_less (Finite 1) (flag_slow f)
        then Exits 2 ''-slow must be between 0 and 1''
      else if flag_rate f < 1 then Exits 2 ''rate must be >= 1''
      else
        (let interval = Second div flag_rate f
         in if interval \<le> 0 then TickerPanics
            else Launches
                   \<lparr>base = flag_url f, ids = newIDRing 2048, res_of = newResults, slowFrac = flag_slow f,
                    slowDelay = flag_slow_delay f\<rparr>
                   interval (nat (flag_rate f)) (nat (flag_workers f))))"

record run_state =
  capacity :: nat
  workers :: nat
  ticked :: nat \<comment> \<open>ticks taken from the ticker\<close>
  dropped :: nat
  queued :: nat
  idle :: nat
  busy :: nat \<comment> \<open>workers inside \<open>do\<close>\<close>
  exited :: nat
  is_closed :: bool
  run_results :: results

definition run_start :: "nat \<Rightarrow> nat \<Rightarrow> run_state" where
  "run_start c w =
     \<lparr>capacity = c, workers = w, ticked = 0, dropped = 0, queued = 0, idle = w, busy = 0, exited = 0,
      is_closed = False, run_results = newResults\<rparr>"

text \<open>
  The steps: the main loop takes a tick and sends it or drops it, a worker receives one, a worker
  records the outcome of a request, the context ends and the channel is closed, a worker leaves its
  loop when the channel is closed and drained.
\<close>

inductive run_step :: "run_state \<Rightarrow> run_state \<Rightarrow> bool" where
  Tick_sent: "\<not> is_closed s \<Longrightarrow> queued s < capacity s \<Longrightarrow>
    run_step s (s\<lparr>ticked := ticked s + 1, queued := queued s + 1\<rparr>)"
| Tick_dropped: "\<not> is_closed s \<Longrightarrow> \<not> queued s < capacity s \<Longrightarrow>
    run_step s (s\<lparr>ticked := ticked s + 1, dropped := dropped s + 1\<rparr>)"
| Receive: "0 < queued s \<Longrightarrow> 0 < idle s \<Longrightarrow>
    run_step s (s\<lparr>queued := queued s - 1, idle := idle s - 1, busy := busy s + 1\<rparr>)"
| Complete: "0 < busy s \<Longrightarrow>
    run_step s (s\<lparr>busy := busy s - 1, idle := idle s + 1, run_results := record_result x (run_results s)\<rparr>)"
| Close: "\<not> is_closed s \<Longrightarrow> run_step s (s\<lparr>is_closed := True\<rparr>)"
| Leave: "is_closed s \<Longrightarrow> queued s = 0 \<Longrightarrow> 0 < idle s \<Longrightarrow>
    run_step s (s\<lparr>idle := idle s - 1, exited := exited s + 1\<rparr>)"

text \<open>\<open>wg.Wait\<close> returns, and the report is printed.\<close>

definition run_finished :: "run_state \<Rightarrow> bool" where
  "run_finished s \<longleftrightarrow> is_closed s \<and> exited s = workers s"

subsection \<open>Specification\<close>

text \<open>The ids of the ring, oldest first, and the invariant of a ring of capacity \<open>n\<close>.\<close>

definition ring_view :: "idRing \<Rightarrow> string list" where
  "ring_view r = drop (next_slot r) (buf r) @ take (next_slot r) (buf r)"

definition ring_inv :: "nat \<Rightarrow> idRing \<Rightarrow> bool" where
  "ring_inv n r \<longleftrightarrow>
     ring_cap r = n \<and> length (buf r) \<le> n \<and> next_slot r < n \<and> (length (buf r) < n \<longrightarrow> next_slot r = 0)"

text \<open>What a request of each kind looks like.\<close>

definition request_fits :: "generator \<Rightarrow> opKind \<Rightarrow> sent \<Rightarrow> bool" where
  "request_fits g k q =
     (case k of
        opCreate \<Rightarrow> sent_method q = ''POST'' \<and> sent_url q = base g @ ''/orders'' \<and>
          (\<exists>n. sent_body q = Some (order_text n) \<and> decode_order (order_text n) = Some n \<and> Validate n = None \<and>
             text_ok (NewCustomerID n))
      | opGet \<Rightarrow> sent_method q = ''GET'' \<and> sent_body q = None \<and>
          (\<exists>i \<in> set (buf (ids g)). sent_url q = base g @ ''/orders/'' @ i)
      | opList \<Rightarrow> sent_method q = ''GET'' \<and> sent_body q = None \<and>
          (\<exists>l f s. 10 \<le> l \<and> l < 50 \<and> f \<in> {0, 10, 20} \<and>
             s \<in> {[], ''&status='' @ StatusPending, ''&status='' @ StatusPaid, ''&status='' @ StatusFailed} \<and>
             sent_url q = base g @ ''/orders?limit='' @ decimal l @ ''&offset='' @ decimal f @ s)
      | opGetMissing \<Rightarrow> sent_method q = ''GET'' \<and> sent_body q = None \<and>
          (\<exists>u. sent_url q = base g @ ''/orders/'' @ u \<and> parse_canonical u \<noteq> None \<and> u ! 14 = CHR ''4'')
      | opBadPayload \<Rightarrow> sent_method q = ''POST'' \<and> sent_url q = base g @ ''/orders'' \<and>
          (\<exists>b n. sent_body q = Some b \<and> decode_order b = Some n \<and> Validate n \<noteq> None)
      | opBadUUID \<Rightarrow> sent_method q = ''GET'' \<and> sent_body q = None \<and>
          sent_url q = base g @ ''/orders/not-a-uuid'' \<and> parse_canonical ''not-a-uuid'' = None
      | opUnknownPath \<Rightarrow> sent_method q = ''GET'' \<and> sent_body q = None \<and> sent_url q = base g @ ''/does-not-exist''
      | opSlow \<Rightarrow> sent_method q = ''GET'' \<and> sent_body q = None \<and>
          sent_url q = base g @ ''/debug/slow?d='' @ duration_string (slowDelay g))"

text \<open>The answer as the generator sees it, and what one request leaves behind.\<close>

definition outcome :: "reply \<Rightarrow> int \<times> string \<times> duration" where
  "outcome a =
     (case a of BadRequest \<Rightarrow> (0, [], 0) | TransportError d \<Rightarrow> (0, [], d) | Reply c out d \<Rightarrow> (c, take (2 ^ 20) out, d))"

definition request_done ::
  "(sent \<Rightarrow> reply) \<Rightarrow> generator \<Rightarrow> opKind \<Rightarrow> sent \<Rightarrow> generator \<Rightarrow> bool" where
  "request_done net g k q g' =
     (case outcome (net q) of (code, out, d) \<Rightarrow>
        g' = g\<lparr>res_of := record_result (k, code, d) (res_of g),
               ids := (if k = opCreate \<and> code = 201 then ring_add (extractID out) (ids g) else ids g)\<rparr>)"

definition sample_reply :: string where
  "sample_reply = print_json (JObj [(''id'', JStr ''abc'')])"

definition run_inv :: "run_state \<Rightarrow> bool" where
  "run_inv s \<longleftrightarrow>
     (\<exists>xs. run_results s = fold record_result xs newResults \<and>
           ticked s = length xs + busy s + queued s + dropped s) \<and>
     idle s + busy s + exited s = workers s \<and> queued s \<le> capacity s \<and>
     (0 < exited s \<longrightarrow> is_closed s \<and> queued s = 0)"

definition run_measure :: "run_state \<Rightarrow> nat" where
  "run_measure s = 3 * queued s + 2 * busy s + idle s"

section \<open>Lemmas\<close>

subsection \<open>The ring\<close>

lemma ring_add_view:
  assumes inv: "ring_inv n r" and x: "x \<noteq> []"
  shows "ring_inv n (ring_add x r) \<and> ring_view (ring_add x r) = last_n n (ring_view r @ [x])"
proof (cases "length (buf r) < n")
  case True
  then show ?thesis using inv x by (simp add: ring_add_def ring_inv_def ring_view_def)
next
  case False
  define i where "i = next_slot r"
  have i: "i < n" "length (buf r) = n" "ring_cap r = n" using inv False by (auto simp: ring_inv_def i_def)
  have old: "last_n n (ring_view r @ [x]) = drop (Suc i) (buf r) @ take i (buf r) @ [x]"
    using i by (simp add: last_n_def ring_view_def i_def [symmetric] drop_Suc tl_drop)
  have upd: "(buf r)[i := x] = take i (buf r) @ x # drop (Suc i) (buf r)" using i by (simp add: upd_conv_take_nth_drop)
  have new: "ring_add x r = r\<lparr>buf := (buf r)[i := x], next_slot := Suc i mod n\<rparr>"
    using False i x by (simp add: ring_add_def i_def)
  show ?thesis
  proof (cases "Suc i < n")
    case True
    then show ?thesis using i inv unfolding old new by (simp add: ring_view_def ring_inv_def upd Suc_diff_le)
  next
    case False
    with i have "Suc i = n" by simp
    then show ?thesis using i inv unfolding old new by (auto simp: ring_view_def ring_inv_def upd)
  qed
qed

interpretation ring_window: sliding_window ring_add ring_view "\<lambda>x. x \<noteq> []" n "ring_inv n" for n
proof unfold_locales
  fix r x
  assume inv: "ring_inv n r"
  show "ring_inv n (ring_add x r)"
    using inv ring_add_view [OF inv, of x] by (cases "x = []") (auto simp: ring_add_def)
  show "length (ring_view r) \<le> n" using inv by (auto simp: ring_view_def ring_inv_def)
  show "\<not> x \<noteq> [] \<Longrightarrow> ring_add x r = r" by (simp add: ring_add_def)
  show "x \<noteq> [] \<Longrightarrow> ring_view (ring_add x r) = last_n n (ring_view r @ [x])" using ring_add_view [OF inv] by simp
qed

lemma set_ring_view: "set (ring_view r) = set (buf r)"
  by (metis Un_commute append_take_drop_id ring_view_def set_append)

lemma newIDRing_inv: "0 < n \<Longrightarrow> ring_inv n (newIDRing n) \<and> ring_view (newIDRing n) = []"
  by (simp add: ring_inv_def newIDRing_def ring_view_def)

lemma Intn_less: "0 < n \<Longrightarrow> fst (Intn n r) < n"
  by (simp add: Intn_def)

lemma ring_random_spec:
  "case ring_random g r of (None, g') \<Rightarrow> buf r = [] \<and> g' = g | (Some x, g') \<Rightarrow> x \<in> set (buf r)"
  using Intn_less [of "length (buf r)" g] by (auto simp: ring_random_def split: prod.splits)

subsection \<open>Results\<close>

lemma tally_bump: "tally (bump k m) j = tally m j + (if j = k then 1 else 0)"
  by (simp add: tally_def bump_def update_conv')

lemma stat_of_record:
  "stat_of (record_result (k, c, d) r) j =
     (if j = k then \<lparr>stat_count = stat_count (stat_of r k) + 1, stat_codes = bump c (stat_codes (stat_of r k))\<rparr>
      else stat_of r j)"
  by (simp add: stat_of_def record_result_def update_conv' Let_def)

lemma record_fields:
  "byCode (record_result (k, c, d) r) = bump c (byCode r)"
  "latencies (record_result (k, c, d) r) = latencies r @ [d]"
  "fst ` set (byKind (record_result (k, c, d) r)) = insert k (fst ` set (byKind r))"
  "distinct (map fst (byKind r)) \<Longrightarrow> distinct (map fst (byKind (record_result (k, c, d) r)))"
  by (simp_all add: record_result_def Let_def dom_update distinct_update)

lemma records_spec:
  defines "recs xs \<equiv> fold record_result xs newResults"
  shows "stat_count (stat_of (recs xs) k) = length (filter (\<lambda>x. fst x = k) xs) \<and>
    tally (stat_codes (stat_of (recs xs) k)) c = length (filter (\<lambda>x. fst x = k \<and> fst (snd x) = c) xs) \<and>
    tally (byCode (recs xs)) c = length (filter (\<lambda>x. fst (snd x) = c) xs) \<and>
    latencies (recs xs) = map (snd \<circ> snd) xs \<and>
    fst ` set (byKind (recs xs)) = fst ` set xs \<and> distinct (map fst (byKind (recs xs)))"
proof (induction xs rule: rev_induct)
  case Nil
  show ?case by (simp add: recs_def newResults_def stat_of_def new_stat_def tally_def)
next
  case (snoc x xs)
  obtain k' c' d' where x: "x = (k', c', d')" by (cases x)
  have "recs (xs @ [x]) = record_result (k', c', d') (recs xs)" by (simp add: recs_def x)
  then show ?case using snoc by (auto simp: x stat_of_record record_fields tally_bump)
qed

lemma sum_filter_keys:
  "finite K \<Longrightarrow> fst ` set xs \<subseteq> K \<Longrightarrow> (\<Sum>k\<in>K. length (filter (\<lambda>x. fst x = k) xs)) = length xs"
proof (induction xs)
  case (Cons x xs)
  have "(\<Sum>k\<in>K. length (filter (\<lambda>y. fst y = k) (x # xs))) =
      (\<Sum>k\<in>K. (if fst x = k then 1 else 0) + length (filter (\<lambda>y. fst y = k) xs))"
    by (rule sum.cong) auto
  also have "\<dots> = (\<Sum>k\<in>K. if fst x = k then 1 else 0) + length xs" using Cons by (simp add: sum.distrib)
  also have "(\<Sum>k\<in>K. if fst x = k then 1 else 0) = (1 :: nat)" using Cons.prems by simp
  finally show ?case by simp
qed simp

lemma kind_of_name_op: "kind_of_name (op_name k) = Some k"
  by (cases k) (simp_all add: kind_of_name_def mix_def)

lemma foldl_sum: "foldl (\<lambda>t (k, s). t + f s) (a :: nat) (map (\<lambda>k. (k, h k)) ks) = a + sum_list (map (f \<circ> h) ks)"
  by (induction ks arbitrary: a) auto

lemma sum_list_map_sort: "sum_list (map f (sort xs)) = sum_list (map (f :: 'a :: linorder \<Rightarrow> nat) xs)"
proof -
  have "mset (map f (sort xs)) = mset (map f xs)" by simp
  then show ?thesis by (simp only: sum_mset_sum_list [symmetric])
qed

lemma total_spec:
  fixes xs
  defines "r \<equiv> fold record_result xs newResults"
  shows "sum_list (map (stat_count \<circ> (\<lambda>n. stat_of r (the (kind_of_name n)))) (sort (map (op_name \<circ> fst) (byKind r)))) = length xs"
proof -
  have keys: "distinct (map fst (byKind r))" "set (map fst (byKind r)) = fst ` set xs"
    and count: "\<And>k. stat_count (stat_of r k) = length (filter (\<lambda>x. fst x = k) xs)"
    using records_spec [of xs, folded r_def] by simp_all
  have "sum_list (map (stat_count \<circ> (\<lambda>n. stat_of r (the (kind_of_name n)))) (sort (map (op_name \<circ> fst) (byKind r)))) =
      sum_list (map (stat_count \<circ> (\<lambda>n. stat_of r (the (kind_of_name n)))) (map (op_name \<circ> fst) (byKind r)))"
    by (rule sum_list_map_sort)
  also have "\<dots> = sum_list (map (\<lambda>k. stat_count (stat_of r k)) (map fst (byKind r)))"
    by (simp add: comp_def kind_of_name_op)
  also have "\<dots> = (\<Sum>k\<in>fst ` set xs. length (filter (\<lambda>x. fst x = k) xs))"
    by (simp only: sum_list_distinct_conv_sum_set [OF keys(1)] keys(2) count)
  also have "\<dots> = length xs" by (rule sum_filter_keys) auto
  finally show ?thesis .
qed

subsection \<open>The report\<close>

lemma pct_in_range:
  assumes "xs \<noteq> []" "length xs \<le> 2 ^ 53" "0 \<le> p" "p \<le> 1"
  shows "\<exists>i < length xs. pct xs p = Ok (duration_round (xs ! i) Microsecond)"
proof -
  define n where "n = length xs - 1"
  have n: "n \<le> 2 ^ 53" "n < length xs" using assms(1,2) by (auto simp: n_def)
  have a: "0 \<le> f64 (of_nat n)" "f64 (of_nat n) \<le> of_nat n" using f64_le_nat [of "of_nat n" n] n by auto
  have "f64 (of_nat n) * p \<le> of_nat n" using mult_left_le [of p "f64 (of_nat n)"] a assms(3,4) by simp
  then have b: "0 \<le> f64 (f64 (of_nat n) * p)" "f64 (f64 (of_nat n) * p) \<le> of_nat n"
    using f64_le_nat [of "f64 (of_nat n) * p" n] a assms(3) n by auto
  define i where "i = trunc (f64 (f64 (of_nat n) * p))"
  have "0 \<le> i" "i \<le> int n" using b by (auto simp: i_def trunc_def floor_le_iff)
  then have "nat i < length xs" "0 \<le> i" "i < int (length xs)" using n by auto
  then show ?thesis using assms(1) by (auto simp: pct_def i_def n_def)
qed

lemma report_fractions_unit: "p \<in> set report_fractions \<Longrightarrow> 0 \<le> p \<and> p \<le> 1"
  using f64_le_nat [of _ 1] by (auto simp: report_fractions_def)

lemma pcts_ok:
  "xs \<noteq> [] \<Longrightarrow> length xs \<le> 2 ^ 53 \<Longrightarrow> \<forall>p \<in> set ps. 0 \<le> p \<and> p \<le> 1 \<Longrightarrow>
   \<exists>vs. pcts xs ps = Ok vs \<and> length vs = length ps \<and> set vs \<subseteq> (\<lambda>x. duration_round x Microsecond) ` set xs"
proof (induction ps)
  case (Cons p ps)
  obtain vs where vs: "pcts xs ps = Ok vs" "length vs = length ps" "set vs \<subseteq> (\<lambda>x. duration_round x Microsecond) ` set xs"
    using Cons by auto
  obtain i where i: "i < length xs" "pct xs p = Ok (duration_round (xs ! i) Microsecond)"
    using pct_in_range [of xs p] Cons.prems by auto
  then show ?case using vs by auto
qed simp

lemma print_results_spec:
  fixes xs
  defines "r \<equiv> fold record_result xs newResults"
  assumes "length xs \<le> 2 ^ 53"
  shows "\<exists>rep. print_results n r = Ok rep \<and> total_requests rep = length xs \<and>
    dropped_ticks rep = (if 0 < n then Some n else None) \<and>
    map fst (rows rep) = sort (map (op_name \<circ> fst) (byKind r)) \<and>
    (percentiles rep = None \<longleftrightarrow> xs = [])"
proof -
  have lat: "latencies r = map (snd \<circ> snd) xs" using records_spec [of xs] by (simp add: r_def)
  note simps = print_results_def Let_def foldl_sum total_spec [of xs, folded r_def, unfolded comp_def]
  show ?thesis
  proof (cases "xs = []")
    case True
    then show ?thesis by (simp add: print_results_def r_def newResults_def)
  next
    case False
    then obtain vs where "pcts (sort (latencies r)) report_fractions = Ok vs"
      using pcts_ok [of "sort (latencies r)" report_fractions] assms(2) lat report_fractions_unit
      by (metis length_map length_sort length_0_conv)
    then show ?thesis using lat False by (simp add: simps comp_def)
  qed
qed

subsection \<open>Requests\<close>

lemma hex_bytes_take: "hex_bytes (take n bs) = take (2 * n) (hex_bytes bs)"
  by (induction n arbitrary: bs) (simp_all add: hex_bytes_def take_Suc split: list.splits, (case_tac bs; simp))

lemma hex_bytes_drop: "hex_bytes (drop n bs) = drop (2 * n) (hex_bytes bs)"
proof (induction n arbitrary: bs)
  case (Suc n)
  then show ?case by (cases bs) (simp_all add: hex_bytes_def)
qed simp

lemma length_hex_bytes: "length (hex_bytes bs) = 2 * length bs"
  by (induction bs) (simp_all add: hex_bytes_def)

lemma hex_bytes_digits: "\<exists>ds. hex_bytes bs = map hex_char ds \<and> (\<forall>d \<in> set ds. d < 16)"
proof (induction bs)
  case (Cons b bs)
  then obtain ds where ds: "hex_bytes bs = map hex_char ds" "\<forall>d \<in> set ds. d < 16" by blast
  have "unat b < 256" by (rule order.strict_trans2 [OF unsigned_less]) simp
  then have "hex_bytes (b # bs) = map hex_char (unat b div 16 # unat b mod 16 # ds) \<and>
      (\<forall>d \<in> set (unat b div 16 # unat b mod 16 # ds). d < 16)"
    using ds by (auto simp: hex_bytes_def)
  then show ?case by blast
qed (simp add: hex_bytes_def)

lemma version_nibble: "unat ((x AND 0x0f) OR 0x40 :: 8 word) div 16 = 4"
proof -
  define a where "a = x AND 0x0f"
  have "a \<le> 0x0f" unfolding a_def by (rule word_and_le1)
  then have a: "unat a \<le> 15" by (simp add: word_le_nat_alt)
  have "a AND 0x40 = 0" by (simp add: a_def and.assoc)
  then have "a OR 0x40 = a + 0x40" using word_plus_and_or [of a "0x40"] by simp
  moreover have "unat (a + 0x40) = unat a + 64" using a by (simp add: unat_word_ariths)
  ultimately show ?thesis using a by (simp add: a_def [symmetric])
qed

lemma random_bytes_length: "length (fst (random_bytes k r)) = k"
  by (induction k arbitrary: r) (simp_all add: Let_def split_beta)

lemma parse_canonical_hex: "length bs = 16 \<Longrightarrow> parse_canonical (dashes (hex_bytes bs)) \<noteq> None"
proof -
  assume l: "length bs = 16"
  obtain ds where ds: "hex_bytes bs = map hex_char ds" "\<forall>d \<in> set ds. d < 16" using hex_bytes_digits by blast
  have "length (hex_bytes bs) = 32" by (simp add: length_hex_bytes l)
  from undash_dashes [OF this] show ?thesis using ds hex_values_hex_chars [of ds] by (auto simp: parse_canonical_def)
qed

lemma randomUUID_spec:
  "parse_canonical (fst (randomUUID r)) \<noteq> None \<and> fst (randomUUID r) ! 14 = CHR ''4''"
proof -
  define b0 where "b0 = fst (random_bytes 16 r)"
  define b1 where "b1 = b0[6 := (b0 ! 6 AND 0x0f) OR 0x40]"
  define b where "b = b1[8 := (b1 ! 8 AND 0x3f) OR 0x80]"
  have l: "length b = 16" by (simp add: b_def b1_def b0_def random_bytes_length)
  have u: "fst (randomUUID r) = dashes (hex_bytes b)"
    unfolding randomUUID_def Let_def split_beta b0_def [symmetric]
    unfolding b1_def [symmetric] unfolding b_def [symmetric]
    by (simp add: dashes_def hex_bytes_take hex_bytes_drop)
  have b6: "b ! 6 = (b0 ! 6 AND 0x0f) OR 0x40" using l by (simp add: b_def b1_def)
  have "drop 6 b = b ! 6 # drop 7 b" using Cons_nth_drop_Suc [of 6 b] l by simp
  then have "drop 12 (hex_bytes b) = hex_bytes (b ! 6 # drop 7 b)" using hex_bytes_drop [of 6 b] by simp
  then have "drop 12 (hex_bytes b) = hex_char 4 # tl (drop 12 (hex_bytes b))"
    by (simp add: b6 hex_bytes_def version_nibble)
  then have "hd (drop 12 (hex_bytes b)) = hex_char 4" by (metis list.sel(1))
  then have "hex_bytes b ! 12 = hex_char 4" using hd_drop_conv_nth [of 12 "hex_bytes b"] length_hex_bytes [of b] l by simp
  moreover have "dashes (hex_bytes b) ! 14 = hex_bytes b ! 12"
    using length_hex_bytes [of b] l by (simp add: dashes_def nth_append)
  moreover have "hex_char 4 = CHR ''4''" by code_simp
  ultimately show ?thesis using parse_canonical_hex [OF l] by (simp add: u)
qed

lemma pad4_short: "n < 500 \<Longrightarrow> length (pad4 n) \<le> 4"
proof -
  assume "n < 500"
  then have "length (decimal n) \<le> 3"
    by (subst decimal.simps, subst decimal.simps, subst decimal.simps) auto
  then show ?thesis by (simp add: pad4_def)
qed

lemma order_draws_valid:
  assumes "order_draws r = ((c, a), r')" "cur \<in> set SupportedCurrencies"
  shows "Validate \<lparr>NewCustomerID = c, NewAmountCents = a, NewCurrency = cur\<rparr> = None \<and> text_ok c \<and>
    decode_order (order_text \<lparr>NewCustomerID = c, NewAmountCents = a, NewCurrency = cur\<rparr>) =
      Some \<lparr>NewCustomerID = c, NewAmountCents = a, NewCurrency = cur\<rparr>"
proof -
  define i j where "i = fst (Intn 500 r)" and "j = fst (Intn 50000 (snd (Intn 500 r)))"
  have ij: "i < 500" "j < 50000" by (simp_all add: i_def j_def Intn_less)
  have ca: "c = ''cust-'' @ pad4 i" "a = 100 + int j"
    using assms(1) by (simp_all add: order_draws_def Let_def split_beta i_def j_def)
  have "length c \<le> 64" "c \<noteq> []" using pad4_short [OF ij(1)] ca(1) by simp_all
  moreover have "length cur = 3" "CurrencySupported cur"
    using assms(2) by (auto simp: SupportedCurrencies_def CurrencySupported_def)
  moreover have "digit_value (CHR 0x00) = None" by code_simp
  then have "CHR 0x00 \<notin> set (decimal i)" using decimal_digits [of "CHR 0x00" i] digit_value_char by fastforce
  then have "text_ok c" using ca(1) by (simp add: text_ok_def pad4_def)
  moreover have "to_valid c = c" "to_valid cur = cur"
  proof -
    show "to_valid c = c" using ca(1) decimal_ascii [of i] by (intro to_valid_ascii) (auto simp: pad4_def list_all_iff)
    show "to_valid cur = cur" using assms(2) by (intro to_valid_ascii) (auto simp: SupportedCurrencies_def)
  qed
  moreover have "int64_ok a" using ij(2) ca(2) by (simp add: int64_ok_def)
  ultimately show ?thesis using ij(2) ca(2) decode_valid_text [of "\<lparr>NewCustomerID = c, NewAmountCents = a, NewCurrency = cur\<rparr>"]
    by (simp add: Validate_def)
qed

lemma bad_payload_decoded: "decode_order bad_payload = Some \<lparr>NewCustomerID = [], NewAmountCents = 0, NewCurrency = ''US''\<rparr>"
proof -
  let ?v = "JObj [(''customer_id'', JStr []), (''amount_cents'', JNum (itoa 0)), (''currency'', JStr ''US'')]"
  have "parse_value (print_json ?v @ []) = Some (valid_json ?v, [])" by (rule parse_print) (simp_all add: number_itoa max_depth_def)
  moreover have "print_json ?v @ [] = bad_payload"
    by (simp add: bad_payload_def dq_def quote_def quote_plain itoa_def decimal.simps digit_char_def char_eval)
  ultimately have "parse_value bad_payload = Some (valid_json ?v, [])" by (simp only:)
  moreover have "length bad_payload \<le> maxBodyBytes" by (simp add: bad_payload_def dq_def maxBodyBytes_def)
  ultimately show ?thesis
    using decode_object [of bad_payload _ "[]"] by (simp add: set_field_def to_valid_ascii atoi_itoa int64_ok_def zero_order_def)
qed

lemma finish_request_done:
  assumes "finish_request k (gen_request net g m p b) g = (g', q)"
  shows "q = \<lparr>sent_method = m, sent_url = base g @ p, sent_body = b\<rparr> \<and> request_done net g k q g'"
  using assms
  by (cases "net \<lparr>sent_method = m, sent_url = base g @ p, sent_body = b\<rparr>")
     (auto simp: finish_request_def gen_request_def request_done_def outcome_def Let_def split: if_splits)

lemma doCreate_done:
  assumes "doCreate net r g = ((g', q), r')"
  shows "request_fits g opCreate q \<and> request_done net g opCreate q g'"
proof -
  obtain c a r1 where d: "order_draws r = ((c, a), r1)" by (metis surj_pair)
  have "finish_request opCreate (gen_request net g ''POST'' ''/orders''
      (Some (order_text \<lparr>NewCustomerID = c, NewAmountCents = a, NewCurrency = ''USD''\<rparr>))) g = (g', q)"
    using assms by (simp add: doCreate_def d)
  from finish_request_done [OF this] show ?thesis
    using order_draws_valid [OF d, of "''USD''"] by (auto simp: request_fits_def SupportedCurrencies_def)
qed

lemma list_parts:
  assumes "l < 40" "f < 3" "s < 4"
    and q: "q = \<lparr>sent_method = ''GET'', sent_url = base g @ ''/orders?limit='' @ decimal (10 + l) @ ''&offset='' @ decimal (f * 10) @
      ['''', ''&status=pending'', ''&status=paid'', ''&status=failed''] ! s, sent_body = None\<rparr>"
  shows "request_fits g opList q"
proof -
  have "f * 10 \<in> {0, 10, 20}" using assms(2) by auto
  moreover have "['''', ''&status=pending'', ''&status=paid'', ''&status=failed''] ! s
      \<in> {[], ''&status='' @ StatusPending, ''&status='' @ StatusPaid, ''&status='' @ StatusFailed}"
    using assms(3) by (auto simp: less_Suc_eq numeral_eq_Suc status_defs)
  moreover have "10 \<le> 10 + l" "10 + l < 50" using assms(1) by auto
  ultimately show ?thesis unfolding request_fits_def q by (simp only: opKind.case sent.simps) blast
qed

lemma pick_weights: "length (filter (\<lambda>n. pick_loop mix n = k) [0..<100]) = tally mix k"
proof -
  have "list_all (\<lambda>k. length (filter (\<lambda>n. pick_loop mix n = k) [0..<100]) = tally mix k)
      [opCreate, opGet, opList, opGetMissing, opBadPayload, opBadUUID, opUnknownPath, opSlow]"
    by code_simp
  then show ?thesis by (cases k) simp_all
qed

lemma choose_kind_spec:
  "fst (choose_kind g r) = fst (pick r) \<or> (fst (choose_kind g r) = opSlow \<and> flt_less (Finite 0) (slowFrac g))"
  by (auto simp: choose_kind_def Let_def split_beta)

lemma gen_do_send:
  assumes k: "choose_kind g r = (k, r2)"
    and "gen_do net r g = (finish_request k (gen_request net g m p b) g, rr)"
    and "gen_do net r g = ((g', q), r')"
    and "request_fits g k \<lparr>sent_method = m, sent_url = base g @ p, sent_body = b\<rparr>"
  shows "request_fits g k q \<and> request_done net g k q g'"
proof -
  have "finish_request k (gen_request net g m p b) g = (g', q)" using assms(2,3) by simp
  from finish_request_done [OF this] show ?thesis using assms(4) by blast
qed

lemma bad_uuid_rejected: "parse_canonical ''not-a-uuid'' = None"
  by (simp add: parse_canonical_def)

lemma gen_do_kind:
  assumes do: "gen_do net r g = ((g', q), r')" and k: "choose_kind g r = (k, r2)"
  shows "(request_fits g k q \<and> request_done net g k q g') \<or>
    (k = opGet \<and> buf (ids g) = [] \<and> request_fits g opCreate q \<and> request_done net g opCreate q g')"
proof (cases k)
  case opCreate
  obtain c a r3 i r4 where d: "order_draws r2 = ((c, a), r3)" "Intn 4 r3 = (i, r4)" by (metis surj_pair)
  then have "i < 4" using Intn_less [of 4 r3] by simp
  then have "[''USD'', ''EUR'', ''GBP'', ''INR''] ! i \<in> set SupportedCurrencies"
    by (auto simp: less_Suc_eq numeral_eq_Suc SupportedCurrencies_def)
  from order_draws_valid [OF d(1) this] show ?thesis
    by (intro disjI1 gen_do_send [OF k _ do])
       (simp add: gen_do_def k opCreate d Let_def, auto simp: request_fits_def opCreate)
next
  case opGet
  show ?thesis
  proof (cases "ring_random r2 (ids g)")
    case (Pair x r3)
    show ?thesis
    proof (cases x)
      case None
      then have "doCreate net r3 g = ((g', q), r')" using do by (simp add: gen_do_def k opGet Pair)
      then show ?thesis using doCreate_done ring_random_spec [where g = r2 and r = "ids g"] None by (simp add: opGet Pair)
    next
      case (Some i)
      then show ?thesis using ring_random_spec [where g = r2 and r = "ids g"]
        by (intro disjI1 gen_do_send [OF k _ do])
           (simp add: gen_do_def k opGet Pair Let_def, simp add: request_fits_def opGet Pair)
    qed
  qed
next
  case opList
  obtain l r3 f r4 s r5 where d: "Intn 40 r2 = (l, r3)" "Intn 3 r3 = (f, r4)" "Intn (Suc (Suc (Suc (Suc 0)))) r4 = (s, r5)"
    by (metis surj_pair)
  then have lfs: "l < 40" "f < 3" "s < 4"
    using Intn_less [of 40 r2] Intn_less [of 3 r3] Intn_less [of "Suc (Suc (Suc (Suc 0)))" r4] by simp_all
  have "gen_do net r g = (finish_request k (gen_request net g ''GET''
      (''/orders?limit='' @ decimal (10 + l) @ ''&offset='' @ decimal (f * 10) @
       ['''', ''&status=pending'', ''&status=paid'', ''&status=failed''] ! s) None) g, r5)"
    by (simp add: gen_do_def k opList d Let_def)
  from gen_do_send [OF k this do] list_parts [OF lfs refl] show ?thesis by (simp add: opList)
next
  case opGetMissing
  obtain u r3 where d: "randomUUID r2 = (u, r3)" by (cases "randomUUID r2")
  show ?thesis using randomUUID_spec [of r2] d
    by (intro disjI1 gen_do_send [OF k _ do])
       (simp add: gen_do_def k opGetMissing d Let_def, auto simp: request_fits_def opGetMissing)
next
  case opBadPayload
  show ?thesis
    by (intro disjI1 gen_do_send [OF k _ do])
       (simp add: gen_do_def k opBadPayload Let_def, simp add: request_fits_def opBadPayload bad_payload_decoded Validate_def)
next
  case opBadUUID
  show ?thesis using bad_uuid_rejected
    by (intro disjI1 gen_do_send [OF k _ do])
       (simp add: gen_do_def k opBadUUID Let_def, simp add: request_fits_def opBadUUID)
next
  case opUnknownPath
  show ?thesis
    by (intro disjI1 gen_do_send [OF k _ do])
       (simp add: gen_do_def k opUnknownPath Let_def, simp add: request_fits_def opUnknownPath)
next
  case opSlow
  show ?thesis
    by (intro disjI1 gen_do_send [OF k _ do])
       (simp add: gen_do_def k opSlow Let_def, simp add: request_fits_def opSlow)
qed

subsection \<open>The tick loop\<close>

inductive_cases run_stepE: "run_step s t"

lemma run_inv_start: "run_inv (run_start c w)"
  by (simp add: run_inv_def run_start_def)

lemma run_inv_step: "run_step s t \<Longrightarrow> run_inv s \<Longrightarrow> run_inv t"
proof (induction rule: run_step.induct)
  case (Complete s x)
  then obtain xs where xs: "run_results s = fold record_result xs newResults"
    "ticked s = length xs + busy s + queued s + dropped s" by (auto simp: run_inv_def)
  then show ?case
    using Complete unfolding run_inv_def by (intro conjI exI [of _ "xs @ [x]"]) auto
qed (auto simp: run_inv_def)

lemma run_step_sizes: "run_step s t \<Longrightarrow> capacity t = capacity s \<and> workers t = workers s"
  by (auto elim: run_stepE)

lemma run_reachable: "run_step\<^sup>*\<^sup>* (run_start c w) s \<Longrightarrow> run_inv s \<and> capacity s = c \<and> workers s = w"
proof (induction rule: rtranclp_induct)
  case base
  show ?case using run_inv_start [of c w] by (simp add: run_start_def)
qed (auto dest: run_inv_step run_step_sizes)

lemma run_inv_count: "run_inv s \<Longrightarrow> ticked s = length (latencies (run_results s)) + busy s + queued s + dropped s"
  using records_spec by (auto simp: run_inv_def)

lemma closed_step: "run_step s t \<Longrightarrow> is_closed s \<Longrightarrow> is_closed t \<and> run_measure t < run_measure s"
  by (auto elim!: run_stepE simp: run_measure_def)

lemma closed_not_stuck:
  assumes "run_inv s" "is_closed s" "\<not> run_finished s"
  shows "\<exists>t. run_step s t"
proof (cases "0 < busy s")
  case True
  then show ?thesis by (blast intro: Complete)
next
  case False
  then have "0 < idle s" using assms by (auto simp: run_inv_def run_finished_def)
  then show ?thesis using assms(2) by (cases "queued s = 0") (auto intro: Receive Leave)
qed

lemma finished_drained: "run_inv s \<Longrightarrow> run_finished s \<Longrightarrow> busy s = 0 \<and> (0 < workers s \<longrightarrow> queued s = 0)"
  by (auto simp: run_inv_def run_finished_def)

lemma run_report:
  assumes "run_inv s" "length (latencies (run_results s)) \<le> 2 ^ 53"
  shows "\<exists>rep. print_results n (run_results s) = Ok rep \<and> total_requests rep = length (latencies (run_results s))"
proof -
  obtain xs where "run_results s = fold record_result xs newResults" using assms(1) by (auto simp: run_inv_def)
  moreover from this have "latencies (run_results s) = map (snd \<circ> snd) xs" using records_spec by auto
  ultimately show ?thesis using print_results_spec [of xs n] assms(2) by auto
qed

section \<open>Properties\<close>

text \<open>
  (C38) One call of \<open>do\<close> sends exactly one request and accounts for exactly one. The request is the one
  its kind stands for: a create carries the JSON of an order that the service decodes and accepts, a get names an
  id of the ring, a get of a missing order names a well-formed version 4 UUID, the bad payload decodes and
  fails validation and the bad id is not a UUID. The result is recorded under that kind, with code 0 for a
  request that could not be built or sent, and the id of the answer enters the ring only when a create was
  answered with 201. The kind is the one picked from the mix, except that saturation traffic replaces
  it when it is on and that a get is a create while the ring is empty; of the 100 draws, each
  kind has as many as its weight.
\<close>

theorem do_one_request:
  assumes "gen_do net r g = ((g', q), r')"
  shows "(\<exists>k. request_fits g k q \<and>
      (case outcome (net q) of (code, out, d) \<Rightarrow>
         g' = g\<lparr>res_of := record_result (k, code, d) (res_of g),
                ids := (if k = opCreate \<and> code = 201 then ring_add (extractID out) (ids g) else ids g)\<rparr>) \<and>
      (k = fst (pick r) \<or> (k = opSlow \<and> flt_less (Finite 0) (slowFrac g)) \<or>
       (k = opCreate \<and> fst (pick r) = opGet \<and> buf (ids g) = []))) \<and>
    length (filter (\<lambda>n. pick_loop mix n = j) [0..<100]) = tally mix j"
proof -
  obtain k r2 where k: "choose_kind g r = (k, r2)" by (cases "choose_kind g r")
  from gen_do_kind [OF assms k] choose_kind_spec [of g r] show ?thesis
    by (auto simp: k pick_weights request_done_def)
qed

text \<open>A source whose draws are all 0 picks a create; the server answers with an id.\<close>

lemma sample_reply_id: "extractID (take (2 ^ 20) sample_reply) = ''abc''"
proof -
  have "parse_value (print_json (JObj [(''id'', JStr ''abc'')]) @ []) = Some (valid_json (JObj [(''id'', JStr ''abc'')]), [])"
    by (rule parse_print) (simp_all add: max_depth_def)
  then have p: "parse_value sample_reply = Some (valid_json (JObj [(''id'', JStr ''abc'')]), [])"
    unfolding sample_reply_def by (simp only: append_Nil2)
  have "length sample_reply \<le> 2 ^ 20" using length_quote [of "''id''"] length_quote [of "''abc''"] by (simp add: sample_reply_def)
  then have "take (2 ^ 20) sample_reply = sample_reply" by simp
  then show ?thesis using p by (simp only: extractID_def) (simp add: to_valid_ascii skip_ws_def)
qed

theorem do_one_request_witness:
  "\<exists>g' q r'. gen_do (\<lambda>_. Reply 201 sample_reply 7) \<lparr>draws = (\<lambda>_. 0), unit_draws = (\<lambda>_. 0), drawn = 0\<rparr>
     \<lparr>base = ''http://h'', ids = newIDRing 2048, res_of = newResults, slowFrac = Finite 0, slowDelay = 0\<rparr> = ((g', q), r') \<and>
   sent_url q = ''http://h/orders'' \<and> ring_view (ids g') = [''abc''] \<and> latencies (res_of g') = [7]"
proof -
  let ?r = "\<lparr>draws = (\<lambda>_. 0), unit_draws = (\<lambda>_. 0), drawn = 0\<rparr>"
  let ?g = "\<lparr>base = ''http://h'', ids = newIDRing 2048, res_of = newResults, slowFrac = Finite 0, slowDelay = 0\<rparr>"
  obtain g' q r' where d: "gen_do (\<lambda>_. Reply 201 sample_reply 7) ?r ?g = ((g', q), r')" by (metis surj_pair)
  have p: "fst (pick ?r) = opCreate" by (simp add: pick_def Intn_def mix_def Let_def)
  from do_one_request [OF d] p have f: "request_fits ?g opCreate q"
    and g': "g' = ?g\<lparr>res_of := record_result (opCreate, 201, 7) (res_of ?g), ids := ring_add ''abc'' (ids ?g)\<rparr>"
    using sample_reply_id by (auto simp: outcome_def)
  show ?thesis
    using d f by (intro exI conjI) (auto simp: g' request_fits_def ring_view_def ring_add_def newIDRing_def record_fields newResults_def)
qed

text \<open>
  (C37) The ring of order ids is a sliding window. After any sequence of ids has been added to a new ring
  of positive capacity \<open>n\<close>, it holds the last \<open>n\<close> of those that are not empty and nothing else; a
  random read finds nothing exactly when none was added, and otherwise returns one of these ids, never
  out of range.
\<close>

theorem id_ring_window:
  assumes "0 < n"
  shows "ring_view (fold ring_add xs (newIDRing n)) = last_n n (filter (\<lambda>x. x \<noteq> []) xs) \<and>
    set (buf (fold ring_add xs (newIDRing n))) = set (last_n n (filter (\<lambda>x. x \<noteq> []) xs)) \<and>
    length (buf (fold ring_add xs (newIDRing n))) = min n (length (filter (\<lambda>x. x \<noteq> []) xs)) \<and>
    (case ring_random g (fold ring_add xs (newIDRing n)) of
       (None, g') \<Rightarrow> filter (\<lambda>x. x \<noteq> []) xs = [] \<and> g' = g
     | (Some x, g') \<Rightarrow> x \<in> set (last_n n (filter (\<lambda>x. x \<noteq> []) xs)))"
proof -
  let ?r = "fold ring_add xs (newIDRing n)"
  let ?ys = "filter (\<lambda>x. x \<noteq> []) xs"
  have v: "ring_view ?r = last_n n ?ys"
    using ring_window.adds [of n "newIDRing n" xs] newIDRing_inv [OF assms] by simp
  have s: "set (buf ?r) = set (last_n n ?ys)" using set_ring_view [of ?r] v by simp
  have l: "length (buf ?r) = min n (length ?ys)" using arg_cong [OF v, of length] by (simp add: ring_view_def)
  have e: "?ys = []" if "buf ?r = []" using l that assms by (cases ?ys) auto
  show ?thesis using v s l e ring_random_spec [where g = g and r = ?r] by (auto split: prod.splits option.splits)
qed

theorem id_ring_window_witness:
  "ring_view (fold ring_add [''a'', '''', ''b'', ''c''] (newIDRing 2)) = [''b'', ''c''] \<and>
   buf (fold ring_add [''a'', '''', ''b'', ''c''] (newIDRing 2)) = [''c'', ''b'']"
  using id_ring_window [of 2 "[''a'', '''', ''b'', ''c'']"]
  by (simp add: last_n_def ring_add_def newIDRing_def)

text \<open>
  (C39) The load generator accounts for every tick. In every state that the main loop and its workers can
  reach, whatever the interleaving, the ticks are those answered, those being worked on, those
  queued and those dropped, and the queue holds at most a second's worth. Once the context has ended no
  reachable state is stuck and every step decreases a measure, so the run ends; with at least one worker
  the report then says of every tick whether it was sent or dropped, and no percentile is out of range.
  With no worker the queued ticks are neither.
\<close>

theorem loadgen_accounts:
  assumes start: "loadgen_start f = Launches g i c w" and reach: "run_step\<^sup>*\<^sup>* (run_start c w) s"
  shows "0 < i \<and> 0 < c \<and> queued s \<le> c \<and>
    ticked s = length (latencies (run_results s)) + busy s + queued s + dropped s \<and>
    (is_closed s \<longrightarrow> run_finished s \<or> (\<exists>t. run_step s t)) \<and>
    (is_closed s \<longrightarrow> (\<forall>t. run_step s t \<longrightarrow> is_closed t \<and> run_measure t < run_measure s)) \<and>
    (run_finished s \<and> length (latencies (run_results s)) \<le> 2 ^ 53 \<longrightarrow>
       (\<exists>rep. print_results (dropped s) (run_results s) = Ok rep \<and>
          total_requests rep + (if w = 0 then queued s else 0) + dropped s = ticked s))"
proof -
  have inv: "run_inv s" and size: "capacity s = c" "workers s = w" using run_reachable [OF reach] by auto
  have "0 < i" "0 < c" using start by (auto simp: loadgen_start_def Let_def split: if_splits)
  moreover have "queued s \<le> c" using inv size by (simp add: run_inv_def)
  ultimately show ?thesis
    using run_inv_count [OF inv] closed_not_stuck [OF inv] closed_step [of s] run_report [OF inv, of "dropped s"]
      finished_drained [OF inv] size
    by auto
qed

text \<open>One worker, a channel of one: the second tick is dropped.\<close>

theorem loadgen_accounts_witness:
  "\<exists>rep. print_results 1 (record_result (opList, 200, 5) newResults) = Ok rep \<and> total_requests rep = 1"
proof -
  let ?f = "\<lparr>flag_url = ''http://h'', flag_rate = 1, flag_duration = 0, flag_workers = 1, flag_slow = Finite 0, flag_slow_delay = 0\<rparr>"
  let ?g = "\<lparr>base = ''http://h'', ids = newIDRing 2048, res_of = newResults, slowFrac = Finite 0, slowDelay = 0\<rparr>"
  have start: "loadgen_start ?f = Launches ?g Second 1 1" by (simp add: loadgen_start_def)
  let ?s1 = "(run_start 1 1)\<lparr>ticked := 1, queued := 1\<rparr>"
  let ?s2 = "?s1\<lparr>ticked := 2, dropped := 1\<rparr>"
  let ?s3 = "?s2\<lparr>queued := 0, idle := 0, busy := 1\<rparr>"
  let ?s4 = "?s3\<lparr>busy := 0, idle := 1, run_results := record_result (opList, 200, 5) newResults\<rparr>"
  let ?s5 = "?s4\<lparr>is_closed := True\<rparr>"
  let ?s6 = "?s5\<lparr>idle := 0, exited := 1\<rparr>"
  have "run_step (run_start 1 1) ?s1" using Tick_sent [of "run_start 1 1"] by (simp add: run_start_def)
  moreover have "run_step ?s1 ?s2" using Tick_dropped [of ?s1] by (simp add: run_start_def numeral_2_eq_2)
  moreover have "run_step ?s2 ?s3" using Receive [of ?s2] by (simp add: run_start_def)
  moreover have "run_step ?s3 ?s4" using Complete [of ?s3 "(opList, 200, 5)"] by (simp add: run_start_def)
  moreover have "run_step ?s4 ?s5" using Close [of ?s4] by (simp add: run_start_def)
  moreover have "run_step ?s5 ?s6" using Leave [of ?s5] by (simp add: run_start_def)
  ultimately have "run_step\<^sup>*\<^sup>* (run_start 1 1) ?s6" by (meson converse_rtranclp_into_rtranclp rtranclp.rtrancl_refl)
  from loadgen_accounts [OF start this] show ?thesis
    by (simp add: run_start_def run_finished_def record_fields newResults_def)
qed

end
