(* ===== verification/Wire.thy ===== *)
theory Wire
  imports Http Order_Json
begin

text \<open>
  The text of a response body: what \<open>json.NewEncoder(w).Encode\<close> writes for the values that the
  handlers answer with (httpapi/response.go, handlers.go); other bodies are their text. An order's
  timestamps are shown in the location they carry, given by the zone's offset at a time.
\<close>

section \<open>Definitions\<close>

definition error_json :: "string \<Rightarrow> string \<Rightarrow> string \<Rightarrow> json" where
  "error_json c msg field =
     JObj ([(''code'', JStr c), (''message'', JStr msg)] @ (if field = [] then [] else [(''field'', JStr field)]))"

definition list_json :: "(uuid \<Rightarrow> string) \<Rightarrow> (time \<Rightarrow> int) \<Rightarrow> Order list \<Rightarrow> int \<Rightarrow> int \<Rightarrow> json" where
  "list_json idtext zone xs limit off =
     JObj [(''orders'', JArr (map (order_json idtext zone) xs)), (''limit'', JNum (itoa limit)), (''offset'', JNum (itoa off))]"

text \<open>\<open>Encode\<close> writes nothing when a timestamp cannot be marshalled.\<close>

fun body_json :: "(uuid \<Rightarrow> string) \<Rightarrow> (time \<Rightarrow> int) \<Rightarrow> body \<Rightarrow> json option" where
  "body_json idtext zone (ErrorBody c msg field) = Some (error_json c msg field)"
| "body_json idtext zone (OrderBody x) = (if times_ok zone x then Some (order_json idtext zone x) else None)"
| "body_json idtext zone (ListBody xs limit off) =
     (if list_all (times_ok zone) xs then Some (list_json idtext zone xs limit off) else None)"
| "body_json idtext zone (MapBody k v) = Some (JObj [(k, JStr v)])"
| "body_json idtext zone (HtmlBody page) = None"

fun body_text :: "(uuid \<Rightarrow> string) \<Rightarrow> (time \<Rightarrow> int) \<Rightarrow> body \<Rightarrow> string" where
  "body_text idtext zone (HtmlBody page) = page"
| "body_text idtext zone b = (case body_json idtext zone b of Some v \<Rightarrow> print_json v @ [CHR 0x0A] | None \<Rightarrow> [])"

section \<open>Lemmas\<close>

lemma order_json_object [simp]: "order_json f zone x \<noteq> JNum t"
  by (simp add: order_json_def)

lemma body_json_shape: "body_json f zone b = Some v \<Longrightarrow> json_ok v \<and> json_depth v \<le> 3 \<and> (\<forall>t. v \<noteq> JNum t)"
proof -
  have "Max (insert 0 (json_depth ` order_json f zone ` set xs)) \<le> 1" for xs by (auto simp: Max_le_iff)
  then show "body_json f zone b = Some v \<Longrightarrow> json_ok v \<and> json_depth v \<le> 3 \<and> (\<forall>t. v \<noteq> JNum t)"
    by (cases b) (auto simp: error_json_def list_json_def number_itoa list_all_iff image_image split: if_splits)
qed

lemma body_text_json: "body_json f zone b = Some v \<Longrightarrow> body_text f zone b = print_json v @ [CHR 0x0A]"
  by (cases b) (simp_all split: if_splits)

lemma body_text_parses: "body_json f zone b = Some v \<Longrightarrow> parse_value (body_text f zone b) = Some (valid_json v, [CHR 0x0A])"
  unfolding body_text_json by (rule parse_print) (use body_json_shape [of f zone b v] in \<open>auto simp: max_depth_def\<close>)

lemma created_text:
  assumes "Validate n = None" "year_ok 0 now" "length (f i) \<le> 100"
  shows "extractID (take (2 ^ 20) (body_text f (\<lambda>_. 0) (OrderBody (Build i now n)))) = to_valid (f i)"
proof -
  let ?x = "Build i now n"
  have n: "length (NewCustomerID n) \<le> 64" "length (NewCurrency n) = 3" "int64_ok (NewAmountCents n)"
    using assms(1) by (auto simp: Validate_def int64_ok_def split: if_splits)
  have ok: "times_ok (\<lambda>_. 0) ?x" using assms(2) by (simp add: times_ok_def Build_def)
  have "length (print_json (order_json f (\<lambda>_. 0) ?x) @ [CHR 0x0A]) \<le> 2 ^ 20"
    using length_order_json [OF ok, of f] n assms(3) by (simp add: Build_def StatusPending_def)
  then have "take (2 ^ 20) (body_text f (\<lambda>_. 0) (OrderBody ?x)) = print_json (order_json f (\<lambda>_. 0) ?x) @ [CHR 0x0A]"
    using ok by simp
  then show ?thesis using extractID_order [of f "\<lambda>_. 0" ?x] by (simp add: Build_def)
qed

section \<open>Properties\<close>

text \<open>
  (C17) Every JSON answer reads back. Whatever a handler passes to \<open>writeJSON\<close>, an error, an order, a
  page of orders or a small map, with any bytes in its strings, the text on the wire parses to
  exactly that value, up to bytes that are not UTF-8, with only the newline left; an error without a field
  has no such member; and the id that the load generator extracts from an order is the order's.
\<close>

theorem responses_read_back:
  assumes "body_json f zone b = Some v"
  shows "parse_value (body_text f zone b) = Some (valid_json v, [CHR 0x0A]) \<and>
    (\<forall>c msg. b = ErrorBody c msg [] \<longrightarrow> v = JObj [(''code'', JStr c), (''message'', JStr msg)]) \<and>
    (\<forall>x. b = OrderBody x \<longrightarrow> extractID (body_text f zone b) = to_valid (f (ID x)))"
proof (intro conjI allI impI)
  show "parse_value (body_text f zone b) = Some (valid_json v, [CHR 0x0A])"
    by (rule body_text_parses [OF assms])
next
  fix c msg
  assume "b = ErrorBody c msg []"
  then show "v = JObj [(''code'', JStr c), (''message'', JStr msg)]" using assms by (simp add: error_json_def)
next
  fix x
  assume "b = OrderBody x"
  then show "extractID (body_text f zone b) = to_valid (f (ID x))"
    using assms extractID_order [of f zone x] by (simp split: if_splits)
qed

theorem responses_read_back_witness:
  "parse_value (body_text canonical (\<lambda>_. 0) (ErrorBody ''invalid_id'' [CHR 0x22, CHR 0x0A] [])) =
     Some (JObj [(''code'', JStr ''invalid_id''), (''message'', JStr [CHR 0x22, CHR 0x0A])], [CHR 0x0A])"
  using responses_read_back [of canonical "\<lambda>_. 0" "ErrorBody ''invalid_id'' [CHR 0x22, CHR 0x0A] []" _] 
  by (simp add: error_json_def to_valid_ascii)

end
