(* ===== verification/Duration_Text.thy ===== *)
theory Duration_Text
  imports Go_Numbers
begin

text \<open>
  \<open>Duration.String\<close> and \<open>time.ParseDuration\<close> are inverse: every duration that one of the tools puts
  into a URL is read back exactly by the service. The floating-point arithmetic of the parser is exact
  on what the printer writes, because at most nine digits of fraction are scaled by a power of ten.
\<close>

section \<open>Definitions\<close>

text \<open>The last \<open>k\<close> decimal digits of a number.\<close>

fun dec_digits :: "nat \<Rightarrow> nat \<Rightarrow> string" where
  "dec_digits 0 v = []"
| "dec_digits (Suc k) v = dec_digits k (v div 10) @ [digit_char (v mod 10)]"

text \<open>The rest of a text after a unit: nothing, or the digits of the next number.\<close>

definition after_unit :: "string \<Rightarrow> bool" where
  "after_unit s \<longleftrightarrow> s = [] \<or> is_digit (hd s)"

definition unit_text :: "string \<Rightarrow> bool" where
  "unit_text u \<longleftrightarrow> u \<noteq> [] \<and> (\<forall>c \<in> set u. c \<noteq> CHR ''.'' \<and> \<not> is_digit c)"

section \<open>Lemmas\<close>

subsection \<open>Exact floating point numbers\<close>

lemma f64_numeral_power: "j \<le> 15 \<Longrightarrow> f64 (10 ^ j) = 10 ^ j"
proof -
  assume j: "j \<le> 15"
  have "(10 :: nat) ^ j \<le> 10 ^ 15" using j by (intro power_increasing) auto
  then have "(10 :: nat) ^ j \<le> 2 ^ 53" by simp
  from f64_nat [OF this] show ?thesis by simp
qed

subsection \<open>Digits\<close>

lemma is_digit_char: "d < 10 \<Longrightarrow> is_digit (digit_char d)"
  by (simp add: is_digit_def digit_value_char)

lemma decimal_all_digits: "c \<in> set (decimal n) \<Longrightarrow> is_digit c"
  using decimal_digits is_digit_char by blast

lemma dec_digits_all: "c \<in> set (dec_digits k v) \<Longrightarrow> is_digit c"
  by (induction k v rule: dec_digits.induct) (auto simp: is_digit_char)

lemma length_dec_digits [simp]: "length (dec_digits k v) = k"
  by (induction k v rule: dec_digits.induct) auto

lemma dec_digits_mod: "dec_digits k (v mod 10 ^ k) = dec_digits k v"
proof (induction k arbitrary: v)
  case (Suc k)
  have "v mod 10 ^ Suc k = 10 * (v div 10 mod 10 ^ k) + v mod 10" using mod_mult2_eq [of v 10 "10 ^ k"] by simp
  then have "v mod 10 ^ Suc k div 10 = v div 10 mod 10 ^ k" "v mod 10 ^ Suc k mod 10 = v mod 10" by simp_all
  then show ?case using Suc [of "v div 10"] by (simp only: dec_digits.simps)
qed simp

lemma leading_int_append:
  "leading_int x (s @ t) = (case leading_int x s of None \<Rightarrow> None | Some y \<Rightarrow> leading_int y t)"
  by (induction x s rule: leading_int.induct) (auto simp: Let_def split: option.splits)

lemma leading_int_decimal: "v \<le> 2 ^ 63 \<Longrightarrow> leading_int 0 (decimal v) = Some v"
proof (induction v rule: decimal.induct)
  case (1 n)
  show ?case
  proof (cases "n < 10")
    case True
    then show ?thesis by (subst decimal.simps) (simp add: digit_value_char)
  next
    case False
    then have "leading_int 0 (decimal (n div 10)) = Some (n div 10)" using 1 by (simp add: div_le_dividend)
    moreover have "n div 10 \<le> 2 ^ 63 div 10" using 1(2) by (rule div_le_mono)
    moreover have "n div 10 * 10 + n mod 10 = n" by simp
    ultimately show ?thesis using False 1(2)
      by (subst decimal.simps) (simp del: decimal.simps add: leading_int_append digit_value_char)
  qed
qed

lemma leading_fraction_step:
  "y < 100000000 \<Longrightarrow> d < 10 \<Longrightarrow>
   leading_fraction False y sc (digit_char d # s) = leading_fraction False (y * 10 + d) (f64 (sc * 10)) s"
  by (simp add: digit_value_char Let_def)

lemma leading_fraction_digits:
  "j + k \<le> 9 \<Longrightarrow> x < 10 ^ j \<Longrightarrow>
   leading_fraction False x (10 ^ j) (dec_digits k v @ s) = leading_fraction False (x * 10 ^ k + v mod 10 ^ k) (10 ^ (j + k)) s"
proof (induction k arbitrary: v s)
  case (Suc k)
  let ?y = "x * 10 ^ k + (v div 10) mod 10 ^ k"
  have "x * 10 ^ k + 10 ^ k \<le> 10 ^ j * 10 ^ k"
    using Suc.prems(2) mult_right_mono [of "Suc x" "10 ^ j" "10 ^ k :: nat"] by simp
  moreover have "(v div 10) mod 10 ^ k < (10 :: nat) ^ k" by simp
  ultimately have "?y < 10 ^ (j + k)" unfolding power_add by linarith
  moreover have "(10 :: nat) ^ (j + k) \<le> 10 ^ 8" using Suc.prems(1) by (intro power_increasing) auto
  ultimately have y: "?y < 100000000" by simp
  have v: "?y * 10 + v mod 10 = x * 10 ^ Suc k + v mod 10 ^ Suc k"
    using mod_mult2_eq [of v 10 "10 ^ k"] by (simp add: algebra_simps)
  have sc: "f64 (10 ^ (j + k) * 10) = 10 ^ (j + Suc k)" using f64_numeral_power [of "j + Suc k"] Suc.prems(1) by (simp add: mult.commute)
  have "leading_fraction False x (10 ^ j) (dec_digits (Suc k) v @ s) =
      leading_fraction False ?y (10 ^ (j + k)) (digit_char (v mod 10) # s)"
    using Suc.IH [of "v div 10" "digit_char (v mod 10) # s"] Suc.prems by simp
  also have "\<dots> = leading_fraction False (?y * 10 + v mod 10) (10 ^ (j + Suc k)) s"
    using leading_fraction_step [OF y, of "v mod 10"] sc by simp
  finally show ?case by (simp only: v)
qed simp

lemma fmt_frac_printed: "fmt_frac k v True acc = (CHR ''.'' # dec_digits k v @ acc, v div 10 ^ k)"
  by (induction k arbitrary: v acc) (simp_all add: Let_def div_mult2_eq)

lemma fmt_frac_cases:
  obtains "v mod 10 ^ k = 0" "fmt_frac k v False acc = (acc, v div 10 ^ k)"
  | j w where "0 < j" "j \<le> k" "0 < w" "w < 10 ^ j" "w * 10 ^ (k - j) = v mod 10 ^ k"
      "fmt_frac k v False acc = (CHR ''.'' # dec_digits j w @ acc, v div 10 ^ k)"
proof (induction k arbitrary: v acc thesis)
  case 0
  then show ?case by simp
next
  case (Suc k)
  have split: "v mod 10 ^ Suc k = 10 * (v div 10 mod 10 ^ k) + v mod 10" using mod_mult2_eq [of v 10 "10 ^ k"] by simp
  show ?case
  proof (cases "v mod 10 = 0")
    case True
    then have f: "fmt_frac (Suc k) v False acc = fmt_frac k (v div 10) False acc" by simp
    show ?thesis
    proof (rule Suc.IH [of "v div 10" acc])
      assume "v div 10 mod 10 ^ k = 0" "fmt_frac k (v div 10) False acc = (acc, v div 10 div 10 ^ k)"
      then show thesis using Suc.prems(1) f split True by (simp add: div_mult2_eq)
    next
      fix j w
      assume a: "0 < j" "j \<le> k" "0 < w" "w < 10 ^ j" "w * 10 ^ (k - j) = v div 10 mod 10 ^ k"
        "fmt_frac k (v div 10) False acc = (CHR ''.'' # dec_digits j w @ acc, v div 10 div 10 ^ k)"
      have "w * 10 ^ (Suc k - j) = v mod 10 ^ Suc k" using a(2,5) split True by (simp add: Suc_diff_le)
      then show thesis using Suc.prems(2) [of j w] a f by (simp add: div_mult2_eq)
    qed
  next
    case False
    have "fmt_frac (Suc k) v False acc = (CHR ''.'' # dec_digits (Suc k) v @ acc, v div 10 ^ Suc k)"
      using False by (simp add: fmt_frac_printed div_mult2_eq)
    moreover have "dec_digits (Suc k) v = dec_digits (Suc k) (v mod 10 ^ Suc k)" by (rule dec_digits_mod [symmetric])
    moreover have "0 < v mod 10 ^ Suc k" using split False by simp
    ultimately show ?thesis using Suc.prems(2) [of "Suc k" "v mod 10 ^ Suc k"] by simp
  qed
qed

subsection \<open>One number with its unit\<close>

lemma takeWhile_unit: "unit_text u \<Longrightarrow> after_unit r \<Longrightarrow> takeWhile (\<lambda>c. c \<noteq> CHR ''.'' \<and> \<not> is_digit c) (u @ r) = u"
  by (cases r) (auto simp: unit_text_def after_unit_def)

lemma takeWhile_digits: "(\<And>c. c \<in> set ds \<Longrightarrow> is_digit c) \<Longrightarrow> \<not> is_digit (hd s) \<Longrightarrow> takeWhile is_digit (ds @ s) = ds"
  by (cases s) auto

lemma duration_part_whole:
  assumes u: "unit_text u" "duration_unit u = Some n" and r: "after_unit r" and v: "v * n \<le> 2 ^ 63" "0 < n"
  shows "duration_part (decimal v @ u @ r) = Some (v * n, r)"
proof -
  have un: "u \<noteq> []" "hd u \<noteq> CHR ''.''" "\<not> is_digit (hd u)" using u(1) by (cases u; auto simp: unit_text_def)+
  have ds: "takeWhile is_digit (decimal v @ u @ r) = decimal v"
    using un by (intro takeWhile_digits decimal_all_digits) auto
  have "v \<le> 2 ^ 63 div n" using v by (simp add: less_eq_div_iff_mult_less_eq)
  moreover have "v \<le> 2 ^ 63" using v by (metis le_trans less_eq_Suc_le mult_le_mono2 nat_mult_1_right One_nat_def)
  ultimately show ?thesis
    using u takeWhile_unit [OF u(1) r] v un
    by (simp add: duration_part_def ds Let_def leading_int_decimal)
qed

lemma duration_part_fraction:
  assumes u: "unit_text u" "duration_unit u = Some (10 ^ k)" "k \<le> 9" and r: "after_unit r"
    and j: "0 < j" "j \<le> k" "0 < w" "w < 10 ^ j" and v: "v * 10 ^ k + w * 10 ^ (k - j) \<le> 2 ^ 63"
  shows "duration_part (decimal v @ CHR ''.'' # dec_digits j w @ u @ r) = Some (v * 10 ^ k + w * 10 ^ (k - j), r)"
proof -
  have un: "u \<noteq> []" "hd u \<noteq> CHR ''.''" "\<not> is_digit (hd u)" using u(1) by (cases u; auto simp: unit_text_def)+
  have dot: "\<not> is_digit (CHR ''.'')" by (simp add: is_digit_def digit_value_def)
  have ds: "takeWhile is_digit (decimal v @ CHR ''.'' # dec_digits j w @ u @ r) = decimal v"
    using dot by (intro takeWhile_digits decimal_all_digits) auto
  have fs: "takeWhile is_digit (dec_digits j w @ u @ r) = dec_digits j w"
    using un by (intro takeWhile_digits dec_digits_all) auto
  have vn: "v * 10 ^ k \<le> 2 ^ 63" using v by simp
  then have "v \<le> 2 ^ 63 div 10 ^ k" by (simp add: less_eq_div_iff_mult_less_eq)
  have "v \<le> 2 ^ 63" using vn by (metis le_trans mult_le_mono2 nat_mult_1_right one_le_numeral one_le_power)
  have lf: "leading_fraction False 0 1 (dec_digits j w) = (w, 10 ^ j)"
    using leading_fraction_digits [of 0 j 0 w "[]"] j u(3) by simp
  have unit: "of_nat (10 ^ k) / (10 :: rat) ^ j = of_nat (10 ^ (k - j))" 
  proof -
    obtain i where "k = j + i" using j(2) le_Suc_ex by blast
    then show ?thesis by (simp add: power_add)
  qed
  have "w * 10 ^ (k - j) < 10 ^ j * 10 ^ (k - j)" using j(4) by simp
  also have "\<dots> = (10 :: nat) ^ k" using j(2) by (simp flip: power_add)
  also have "\<dots> \<le> 10 ^ 9" using u(3) by (intro power_increasing) auto
  finally have small: "w * 10 ^ (k - j) < 1000000000" by simp
  have "w < 1000000000" using small by (metis le_less_trans mult_le_mono2 nat_mult_1_right one_le_numeral one_le_power)
  then have fw: "f64 (of_nat w) = of_nat w" by (intro f64_nat) simp
  have "(10 :: nat) ^ (k - j) \<le> 10 ^ 9" using u(3) by (intro power_increasing) auto
  then have fu: "f64 (of_nat (10 ^ (k - j))) = of_nat (10 ^ (k - j))" by (intro f64_nat) simp
  have "f64 (of_nat (w * 10 ^ (k - j))) = of_nat (w * 10 ^ (k - j))" using small by (intro f64_nat) simp
  then have frac: "nat (trunc (f64 (f64 (of_nat w) * f64 (of_nat (10 ^ k) / 10 ^ j)))) = w * 10 ^ (k - j)"
    unfolding unit fw fu of_nat_mult [symmetric] by (simp only: trunc_def of_nat_less_0_iff if_False floor_of_nat nat_int)
  show ?thesis
    using u takeWhile_unit [OF u(1) r] v un dot j(1,3) frac \<open>v \<le> 2 ^ 63 div 10 ^ k\<close> \<open>v \<le> 2 ^ 63\<close>
    by (simp add: duration_part_def ds fs lf Let_def leading_int_decimal)
qed

lemma units:
  "unit_text ''ns''" "unit_text (bytes [194, 181] @ ''s'')" "unit_text ''ms''" "unit_text ''s''" "unit_text ''m''" "unit_text ''h''"
  "duration_unit ''ns'' = Some 1" "duration_unit (bytes [194, 181] @ ''s'') = Some 1000" "duration_unit ''ms'' = Some 1000000"
  "duration_unit ''s'' = Some 1000000000" "duration_unit ''m'' = Some 60000000000" "duration_unit ''h'' = Some 3600000000000"
  by (simp add: unit_text_def is_digit_def digit_value_def, code_simp)
     (simp_all add: unit_text_def duration_unit_def bytes_def is_digit_def digit_value_def)

lemma fmt_frac_mod: "fst (fmt_frac k (v mod 10 ^ k) p acc) = fst (fmt_frac k v p acc)"
proof (induction k arbitrary: v p acc)
  case (Suc k)
  have "v mod 10 ^ Suc k = 10 * (v div 10 mod 10 ^ k) + v mod 10" using mod_mult2_eq [of v 10 "10 ^ k"] by simp
  then have "v mod 10 ^ Suc k div 10 = v div 10 mod 10 ^ k" "v mod 10 ^ Suc k mod 10 = v mod 10" by simp_all
  then show ?case by (simp only: fmt_frac.simps Let_def Suc)
qed simp

text \<open>What \<open>fmtFrac\<close> and \<open>fmtInt\<close> print for a number of a decimal unit is read back.\<close>

lemma duration_part_fmt:
  assumes un: "unit_text un" "duration_unit un = Some (10 ^ k)" "k \<le> 9" and r: "after_unit r" and u: "u \<le> 2 ^ 63"
    and f: "fst (fmt_frac k u False un) = f"
  shows "duration_part (decimal (u div 10 ^ k) @ f @ r) = Some (u, r)"
proof (cases rule: fmt_frac_cases [of u k un])
  case 1
  have "u = u div 10 ^ k * 10 ^ k" using 1(1) by (metis add_0_right div_mult_mod_eq)
  then show ?thesis
    using duration_part_whole [OF un(1,2) r, of "u div 10 ^ k"] u 1(2) f by simp
next
  case (2 j w)
  have eq: "u div 10 ^ k * 10 ^ k + w * 10 ^ (k - j) = u" using 2(5) div_mult_mod_eq [of u "10 ^ k"] by simp
  have "f = CHR ''.'' # dec_digits j w @ un" using 2(6) f by simp
  then show ?thesis using duration_part_fraction [OF un r 2(1-4), of "u div 10 ^ k"] u eq by simp
qed

lemma duration_loop_step:
  assumes "duration_part (p @ r) = Some (x, r)" "p \<noteq> []" "d + x \<le> 2 ^ 63"
  shows "duration_loop d (p @ r) = duration_loop (d + x) r"
  using assms by (subst duration_loop.simps) simp

lemma duration_loop_Nil [simp]: "duration_loop d [] = Some d"
  by (subst duration_loop.simps) simp

lemma after_unit_decimal: "after_unit (decimal v @ s)"
  using decimal_all_digits [of "hd (decimal v)" v] by (simp add: after_unit_def hd_append)

lemma small_body:
  assumes "unit_text un" "duration_unit un = Some (10 ^ k)" "k \<le> 9" "u \<le> 2 ^ 63"
  shows "duration_loop 0 (let (f, v) = fmt_frac k u False un in decimal v @ f) = Some u"
proof -
  obtain f v where f: "fmt_frac k u False un = (f, v)" by (cases "fmt_frac k u False un")
  have v: "v = u div 10 ^ k" by (cases rule: fmt_frac_cases [of u k un]) (use f in auto)
  have "duration_part ((decimal v @ f) @ []) = Some (u, [])"
    using duration_part_fmt [OF assms(1-3) _ assms(4), of "[]" f] f v by (simp add: after_unit_def)
  from duration_loop_step [OF this, of 0] assms(4) f show ?thesis by simp
qed

lemma seconds_body:
  assumes u: "u \<le> 2 ^ 63"
  shows "duration_loop 0
    (let (f, v) = fmt_frac 9 u False ''s''; m = v div 60; h = m div 60
     in (if h > 0 then decimal h @ ''h'' else []) @ (if m > 0 then decimal (m mod 60) @ ''m'' else []) @ decimal (v mod 60) @ f) =
   Some u"
proof -
  define v where "v = u div 1000000000"
  define f where "f = fst (fmt_frac 9 u False ''s'')"
  define m where "m = v div 60"
  define h where "h = m div 60"
  define s where "s = v mod 60 * 1000000000 + u mod 1000000000"
  have fv: "fmt_frac 9 u False ''s'' = (f, v)"
    unfolding f_def v_def by (cases rule: fmt_frac_cases [of u 9 "''s''"]) auto
  have total: "h * 3600000000000 + m mod 60 * 60000000000 + s = u"
  proof -
    have "v * 1000000000 + u mod 1000000000 = u" "m * 60 + v mod 60 = v" "h * 60 + m mod 60 = m"
      by (simp_all add: v_def m_def h_def)
    then show ?thesis unfolding s_def by linarith
  qed
  have sd: "s div 10 ^ 9 = v mod 60" "s mod 10 ^ 9 = u mod 10 ^ 9" by (simp_all add: s_def)
  have fs: "fst (fmt_frac 9 s False ''s'') = f" using fmt_frac_mod [of 9 s False "''s''"] fmt_frac_mod [of 9 u False "''s''"] sd(2) by (simp add: f_def)
  have "duration_part ((decimal (v mod 60) @ f) @ []) = Some (s, [])"
    using duration_part_fmt [OF units(4), of 9 "[]" s f] units(10) total u fs sd(1) by (simp add: after_unit_def)
  note secs = duration_loop_step [OF this]
  have mins: "duration_part ((decimal (m mod 60) @ ''m'') @ decimal (v mod 60) @ f) = Some (m mod 60 * 60000000000, decimal (v mod 60) @ f)"
    using duration_part_whole [OF units(5,11) after_unit_decimal, of "m mod 60" "v mod 60" f] total u by simp
  note mins = duration_loop_step [OF mins]
  have hours: "duration_part ((decimal h @ ''h'') @ decimal x @ y) = Some (h * 3600000000000, decimal x @ y)" for x y
    using duration_part_whole [OF units(6,12) after_unit_decimal, of h x y] total u by simp
  note hours = duration_loop_step [OF hours]
  have m0: "m = 0 \<Longrightarrow> h = 0" by (simp add: h_def)
  have "duration_loop (h * 3600000000000 + m mod 60 * 60000000000) (decimal (v mod 60) @ f) = Some u"
    using secs [of "h * 3600000000000 + m mod 60 * 60000000000"] total u by simp
  moreover have "duration_loop (h * 3600000000000) (decimal (m mod 60) @ ''m'' @ decimal (v mod 60) @ f) =
      duration_loop (h * 3600000000000 + m mod 60 * 60000000000) (decimal (v mod 60) @ f)"
    using mins [of "h * 3600000000000"] total u by simp
  moreover have "duration_loop 0 (decimal h @ ''h'' @ decimal (m mod 60) @ ''m'' @ decimal (v mod 60) @ f) =
      duration_loop (h * 3600000000000) (decimal (m mod 60) @ ''m'' @ decimal (v mod 60) @ f)"
    using hours [of 0 "m mod 60" "''m'' @ decimal (v mod 60) @ f"] total u by simp
  ultimately show ?thesis using m0 fv by (auto simp: m_def [symmetric] h_def [symmetric])
qed

text \<open>Printing a duration and parsing it back.\<close>

lemma fmt_frac_nonempty: "fmt_frac k v p acc = (f, w) \<Longrightarrow> acc \<noteq> [] \<Longrightarrow> f \<noteq> []"
proof (induction k arbitrary: v p acc)
  case (Suc k)
  then show ?case by (fastforce simp: Let_def split: if_splits)
qed (auto split: if_splits)

lemma fmt_frac_zero: "fmt_frac k 0 False acc = (acc, 0)"
  by (induction k) simp_all

lemma decimal_zero: "decimal 0 = ''0''"
  by code_simp

lemma duration_body_loop:
  assumes "u \<le> 2 ^ 63"
  shows "duration_loop 0 (duration_body u) = Some u"
proof -
  have "duration_loop 0 ''0s'' = Some 0" using small_body [OF units(4), of 9 0] units(10) by (simp add: fmt_frac_zero decimal_zero)
  then show ?thesis
    using small_body [OF units(1), of 0 u] small_body [OF units(2), of 3 u] small_body [OF units(3), of 6 u]
      seconds_body [of u] units(7-10) assms
    by (simp add: duration_body_def)
qed

lemma duration_body_shape: "\<exists>x y. duration_body u = decimal x @ y \<and> y \<noteq> []"
proof -
  have small: "\<exists>x y. (let (f, v) = fmt_frac k u False un in decimal v @ f) = decimal x @ y \<and> y \<noteq> []" if "un \<noteq> []" for k un
  proof (cases "fmt_frac k u False un")
    case (Pair f v)
    then show ?thesis using fmt_frac_nonempty [OF Pair that] by auto
  qed
  have "\<exists>x y. (let (f, v) = fmt_frac 9 u False ''s''; m = v div 60; h = m div 60
      in (if h > 0 then decimal h @ ''h'' else []) @ (if m > 0 then decimal (m mod 60) @ ''m'' else []) @ decimal (v mod 60) @ f) =
      decimal x @ y \<and> y \<noteq> []"
  proof (cases "fmt_frac 9 u False ''s''")
    case (Pair f v)
    then have "f \<noteq> []" using fmt_frac_nonempty by blast
    then show ?thesis using Pair by (auto simp: Let_def)
  qed
  moreover have "\<exists>x y. ''0s'' = decimal x @ y \<and> y \<noteq> []" by (rule exI [of _ 0]) (simp add: decimal_zero)
  ultimately show ?thesis unfolding duration_body_def using small by (simp del: fmt_frac.simps)
qed

lemma ParseDuration_string:
  assumes "int64_ok d"
  shows "ParseDuration (duration_string d) = Some d"
proof -
  define u where "u = nat \<bar>d\<bar>"
  have u: "u \<le> 2 ^ 63" using assms by (auto simp: u_def int64_ok_def)
  obtain x y where b: "duration_body u = decimal x @ y" "y \<noteq> []" using duration_body_shape by blast
  have ne: "duration_body u \<noteq> []" "duration_body u \<noteq> ''0''"
    using b decimal_nonempty [of x] by (auto simp: append_eq_Cons_conv)
  have "\<exists>d < 10. hd (duration_body u) = digit_char d"
    using decimal_digits [of "hd (decimal x)" x] b by simp
  then have hd: "hd (duration_body u) \<noteq> CHR ''-''" "hd (duration_body u) \<noteq> CHR ''+''" by (metis digit_char_sign)+
  show ?thesis
    using duration_body_loop [OF u] ne hd assms
    by (auto simp: ParseDuration_def duration_string_def u_def [symmetric] Let_def int64_ok_def) (auto simp: u_def)
qed

end
