(* ===== verification/Traffic.thy ===== *)
theory Traffic
  imports Api Loadgen Wire Duration_Text
begin

text \<open>
  The load generator against the service: a request that cmd/loadgen sends is parsed by net/http and
  answered by the API with its middleware, and the answer is what the generator records. URLs are those
  the generator builds, which need no escapes except for the micro sign of a duration, which the
  client's escape and the server's unescape turn back into itself. Bodies are bytes in both directions.
\<close>

section \<open>Definitions\<close>

subsection \<open>Parsing a request\<close>

fun split_on :: "char \<Rightarrow> string \<Rightarrow> string \<Rightarrow> string list" where
  "split_on x cur [] = [cur]"
| "split_on x cur (c # s) = (if c = x then cur # split_on x [] s else split_on x (cur @ [c]) s)"

text \<open>\<open>url.ParseQuery\<close>: the pairs between ampersands, cut at the first equals sign.\<close>

definition query_pair :: "string \<Rightarrow> string \<times> string" where
  "query_pair s = (takeWhile (\<lambda>c. c \<noteq> CHR ''='') s, tl (dropWhile (\<lambda>c. c \<noteq> CHR ''='') s))"

definition parse_query :: "string \<Rightarrow> (string \<times> string) list" where
  "parse_query s = map query_pair (filter (\<lambda>p. p \<noteq> []) (split_on CHR ''&'' [] s))"

definition url_path :: "string \<Rightarrow> string" where
  "url_path u = takeWhile (\<lambda>c. c \<noteq> CHR ''?'') u"

definition url_query :: "string \<Rightarrow> string" where
  "url_query u = tl (dropWhile (\<lambda>c. c \<noteq> CHR ''?'') u)"

text \<open>The request the server sees; \<open>conn\<close> holds what the URL does not determine.\<close>

definition as_request :: "request \<Rightarrow> string \<Rightarrow> Loadgen.sent \<Rightarrow> request" where
  "as_request conn host q =
     (let u = drop (length host) (sent_url q)
      in conn\<lparr>Method := sent_method q, Path := url_path u, RawQuery := url_query u,
              Query := parse_query (url_query u), Pattern := []\<rparr>)"

definition with_body :: "string option \<Rightarrow> api_env \<Rightarrow> api_env" where
  "with_body b a = a\<lparr>request_body := (case b of None \<Rightarrow> [] | Some t \<Rightarrow> t)\<rparr>"

record server =
  s_lib :: uuid_lib
  s_api :: api_env
  s_env :: serve_env
  s_debug :: bool
  s_conn :: request
  s_zone :: "time \<Rightarrow> int" \<comment> \<open>the offsets of the local time zone\<close>
  s_took :: duration

definition serve_sent :: "server \<Rightarrow> table \<Rightarrow> string \<Rightarrow> Loadgen.sent \<Rightarrow> hres" where
  "serve_sent S t host q =
     serve (s_lib S) (with_body (sent_body q) (s_api S)) (s_env S) (s_debug S) (as_request (s_conn S) host q) t"

text \<open>
  The bytes of a response. A new order carries the UTC times of \<open>Build\<close>; the driver scans the
  times of a stored one into the local zone.
\<close>

definition wire_text :: "server \<Rightarrow> int \<Rightarrow> body list \<Rightarrow> string" where
  "wire_text S c bs = concat (map (body_text (ustring (s_lib S)) (if c = 201 then (\<lambda>_. 0) else s_zone S)) bs)"

definition api_net :: "server \<Rightarrow> table \<Rightarrow> string \<Rightarrow> Loadgen.sent \<Rightarrow> reply" where
  "api_net S t host q =
     (let cs = wcalls (hev (serve_sent S t host q)); c = client_status cs
      in Reply c (wire_text S c (content (client cs))) (s_took S))"

subsection \<open>The run\<close>

text \<open>
  One \<open>do\<close> of the generator while the database answers, the clock shows a year of four digits and the ids
  that the API draws are fresh, or
  anything else that happens to the table (the worker, other clients), as long as no order is deleted.
\<close>

definition healthy :: "uuid_lib \<Rightarrow> bool \<Rightarrow> server \<Rightarrow> table \<Rightarrow> bool" where
  "healthy U debug S t \<longleftrightarrow>
     s_lib S = U \<and> s_debug S = debug \<and> api_reply (s_api S) = ReplyOk \<and> fresh_id (s_api S) \<notin> set (map ID t) \<and>
     year_ok 0 (api_now (s_api S))"

inductive traffic :: "uuid_lib \<Rightarrow> bool \<Rightarrow> generator \<times> table \<Rightarrow> generator \<times> table \<Rightarrow> bool"
  for U debug where
  Do: "healthy U debug S t \<Longrightarrow> gen_do (api_net S t (base g)) r g = ((g', q), r') \<Longrightarrow>
    traffic U debug (g, t) (g', htab (serve_sent S t (base g) q))"
| Elsewhere: "set (map ID t) \<subseteq> set (map ID t') \<Longrightarrow> traffic U debug (g, t) (g, t')"

text \<open>The documented behaviour of the UUID package on the texts the generator sends.\<close>

definition uuid_texts :: "uuid_lib \<Rightarrow> bool" where
  "uuid_texts U \<longleftrightarrow> uuid_lib_ok U \<and> ustring U = canonical \<and>
     (\<forall>s i. parse_canonical s = Some i \<longrightarrow> uparse U s = Some i) \<and> uparse U ''not-a-uuid'' = None"

text \<open>The status that the name of an operation announces.\<close>

definition announced :: "bool \<Rightarrow> duration \<Rightarrow> opKind \<Rightarrow> int" where
  "announced debug d k =
     (case k of
        opCreate \<Rightarrow> 201 | opGet \<Rightarrow> 200 | opList \<Rightarrow> 200 | opGetMissing \<Rightarrow> 404 | opBadPayload \<Rightarrow> 422
      | opBadUUID \<Rightarrow> 400 | opUnknownPath \<Rightarrow> 404
      | opSlow \<Rightarrow> if \<not> debug then 404 else if 0 \<le> d \<and> d \<le> 5 * Second then 200 else 400)"

definition traffic_inv :: "uuid_lib \<Rightarrow> bool \<Rightarrow> generator \<times> table \<Rightarrow> bool" where
  "traffic_inv U debug s \<longleftrightarrow>
     (\<forall>i \<in> set (buf (ids (fst s))). i \<in> ustring U ` set (map ID (snd s))) \<and>
     (\<forall>k c. 0 < tally (stat_codes (stat_of (res_of (fst s)) k)) c \<longrightarrow>
        c = announced debug (slowDelay (fst s)) k \<or> k = opGetMissing \<and> c = 200)"

text \<open>An id in a URL.\<close>

definition id_text :: "string \<Rightarrow> bool" where
  "id_text s \<longleftrightarrow> list_all (\<lambda>c. c \<noteq> CHR ''/'' \<and> c \<noteq> CHR ''?'') s \<and> s \<notin> {[], ''.'', ''..''}"

text \<open>What a handler writes after the status.\<close>

fun bodies :: "wcall list \<Rightarrow> body list" where
  "bodies [] = []"
| "bodies (Write b n e # cs) = b # bodies cs"
| "bodies (_ # cs) = bodies cs"

subsection \<open>A concrete run\<close>

definition sample_server :: server where
  "sample_server =
     \<lparr>s_lib = canonical_lib, s_api = sample_api, s_env = sample_serve_env, s_debug = False, s_conn = sample_request,
      s_zone = (\<lambda>_. 0), s_took = 3\<rparr>"

definition sample_generator :: generator where
  "sample_generator =
     \<lparr>base = ''http://h'', ids = newIDRing 2048, res_of = newResults, slowFrac = Finite 0, slowDelay = Second\<rparr>"

definition zero_rand :: rand where
  "zero_rand = \<lparr>draws = (\<lambda>_. 0), unit_draws = (\<lambda>_. 0), drawn = 0\<rparr>"

section \<open>Lemmas\<close>

subsection \<open>Bodies\<close>

lemma bodies_append [simp]: "bodies (cs @ ds) = bodies cs @ bodies ds"
  by (induction cs rule: bodies.induct) auto

lemma bodies_Cons: "bodies (c # cs) = bodies [c] @ bodies cs"
  by (cases c) auto

lemma content_header [simp]: "content (base_header c w) = content w"
  by (simp add: base_header_def)

lemma content_fold: "content (fold base_call cs w) = content w @ bodies cs"
  by (induction cs arbitrary: w rule: bodies.induct) (auto simp: Let_def)

lemma content_client: "content (client cs) = bodies cs"
  by (simp add: client_def content_fold new_response_def)

context status_recorder
begin

lemma call_bodies: "bodies (snd (call c r)) = bodies [c]"
proof (cases c)
  case (SetHeader k v)
  then show ?thesis by (simp add: set_header)
next
  case (WriteHeader d)
  then show ?thesis using header_first [of r d] header_again [of r d] by (cases "wrote r") auto
next
  case (Write b n e)
  then show ?thesis using body_write [of b n e r] by (auto split: if_splits)
qed

lemma through_bodies: "bodies (wcalls (snd (through call r es))) = bodies (wcalls es)"
proof (induction es arbitrary: r)
  case (Cons ev es)
  show ?case
  proof (cases ev)
    case (W c)
    then show ?thesis using Cons.IH [of "fst (call c r)"] call_bodies [of c r] bodies_Cons [of c "wcalls es"]
      by (simp add: split_beta)
  qed (use Cons.IH in \<open>simp_all add: split_beta\<close>)
qed simp

end

lemma layer_bodies:
  "bodies (wcalls (hev (AccessLog env h r t))) = bodies (wcalls (hev (h r t)))"
  "bodies (wcalls (hev (http_Middleware env h r t))) = bodies (wcalls (hev (h r t)))"
  "bodies (wcalls (hev (RequestID env h (traced_request env r) t))) = bodies (wcalls (hev (h (inner_request env r) t)))"
  "bodies (wcalls (hev (tracing_Middleware env h r t))) = bodies (wcalls (hev (h (traced_request env r) t)))"
  subgoal using access_rec.through_bodies [of statusRecorder "hev (h r t)"] by (simp add: AccessLog_def Let_def split_beta)
  subgoal using metrics_rec.through_bodies [of responseRecorder "hev (h r t)"] by (simp add: http_Middleware_def Let_def split_beta)
  subgoal by (simp add: RequestID_def Let_def inner_request_def request_id_def split_beta)
  subgoal using trace_rec.through_bodies [of traceRecorder "hev (h (traced_request env r) t)"]
    by (auto simp: tracing_Middleware_def Let_def traced_request_def probe_def split_beta split: option.splits)
  done

lemma stack_bodies:
  assumes "hpanic (h (inner_request env r) t) = None"
  shows "bodies (wcalls (hev (stack env h r t))) = bodies (wcalls (hev (h (inner_request env r) t)))"
  using Recover_other [of h env r t] assms by (simp add: stack_eq layer_bodies recovered_def)

subsection \<open>Serving a parsed request\<close>

lemma inner_query [simp]: "Query (inner_request env r) = Query r"
  by (simp add: inner_request_def traced_request_def Let_def)

lemma as_request_sel [simp]:
  "Method (as_request conn host q) = sent_method q" "Pattern (as_request conn host q) = []"
  "sent_url q = host @ u \<Longrightarrow> Path (as_request conn host q) = url_path u"
  "sent_url q = host @ u \<Longrightarrow> Query (as_request conn host q) = parse_query (url_query u)"
  by (simp_all add: as_request_def Let_def)

lemma serve_response:
  assumes "\<not> probe r" "Pattern r = []"
    and "hpanic (mux U a env debug (inner_request env r) t) = None"
    and "first_status (wcalls (hev (mux U a env debug (inner_request env r) t))) = Some c"
  shows "client_status (wcalls (hev (serve U a env debug r t))) = c"
    "content (client (wcalls (hev (serve U a env debug r t)))) = bodies (wcalls (hev (mux U a env debug (inner_request env r) t)))"
    "htab (serve U a env debug r t) = htab (mux U a env debug (inner_request env r) t)"
proof -
  let ?h = "mux U a env debug" and ?i = "inner_request env r"
  have tm: "plain (wcalls (hev (?h ?i t)))"
    using mux_tame(1) [of ?i U a env debug t] assms(2) by (auto dest: tame_fields)
  have rec: "recovered env ?h r t = ?h ?i t" using Recover_other [of ?h env r t] assms(3) by simp
  have "same_response (?h ?i t) (stack env ?h r t)"
    using stack_spec [OF assms(1), of env ?h t] tm unfolding rec by simp
  then show "client_status (wcalls (hev (serve U a env debug r t))) = c" "htab (serve U a env debug r t) = htab (?h ?i t)"
    using client_status_first [OF tm] assms(4) by (simp_all add: serve_def same_response_def)
  show "content (client (wcalls (hev (serve U a env debug r t)))) = bodies (wcalls (hev (?h ?i t)))"
    using stack_bodies [of ?h env r t] assms(3) by (simp add: content_client serve_def)
qed

text \<open>A request whose path is clean and matches an endpoint.\<close>

lemma sent_response:
  assumes "sent_url q = host @ u" "sent_method q \<noteq> ''CONNECT''" "cleanPath (url_path u) = url_path u"
    and "url_path u \<notin> {''*'', ''/healthz'', ''/readyz''}"
    and "mux_match (s_debug S) (sent_method q) (split_slash [] (tl (url_path u))) = (pat, e)"
    and "x = run_endpoint (s_lib S) (with_body (sent_body q) (s_api S)) (s_env S) e
      ((inner_request (s_env S) (as_request (s_conn S) host q))\<lparr>Pattern := pat\<rparr>) t"
    and "hpanic x = None" "first_status (wcalls (hev x)) = Some c"
  shows "api_net S t host q = Reply c (wire_text S c (bodies (wcalls (hev x)))) (s_took S)"
    "htab (serve_sent S t host q) = htab x"
proof -
  let ?r = "as_request (s_conn S) host q"
  have m: "mux (s_lib S) (with_body (sent_body q) (s_api S)) (s_env S) (s_debug S) (inner_request (s_env S) ?r) t = x"
    using assms(1-6) by (simp add: mux_def)
  have "\<not> probe ?r" using assms(1,4) by (simp add: probe_def)
  from serve_response [OF this as_request_sel(2), of "s_lib S" "with_body (sent_body q) (s_api S)" "s_env S" "s_debug S" t c,
      unfolded m, OF assms(7,8)]
  show "api_net S t host q = Reply c (wire_text S c (bodies (wcalls (hev x)))) (s_took S)"
    "htab (serve_sent S t host q) = htab x"
    by (simp_all add: api_net_def serve_sent_def Let_def)
qed

lemma with_body_sel [simp]:
  "decoded (with_body b a) = decode_order (case b of None \<Rightarrow> [] | Some t \<Rightarrow> t)"
  "api_reply (with_body b a) = api_reply a" "fresh_id (with_body b a) = fresh_id a" "api_now (with_body b a) = api_now a"
  "pg_time (with_body b a) = pg_time a"
  by (simp_all add: with_body_def decoded_def)

lemma plain_paths:
  "url_path ''/orders'' = ''/orders''" "cleanPath ''/orders'' = ''/orders''" "split_slash [] ''orders'' = [''orders'']"
  "url_path ''/does-not-exist'' = ''/does-not-exist''" "cleanPath ''/does-not-exist'' = ''/does-not-exist''"
  "split_slash [] ''does-not-exist'' = [''does-not-exist'']"
  "cleanPath ''/debug/slow'' = ''/debug/slow''" "split_slash [] ''debug/slow'' = [''debug'', ''slow'']"
  by code_simp+

lemma sent_create:
  assumes "sent_method q = ''POST''" "sent_url q = host @ ''/orders''" "sent_body q = Some b" "decode_order b = Some n"
    and "uuid_lib_ok (s_lib S)" "api_reply (s_api S) = ReplyOk" "fresh_id (s_api S) \<notin> set (map ID t)"
    and "Validate n = None" "text_ok (NewCustomerID n)"
  shows "api_net S t host q = Reply 201 (body_text (ustring (s_lib S)) (\<lambda>_. 0) (OrderBody (Build (fresh_id (s_api S)) (api_now (s_api S)) n))) (s_took S) \<and>
    htab (serve_sent S t host q) = t @ [stored (pg_time (s_api S)) (Build (fresh_id (s_api S)) (api_now (s_api S)) n)]"
proof -
  let ?a = "with_body (sent_body q) (s_api S)"
  have acc: "accepted ?a" using assms by (simp add: accepted_def)
  let ?i = "(inner_request (s_env S) (as_request (s_conn S) host q))\<lparr>Pattern := ''POST /orders''\<rparr>"
  let ?x = "createOrder (s_lib S) ?a (s_env S) ?i t"
  from createOrder_cases [OF assms(5), of ?a t "s_env S" ?i] acc assms(3,4,7)
  have x: "?x = returns
        (map E (OrderCreated (NewCurrency n) (NewAmountCents n)) @
         [W (SetHeader ''Location'' (''/orders/'' @ ustring (s_lib S) (fresh_id (s_api S))))] @
         writeJSON (s_env S) (CtxAttrs ?i) 201 (Some (OrderBody (Build (fresh_id (s_api S)) (api_now ?a) n)))) (Pattern ?i)
        (t @ [stored (pg_time ?a) (Build (fresh_id (s_api S)) (api_now ?a) n)])" by auto
  have "mux_match (s_debug S) (sent_method q) (split_slash [] (tl (url_path ''/orders''))) = (''POST /orders'', CreateOrderE)"
    by (simp add: plain_paths mux_match_def assms(1))
  from sent_response [OF assms(2) _ _ _ this, of ?x t 201] show ?thesis
    by (auto simp: assms(1) plain_paths run_endpoint_def x wire_text_def)
qed

lemma sent_invalid:
  assumes "sent_method q = ''POST''" "sent_url q = host @ ''/orders''" "sent_body q = Some b" "decode_order b = Some n" "Validate n \<noteq> None"
  shows "\<exists>out d. api_net S t host q = Reply 422 out d" "htab (serve_sent S t host q) = t"
proof -
  let ?i = "(inner_request (s_env S) (as_request (s_conn S) host q))\<lparr>Pattern := ''POST /orders''\<rparr>"
  let ?x = "createOrder (s_lib S) (with_body (sent_body q) (s_api S)) (s_env S) ?i t"
  have x: "hpanic ?x = None" "first_status (wcalls (hev ?x)) = Some 422" "htab ?x = t"
    using assms(3-5) by (auto simp: createOrder_def Let_def split: option.splits)
  have "mux_match (s_debug S) (sent_method q) (split_slash [] (tl (url_path ''/orders''))) = (''POST /orders'', CreateOrderE)"
    by (simp add: plain_paths mux_match_def assms(1))
  note resp = sent_response [OF assms(2) _ _ _ this, of ?x t 422]
  show "\<exists>out d. api_net S t host q = Reply 422 out d" "htab (serve_sent S t host q) = t"
    using resp x by (auto simp: assms(1) plain_paths run_endpoint_def)
qed

lemma sent_unknown:
  assumes "sent_method q = ''GET''" "sent_url q = host @ ''/does-not-exist''"
  shows "\<exists>out d. api_net S t host q = Reply 404 out d" "htab (serve_sent S t host q) = t"
proof -
  let ?i = "(inner_request (s_env S) (as_request (s_conn S) host q))\<lparr>Pattern := ''/''\<rparr>"
  let ?x = "catchAll (s_env S) ?i t"
  have "mux_match (s_debug S) (sent_method q) (split_slash [] (tl (url_path ''/does-not-exist''))) = (''/'', CatchAll)"
    by (simp add: plain_paths mux_match_def assms(1))
  note resp = sent_response [OF assms(2) _ _ _ this, of ?x t 404]
  show "\<exists>out d. api_net S t host q = Reply 404 out d" "htab (serve_sent S t host q) = t"
    using resp by (auto simp: assms(1) plain_paths run_endpoint_def catchAll_def)
qed

lemma get_route:
  assumes "sent_method q = ''GET''" "sent_url q = host @ ''/orders/'' @ s" "id_text s"
    and "x = getOrder (s_lib S) (with_body (sent_body q) (s_api S)) (s_env S) s
      ((inner_request (s_env S) (as_request (s_conn S) host q))\<lparr>Pattern := ''GET /orders/{id}''\<rparr>) t"
    and "hpanic x = None" "first_status (wcalls (hev x)) = Some c"
  shows "api_net S t host q = Reply c (wire_text S c (bodies (wcalls (hev x)))) (s_took S)"
    "htab (serve_sent S t host q) = htab x"
proof -
  let ?i = "(inner_request (s_env S) (as_request (s_conn S) host q))\<lparr>Pattern := ''GET /orders/{id}''\<rparr>"
  have s: "CHR ''/'' \<notin> set s" "s \<notin> {[], ''.'', ''..''}" and qm: "\<forall>c \<in> set s. c \<noteq> CHR ''?''"
    using assms(3) by (auto simp: id_text_def list_all_iff)
  have path: "url_path (''/orders/'' @ s) = ''/orders/'' @ s" using qm by (simp add: url_path_def takeWhile_eq_all_conv)
  have segs: "split_slash [] (tl (url_path (''/orders/'' @ s))) = [''orders'', s]"
    unfolding path using clean_two(2) [OF s] by simp
  have match: "mux_match (s_debug S) (sent_method q) (split_slash [] (tl (url_path (''/orders/'' @ s)))) = (''GET /orders/{id}'', GetOrderE s)"
    unfolding segs using s(2) by (simp add: mux_match_def assms(1))
  have clean: "cleanPath (url_path (''/orders/'' @ s)) = url_path (''/orders/'' @ s)"
    "url_path (''/orders/'' @ s) \<notin> {''*'', ''/healthz'', ''/readyz''}"
    unfolding path using clean_two(1) [OF s] by simp_all
  have x: "x = run_endpoint (s_lib S) (with_body (sent_body q) (s_api S)) (s_env S) (GetOrderE s) ?i t"
    by (simp add: run_endpoint_def assms(4))
  have m: "sent_method q \<noteq> ''CONNECT''" by (simp add: assms(1))
  note resp = sent_response [OF assms(2) m clean match x assms(5,6)]
  show "api_net S t host q = Reply c (wire_text S c (bodies (wcalls (hev x)))) (s_took S)" "htab (serve_sent S t host q) = htab x"
    using resp by simp_all
qed

lemma sent_get:
  assumes "sent_method q = ''GET''" "sent_url q = host @ ''/orders/'' @ s" "id_text s"
    and "uuid_lib_ok (s_lib S)" "api_reply (s_api S) = ReplyOk"
  shows "\<exists>out d. api_net S t host q =
      Reply (case uparse (s_lib S) s of None \<Rightarrow> 400 | Some i \<Rightarrow> if i \<in> set (map ID t) then 200 else 404) out d"
    "htab (serve_sent S t host q) = t"
proof -
  let ?i = "(inner_request (s_env S) (as_request (s_conn S) host q))\<lparr>Pattern := ''GET /orders/{id}''\<rparr>"
  let ?x = "getOrder (s_lib S) (with_body (sent_body q) (s_api S)) (s_env S) s ?i t"
  let ?c = "case uparse (s_lib S) s of None \<Rightarrow> 400 | Some i \<Rightarrow> if i \<in> set (map ID t) then 200 else (404 :: int)"
  have found: "find (\<lambda>r. ID r = i) t = None \<longleftrightarrow> i \<notin> set (map ID t)" for i by (auto simp: find_None_iff)
  then have hit: "i \<in> ID ` set t" if "find (\<lambda>r. ID r = i) t = Some y" for i y using that found [of i] by auto
  have x: "hpanic ?x = None" "first_status (wcalls (hev ?x)) = Some ?c" "htab ?x = t"
    using assms(5) found hit by (auto simp: getOrder_def Let_def GetOrder_ok [OF assms(4)] split: option.splits)
  show "\<exists>out d. api_net S t host q = Reply ?c out d" "htab (serve_sent S t host q) = t"
    using get_route [OF assms(1-3) refl x(1,2)] x(3) by auto
qed

lemma sent_get_found:
  assumes "sent_method q = ''GET''" "sent_url q = host @ ''/orders/'' @ s" "id_text s"
    and "uuid_lib_ok (s_lib S)" "api_reply (s_api S) = ReplyOk" "uparse (s_lib S) s = Some i" "find (\<lambda>r. ID r = i) t = Some y"
  shows "api_net S t host q = Reply 200 (body_text (ustring (s_lib S)) (s_zone S) (OrderBody y)) (s_took S)"
proof -
  let ?i = "(inner_request (s_env S) (as_request (s_conn S) host q))\<lparr>Pattern := ''GET /orders/{id}''\<rparr>"
  let ?x = "getOrder (s_lib S) (with_body (sent_body q) (s_api S)) (s_env S) s ?i t"
  have x: "?x = returns (writeJSON (s_env S) (CtxAttrs ?i) 200 (Some (OrderBody y))) (Pattern ?i) t"
    using assms(5-7) by (simp add: getOrder_def Let_def GetOrder_ok [OF assms(4)])
  show ?thesis
    using get_route(1) [OF assms(1-3) refl, of S t 200] unfolding x by (simp add: wire_text_def)
qed

subsection \<open>Queries\<close>

lemma split_on_plain: "x \<notin> set s \<Longrightarrow> split_on x cur s = [cur @ s]"
  by (induction x cur s rule: split_on.induct) auto

lemma split_on_append: "x \<notin> set s \<Longrightarrow> split_on x cur (s @ x # r) = (cur @ s) # split_on x [] r"
  by (induction x cur s rule: split_on.induct) auto

lemma url_parts:
  "CHR ''?'' \<notin> set p \<Longrightarrow> url_path (p @ CHR ''?'' # r) = p" "CHR ''?'' \<notin> set p \<Longrightarrow> url_query (p @ CHR ''?'' # r) = r"
proof -
  assume p: "CHR ''?'' \<notin> set p"
  then have a: "\<forall>c \<in> set p. c \<noteq> CHR ''?''" by auto
  show "url_path (p @ CHR ''?'' # r) = p" using a by (simp add: url_path_def takeWhile_append2)
  show "url_query (p @ CHR ''?'' # r) = r" using a by (simp add: url_query_def dropWhile_append2)
qed

lemma query_pair_eq: "CHR ''='' \<notin> set k \<Longrightarrow> query_pair (k @ CHR ''='' # v) = (k, v)"
proof -
  assume "CHR ''='' \<notin> set k"
  then have "\<forall>c \<in> set k. c \<noteq> CHR ''=''" by auto
  then show ?thesis by (simp add: query_pair_def takeWhile_append2 dropWhile_append2)
qed

lemma decimal_no: "digit_value c = None \<Longrightarrow> c \<notin> set (decimal n)"
  using decimal_digits [of c n] digit_value_char by fastforce

lemma amp_no_digit: "CHR ''&'' \<notin> set (decimal n)"
  by (rule decimal_no) code_simp

lemma fmt_frac_chars: "set (fst (fmt_frac k v p acc)) \<subseteq> insert (CHR ''.'') (digit_char ` {..<10} \<union> set acc)"
proof (induction k v p acc rule: fmt_frac.induct)
  case (2 k v p acc)
  have "v mod 10 \<in> {..<10}" by simp
  then have "digit_char (v mod 10) \<in> digit_char ` {..<10}" by blast
  with 2 show ?case by (auto simp: Let_def split: if_splits)
qed auto

lemma amp_no_frac: "CHR ''&'' \<notin> set acc \<Longrightarrow> CHR ''&'' \<notin> set (fst (fmt_frac k v p acc))"
proof -
  have "digit_value (CHR ''&'') = None" by code_simp
  then have "CHR ''&'' \<notin> digit_char ` {..<10}" using digit_value_char by fastforce
  then show "CHR ''&'' \<notin> set acc \<Longrightarrow> ?thesis" using fmt_frac_chars [of k v p acc] by auto
qed

lemma amp_no_duration: "CHR ''&'' \<notin> set (duration_string d)"
proof -
  have "CHR ''&'' \<notin> set (bytes [194, 181])" by code_simp
  then have "CHR ''&'' \<notin> set (duration_body u)" for u
    by (simp add: duration_body_def Let_def split_beta amp_no_digit amp_no_frac)
  then show ?thesis by (simp add: duration_string_def)
qed

lemma list_query:
  assumes "st \<in> {[], ''pending'', ''paid'', ''failed''}"
    and "u = ''/orders?limit='' @ decimal l @ ''&offset='' @ decimal f @ (if st = [] then [] else ''&status='' @ st)"
  shows "url_path u = ''/orders''"
    "map_of (parse_query (url_query u)) ''limit'' = Some (decimal l)" "map_of (parse_query (url_query u)) ''offset'' = Some (decimal f)"
    "map_of (parse_query (url_query u)) ''status'' = (if st = [] then None else Some st)"
proof -
  let ?s = "if st = [] then [] else ''&status='' @ st"
  have u: "u = ''/orders'' @ CHR ''?'' # ''limit='' @ decimal l @ ''&offset='' @ decimal f @ ?s" by (simp add: assms(2))
  show "url_path u = ''/orders''" unfolding u by (rule url_parts) simp
  have q: "url_query u = (''limit='' @ decimal l) @ CHR ''&'' # ''offset='' @ decimal f @ ?s" unfolding u by (subst url_parts) simp_all
  have sp: "split_on CHR ''&'' [] (''offset='' @ decimal f @ ?s) = (''offset='' @ decimal f) # (if st = [] then [] else [''status='' @ st])"
  proof (cases "st = []")
    case True
    then show ?thesis using split_on_plain [of "CHR ''&''" "''offset='' @ decimal f" "[]"] amp_no_digit by simp
  next
    case False
    have "CHR ''&'' \<notin> set (''status='' @ st)" using assms(1) by auto
    then show ?thesis using split_on_append [of "CHR ''&''" "''offset='' @ decimal f" "[]" "''status='' @ st"] amp_no_digit False
      by (simp add: split_on_plain)
  qed
  have lim: "split_on CHR ''&'' [] (url_query u) = (''limit='' @ decimal l) # split_on CHR ''&'' [] (''offset='' @ decimal f @ ?s)"
    unfolding q using amp_no_digit by (subst split_on_append) simp_all
  have pr: "query_pair (''limit='' @ v) = (''limit'', v)" "query_pair (''offset='' @ v) = (''offset'', v)"
    "query_pair (''status='' @ v) = (''status'', v)" for v
    using query_pair_eq [of "''limit''" v] query_pair_eq [of "''offset''" v] query_pair_eq [of "''status''" v] by simp_all
  have "parse_query (url_query u) = (''limit'', decimal l) # (''offset'', decimal f) # (if st = [] then [] else [(''status'', st)])"
    unfolding parse_query_def lim sp using pr by simp
  then show "map_of (parse_query (url_query u)) ''limit'' = Some (decimal l)" "map_of (parse_query (url_query u)) ''offset'' = Some (decimal f)"
    "map_of (parse_query (url_query u)) ''status'' = (if st = [] then None else Some st)"
    by simp_all
qed

lemma atoi_decimal: "n < 2 ^ 63 \<Longrightarrow> atoi (decimal n) = Some (int n)"
  using atoi_itoa [of "int n"] by (simp add: itoa_def int64_ok_def)

lemma sent_list:
  assumes "sent_method q = ''GET''" "sent_url q = host @ u" "st \<in> {[], ''pending'', ''paid'', ''failed''}"
    and "u = ''/orders?limit='' @ decimal l @ ''&offset='' @ decimal f @ (if st = [] then [] else ''&status='' @ st)"
    and "1 \<le> l" "l \<le> 100" "f < 2 ^ 63" "uuid_lib_ok (s_lib S)" "api_reply (s_api S) = ReplyOk"
  shows "\<exists>out d. api_net S t host q = Reply 200 out d" "htab (serve_sent S t host q) = t"
proof -
  let ?i = "(inner_request (s_env S) (as_request (s_conn S) host q))\<lparr>Pattern := ''GET /orders''\<rparr>"
  let ?x = "listOrders (s_lib S) (with_body (sent_body q) (s_api S)) (s_env S) ?i t"
  note lq = list_query [OF assms(3,4)]
  have par: "intParam (query_get ?i ''limit'') 20 = Some (int l)" "intParam (query_get ?i ''offset'') 0 = Some (int f)"
    "query_get ?i ''status'' = st"
    using lq(2-4) assms(2,6,7) by (simp_all add: query_get_def intParam_def atoi_decimal)
  have "st = [] \<or> Valid st" using assms(3) by (auto simp: Valid_def StatusPending_def StatusPaid_def StatusFailed_def)
  then have x: "hpanic ?x = None" "first_status (wcalls (hev ?x)) = Some 200" "htab ?x = t"
    using assms(5,6,8,9) by (auto simp: listOrders_def Let_def par ListOrders_ok)
  have match: "mux_match (s_debug S) (sent_method q) (split_slash [] (tl (url_path u))) = (''GET /orders'', ListOrdersE)"
    by (simp add: lq(1) plain_paths mux_match_def assms(1))
  have clean: "cleanPath (url_path u) = url_path u" "url_path u \<notin> {''*'', ''/healthz'', ''/readyz''}"
    by (simp_all add: lq(1) plain_paths)
  have "?x = run_endpoint (s_lib S) (with_body (sent_body q) (s_api S)) (s_env S) ListOrdersE ?i t" by (simp add: run_endpoint_def)
  note resp = sent_response [OF assms(2) _ clean match this x(1,2)]
  show "\<exists>out d. api_net S t host q = Reply 200 out d" "htab (serve_sent S t host q) = t"
    using resp x(3) assms(1) by auto
qed

lemma sent_slow:
  assumes "sent_method q = ''GET''" "sent_url q = host @ ''/debug/slow?d='' @ duration_string d" "int64_ok d"
    and "api_reply (s_api S) = ReplyOk"
  shows "\<exists>out w. api_net S t host q = Reply (announced (s_debug S) d opSlow) out w" "htab (serve_sent S t host q) = t"
proof -
  define u where "u = ''/debug/slow?d='' @ duration_string d"
  have "u = ''/debug/slow'' @ CHR ''?'' # ''d='' @ duration_string d" by (simp add: u_def)
  then have p: "url_path u = ''/debug/slow''" "url_query u = ''d='' @ duration_string d" using url_parts [of "''/debug/slow''"] by simp_all
  have "query_pair (''d='' @ duration_string d) = (''d'', duration_string d)" using query_pair_eq [of "''d''"] by simp
  then have pq: "parse_query (url_query u) = [(''d'', duration_string d)]"
    using split_on_plain [of "CHR ''&''" "''d='' @ duration_string d" "[]"] amp_no_duration [of d] by (simp add: parse_query_def p(2))
  have url: "sent_url q = host @ u" using assms(2) by (simp add: u_def)
  have clean: "cleanPath (url_path u) = url_path u" "url_path u \<notin> {''*'', ''/healthz'', ''/readyz''}"
    by (simp_all add: p(1) plain_paths)
  let ?i = "\<lambda>pat. (inner_request (s_env S) (as_request (s_conn S) host q))\<lparr>Pattern := pat\<rparr>"
  define e where "e = (if s_debug S then SlowQuery else CatchAll)"
  define pat where "pat = (if s_debug S then ''GET /debug/slow'' else ''/'')"
  let ?x = "run_endpoint (s_lib S) (with_body (sent_body q) (s_api S)) (s_env S) e (?i pat) t"
  have match: "mux_match (s_debug S) (sent_method q) (split_slash [] (tl (url_path u))) = (pat, e)"
    by (simp add: p(1) plain_paths mux_match_def assms(1) e_def pat_def)
  have get: "query_get (?i r) ''d'' = duration_string d" for r using url pq by (simp add: query_get_def)
  have ne: "duration_string d \<noteq> []" using ParseDuration_string [OF assms(3)] by (auto simp: ParseDuration_def)
  have x: "hpanic ?x = None" "first_status (wcalls (hev ?x)) = Some (announced (s_debug S) d opSlow)" "htab ?x = t"
    using assms(4) ne ParseDuration_string [OF assms(3)]
    by (auto simp: e_def run_endpoint_def slowQuery_def catchAll_def Let_def get announced_def Sleep_def pg_run_def)
  show "\<exists>out w. api_net S t host q = Reply (announced (s_debug S) d opSlow) out w" "htab (serve_sent S t host q) = t"
    using sent_response [OF url _ clean match refl x(1,2)] x(3) assms(1) by auto
qed

subsection \<open>The texts of ids\<close>

lemma hex_values_no: "hex_values s \<noteq> None \<Longrightarrow> hex_value c = None \<Longrightarrow> c \<notin> set s"
  by (induction s) (auto split: option.splits)

lemma set_dashes: "set (dashes h) \<subseteq> insert (CHR ''-'') (set h)"
  by (auto simp: dashes_def dest: in_set_takeD in_set_dropD)

lemma parse_canonical_text: "parse_canonical s \<noteq> None \<Longrightarrow> id_text s"
proof -
  assume s: "parse_canonical s \<noteq> None"
  then have h: "length s = 36" "dashes (undash s) = s" "hex_values (undash s) \<noteq> None" by (auto simp: parse_canonical_def split: if_splits)
  have "hex_value (CHR ''/'') = None" "hex_value (CHR ''?'') = None" by code_simp+
  then have "CHR ''/'' \<notin> set (undash s)" "CHR ''?'' \<notin> set (undash s)" using hex_values_no [OF h(3)] by auto
  then have "CHR ''/'' \<notin> set s" "CHR ''?'' \<notin> set s" using set_dashes [of "undash s"] h(2) by auto
  then show ?thesis using h(1) by (auto simp: id_text_def list_all_iff)
qed

lemma canonical_length: "length (canonical i) = 36"
  using undash_dashes [of "map hex_char (digits16 32 (unat i))"] by (simp add: canonical_def)

lemma canonical_text: "to_valid (canonical i) = canonical i"
proof (rule to_valid_ascii)
  have "set (canonical i) \<subseteq> insert (CHR ''-'') (hex_char ` {..<16})"
    using set_dashes [of "map hex_char (digits16 32 (unat i))"] digits16_less by (fastforce simp: canonical_def)
  moreover have "byte (hex_char d) < 0x80" if "d < 16" for d using that by (auto simp: hex_char_def byte_char_of)
  ultimately show "list_all (\<lambda>c. byte c < 0x80) (canonical i)" by (auto simp: list_all_iff)
qed

lemma currency_text: "Validate n = None \<Longrightarrow> to_valid (NewCurrency n) = NewCurrency n"
proof -
  assume "Validate n = None"
  then have "NewCurrency n \<in> set SupportedCurrencies" by (simp add: Validate_None_iff)
  then show ?thesis by (intro to_valid_ascii) (auto simp: SupportedCurrencies_def)
qed

subsection \<open>One operation\<close>

lemma ring_add_buf: "set (buf (ring_add x r)) \<subseteq> insert x (set (buf r))"
  by (auto simp: ring_add_def dest: set_update_subset_insert [THEN subsetD])

lemma stat_codes_record:
  "tally (stat_codes (stat_of (record_result (k, c, d) r) k')) c' =
     tally (stat_codes (stat_of r k')) c' + of_bool (k' = k \<and> c' = c)"
  by (auto simp: stat_of_record tally_bump)

lemma status_suffix:
  "x \<in> {[], ''&status='' @ StatusPending, ''&status='' @ StatusPaid, ''&status='' @ StatusFailed} \<Longrightarrow>
     \<exists>st \<in> {[], ''pending'', ''paid'', ''failed''}. x = (if st = [] then [] else ''&status='' @ st)"
  by (elim insertE emptyE) (simp_all add: StatusPending_def StatusPaid_def StatusFailed_def)

lemma do_answered:
  assumes U: "uuid_texts U" and ok: "healthy U debug S t" and inv: "traffic_inv U debug (g, t)"
    and d: "int64_ok (slowDelay g)" and fits: "request_fits g k q"
  shows "\<exists>c out w. api_net S t (base g) q = Reply c out w \<and> (c = announced debug (slowDelay g) k \<or> k = opGetMissing \<and> c = 200) \<and>
    set (map ID t) \<subseteq> set (map ID (htab (serve_sent S t (base g) q))) \<and>
    (k = opCreate \<longrightarrow> extractID (take (2 ^ 20) out) \<in> ustring U ` set (map ID (htab (serve_sent S t (base g) q))))"
proof -
  have S: "s_lib S = U" "s_debug S = debug" "api_reply (s_api S) = ReplyOk" "fresh_id (s_api S) \<notin> set (map ID t)" "year_ok 0 (api_now (s_api S))"
    using ok by (auto simp: healthy_def)
  have lib: "uuid_lib_ok U" "ustring U = canonical" "uparse U ''not-a-uuid'' = None"
    and parse: "\<And>s i. parse_canonical s = Some i \<Longrightarrow> uparse U s = Some i" using U by (auto simp: uuid_texts_def)
  have quiet: ?thesis if "\<exists>out w. api_net S t (base g) q = Reply c out w" "htab (serve_sent S t (base g) q) = t" "k \<noteq> opCreate"
    "c = announced debug (slowDelay g) k \<or> k = opGetMissing \<and> c = 200" for c
    using that by auto
  have get: "\<exists>out w. api_net S t (base g) q =
      Reply (case uparse U x of None \<Rightarrow> 400 | Some i \<Rightarrow> if i \<in> set (map ID t) then 200 else 404) out w"
    "htab (serve_sent S t (base g) q) = t"
    if "sent_method q = ''GET''" "sent_url q = base g @ ''/orders/'' @ x" "id_text x" for x
    using sent_get [OF that, of S t] S(1,3) lib(1) by simp_all
  show ?thesis
  proof (cases k)
    case opCreate
    then obtain n where n: "sent_method q = ''POST''" "sent_url q = base g @ ''/orders''" "sent_body q = Some (order_text n)"
      "decode_order (order_text n) = Some n" "Validate n = None" "text_ok (NewCustomerID n)" using fits by (auto simp: request_fits_def)
    let ?b = "body_text canonical (\<lambda>_. 0) (OrderBody (Build (fresh_id (s_api S)) (api_now (s_api S)) n))"
    from sent_create [OF n(1-4) _ S(3,4) n(5,6)] S(1) lib(1,2) have
      "api_net S t (base g) q = Reply 201 ?b (s_took S)"
      "set (map ID (htab (serve_sent S t (base g) q))) = insert (fresh_id (s_api S)) (set (map ID t))" by (auto simp: stored_def Build_def)
    moreover have "extractID (take (2 ^ 20) ?b) = canonical (fresh_id (s_api S))"
      using created_text [OF n(5) S(5), of canonical] canonical_text by (simp add: canonical_length)
    ultimately show ?thesis using opCreate lib(2) by (auto simp: announced_def)
  next
    case opGet
    then obtain i where i: "sent_method q = ''GET''" "i \<in> set (buf (ids g))" "sent_url q = base g @ ''/orders/'' @ i"
      using fits by (auto simp: request_fits_def)
    have "i \<in> canonical ` set (map ID t)" using inv i(2) lib(2) by (simp add: traffic_inv_def)
    then obtain j where j: "j \<in> set (map ID t)" "i = canonical j" by blast
    have "parse_canonical i = Some j" by (simp add: j(2) parse_canonical_canonical)
    then have i': "id_text i" "uparse U i = Some j" using parse_canonical_text [of i] parse by auto
    show ?thesis by (rule quiet [OF get [OF i(1,3) i'(1)]]) (use i'(2) j(1) opGet in \<open>simp_all add: announced_def\<close>)
  next
    case opList
    obtain l f x where q: "sent_method q = ''GET''" "10 \<le> l" "l < 50" "f \<in> {0, 10, 20}"
      "x \<in> {[], ''&status='' @ StatusPending, ''&status='' @ StatusPaid, ''&status='' @ StatusFailed}"
      "sent_url q = base g @ ''/orders?limit='' @ decimal l @ ''&offset='' @ decimal f @ x"
      using fits [unfolded request_fits_def opList opKind.case] by - (elim conjE exE, rule that)
    obtain st where st: "st \<in> {[], ''pending'', ''paid'', ''failed''}" "x = (if st = [] then [] else ''&status='' @ st)"
      using status_suffix [OF q(5)] by (elim bexE) (rule that)
    have f: "f < 2 ^ 63" "1 \<le> l" "l \<le> 100" "uuid_lib_ok (s_lib S)" using q(2-4) S(1) lib(1) by auto
    show ?thesis
      by (rule quiet [OF sent_list [OF q(1,6) st(1) arg_cong [OF st(2)] f(2,3,1,4) S(3)]]) (simp_all add: opList announced_def)
  next
    case opGetMissing
    then obtain u where u: "sent_method q = ''GET''" "sent_url q = base g @ ''/orders/'' @ u" "parse_canonical u \<noteq> None"
      using fits by (auto simp: request_fits_def)
    then obtain i where "uparse U u = Some i" using parse by blast
    then show ?thesis by (intro quiet [OF get [OF u(1,2) parse_canonical_text [OF u(3)]]]) (simp_all add: opGetMissing announced_def)
  next
    case opBadPayload
    then obtain b n where n: "sent_method q = ''POST''" "sent_url q = base g @ ''/orders''" "sent_body q = Some b"
      "decode_order b = Some n" "Validate n \<noteq> None" using fits by (auto simp: request_fits_def)
    show ?thesis by (rule quiet [OF sent_invalid [OF n]]) (simp_all add: opBadPayload announced_def)
  next
    case opBadUUID
    then have q: "sent_method q = ''GET''" "sent_url q = base g @ ''/orders/'' @ ''not-a-uuid''"
      using fits by (auto simp: request_fits_def)
    have "id_text ''not-a-uuid''" by code_simp
    then show ?thesis by (intro quiet [OF get [OF q]]) (use lib(3) in \<open>simp_all add: opBadUUID announced_def\<close>)
  next
    case opUnknownPath
    then have q: "sent_method q = ''GET''" "sent_url q = base g @ ''/does-not-exist''"
      using fits by (auto simp: request_fits_def)
    show ?thesis by (rule quiet [OF sent_unknown [OF q]]) (simp_all add: opUnknownPath announced_def)
  next
    case opSlow
    then have q: "sent_method q = ''GET''" "sent_url q = base g @ ''/debug/slow?d='' @ duration_string (slowDelay g)"
      using fits by (auto simp: request_fits_def)
    show ?thesis by (rule quiet [OF sent_slow [OF q d S(3)]]) (simp_all add: opSlow S(2))
  qed
qed

lemma traffic_keeps:
  assumes "traffic U debug s s'" "uuid_texts U" "traffic_inv U debug s" "int64_ok (slowDelay (fst s))"
  shows "traffic_inv U debug s' \<and> slowDelay (fst s') = slowDelay (fst s)"
  using assms(1)
proof cases
  case (Do S t g r g' q r')
  obtain k0 r2 where "choose_kind g r = (k0, r2)" by (cases "choose_kind g r")
  from gen_do_kind [OF Do(4) this] obtain k where k: "request_fits g k q" "request_done (api_net S t (base g)) g k q g'" by blast
  let ?t = "htab (serve_sent S t (base g) q)"
  from do_answered [OF assms(2) Do(3) _ _ k(1)] assms(3,4) Do(1) obtain c out w where a:
    "api_net S t (base g) q = Reply c out w" "c = announced debug (slowDelay g) k \<or> k = opGetMissing \<and> c = 200"
    "set (map ID t) \<subseteq> set (map ID ?t)" "k = opCreate \<Longrightarrow> extractID (take (2 ^ 20) out) \<in> ustring U ` set (map ID ?t)"
    by auto
  have g': "g' = g\<lparr>res_of := record_result (k, c, w) (res_of g),
      ids := (if k = opCreate \<and> c = 201 then ring_add (extractID (take (2 ^ 20) out)) (ids g) else ids g)\<rparr>"
    using k(2) by (simp add: request_done_def outcome_def a(1))
  have old: "\<forall>i \<in> set (buf (ids g)). i \<in> ustring U ` set (map ID ?t)"
    using assms(3) Do(1) image_mono [OF a(3), of "ustring U"] by (auto simp: traffic_inv_def)
  have ring: "\<forall>i \<in> set (buf (ids g')). i \<in> ustring U ` set (map ID ?t)"
    using old a(4) ring_add_buf [of "extractID (take (2 ^ 20) out)" "ids g"] by (auto simp: g')
  have "\<forall>k' c'. 0 < tally (stat_codes (stat_of (res_of g') k')) c' \<longrightarrow>
      c' = announced debug (slowDelay g') k' \<or> k' = opGetMissing \<and> c' = 200"
    using assms(3) Do(1) a(2) by (auto simp: g' stat_codes_record traffic_inv_def)
  then show ?thesis using ring Do(1,2) by (simp add: traffic_inv_def g')
next
  case (Elsewhere t t' g)
  then show ?thesis using assms(3) by (fastforce simp: traffic_inv_def)
qed

lemma traffic_start: "traffic_inv U debug (\<lparr>base = b, ids = newIDRing n, res_of = newResults, slowFrac = f, slowDelay = d\<rparr>, t)"
  by (simp add: traffic_inv_def newIDRing_def newResults_def stat_of_def new_stat_def tally_def)

section \<open>Properties\<close>

text \<open>
  (C13) The generator gets from the service what it asks for. In any run against the API with its
  middleware, while the database answers, interleaved with anything else that does not delete orders,
  every id in the ring is the id of an order in the table, and every status recorded is the one its
  operation announces: 201 for a create, 200 for a get and a list, 404 for a missing order and an unknown
  path, 422 for the bad payload, 400 for the bad id, and for the slow query 200 up to five seconds
  and 400 beyond, or 404 where the debug route is off; only a random id that happens to exist
  is answered with 200 instead. So none ends in a 5xx.
\<close>

theorem traffic_as_announced:
  assumes "uuid_texts U" "int64_ok d"
    and "(traffic U debug)\<^sup>*\<^sup>*
      (\<lparr>base = b, ids = newIDRing n, res_of = newResults, slowFrac = f, slowDelay = d\<rparr>, t0) (g, t)"
  shows "(\<forall>i \<in> set (buf (ids g)). \<exists>x \<in> set t. i = ustring U (ID x)) \<and>
    (\<forall>k c. 0 < tally (stat_codes (stat_of (res_of g) k)) c \<longrightarrow> c = announced debug d k \<or> k = opGetMissing \<and> c = 200)"
proof -
  have "traffic_inv U debug (g, t) \<and> slowDelay (fst (g, t)) = d"
    using assms(3)
  proof (induction rule: rtranclp_induct)
    case base
    show ?case using traffic_start by simp
  next
    case (step s s')
    then show ?case using traffic_keeps [OF step(2) assms(1)] assms(2) by simp
  qed
  then show ?thesis by (auto simp: traffic_inv_def)
qed

text \<open>
  (C14) An order on the wire, there and back. A client posts the JSON of an order that validation accepts,
  with a customer id in UTF-8 and without a zero byte, while the database answers: the service answers 201
  with a text from which the id can be extracted, and a later GET of that id, by any instance of the
  service on the same table, answers 200 with one line of JSON that holds the same id, customer, amount and
  currency, and the status \<open>pending\<close>. Both requests pass the whole middleware.
\<close>

theorem post_then_get:
  assumes "uuid_texts U" "healthy U debug S t" "Validate n = None" "text_ok (NewCustomerID n)"
    and "to_valid (NewCustomerID n) = NewCustomerID n"
    and "post = \<lparr>sent_method = ''POST'', sent_url = host @ ''/orders'', sent_body = Some (order_text n @ junk)\<rparr>"
    and "t' = htab (serve_sent S t host post)"
    and "s_lib S' = U" "api_reply (s_api S') = ReplyOk" "\<And>x. x \<in> set t' \<Longrightarrow> times_ok (s_zone S') x"
  shows "\<exists>out d i out' d' ms.
    api_net S t host post = Reply 201 out d \<and> i = extractID (take (2 ^ 20) out) \<and>
    api_net S' t' host \<lparr>sent_method = ''GET'', sent_url = host @ ''/orders/'' @ i, sent_body = None\<rparr> = Reply 200 out' d' \<and>
    parse_value out' = Some (JObj ms, [CHR 0x0A]) \<and>
    map_of ms ''id'' = Some (JStr i) \<and> map_of ms ''customer_id'' = Some (JStr (NewCustomerID n)) \<and>
    map_of ms ''amount_cents'' = Some (JNum (itoa (NewAmountCents n))) \<and>
    map_of ms ''currency'' = Some (JStr (NewCurrency n)) \<and> map_of ms ''status'' = Some (JStr StatusPending)"
proof -
  have S: "s_lib S = U" "api_reply (s_api S) = ReplyOk" "fresh_id (s_api S) \<notin> set (map ID t)" "year_ok 0 (api_now (s_api S))"
    using assms(2) by (auto simp: healthy_def)
  have lib: "uuid_lib_ok U" "ustring U = canonical" and parse: "\<And>s i. parse_canonical s = Some i \<Longrightarrow> uparse U s = Some i"
    using assms(1) by (auto simp: uuid_texts_def)
  have cur: "to_valid (NewCurrency n) = NewCurrency n" by (rule currency_text [OF assms(3)])
  let ?i = "fresh_id (s_api S)" and ?x = "Build (fresh_id (s_api S)) (api_now (s_api S)) n"
  let ?y = "stored (pg_time (s_api S)) ?x"
  from sent_create [of post host "order_text n @ junk" n S t] decode_valid_text(1) [OF assms(3,5) cur] S lib(1) assms(3,4)
  have post: "api_net S t host post = Reply 201 (body_text canonical (\<lambda>_. 0) (OrderBody ?x)) (s_took S)" "t' = t @ [?y]"
    by (simp_all add: assms(6,7) lib(2))
  have id: "extractID (take (2 ^ 20) (body_text canonical (\<lambda>_. 0) (OrderBody ?x))) = canonical ?i"
    using created_text [OF assms(3) S(4), of canonical] by (simp add: canonical_text canonical_length)
  have "id_text (canonical ?i)" "uparse U (canonical ?i) = Some ?i"
    using parse_canonical_text parse parse_canonical_canonical by auto
  moreover have "find (\<lambda>r. ID r = ?i) t' = Some ?y"
    using find_ID_None [OF S(3)] by (simp add: post(2) find_append stored_def Build_def)
  ultimately have get: "api_net S' t' host \<lparr>sent_method = ''GET'', sent_url = host @ ''/orders/'' @ canonical ?i, sent_body = None\<rparr> =
      Reply 200 (body_text canonical (s_zone S') (OrderBody ?y)) (s_took S')"
    using sent_get_found [of _ host "canonical ?i" S' ?i t' ?y] assms(8,9) lib by simp
  have ok: "times_ok (s_zone S') ?y" using assms(10) post(2) by simp
  then have v: "body_json canonical (s_zone S') (OrderBody ?y) = Some (order_json canonical (s_zone S') ?y)" by simp
  have "parse_value (body_text canonical (s_zone S') (OrderBody ?y)) = Some (valid_json (order_json canonical (s_zone S') ?y), [CHR 0x0A])"
    by (rule body_text_parses [OF v])
  then show ?thesis
    using post(1) id get assms(5) cur
    by (auto simp: order_json_def to_valid_ascii canonical_text stored_def Build_def status_defs)
qed

text \<open>The witness: with draws of 0 the generator creates an order, and its id enters the ring.\<close>

lemma canonical_lib_texts: "uuid_texts canonical_lib"
  using canonical_lib_ok bad_uuid_rejected by (simp add: uuid_texts_def canonical_lib_def)

lemma sample_healthy: "healthy canonical_lib False sample_server sample_table"
proof -
  have "year_ok 0 70" by code_simp
  then show ?thesis by (simp add: healthy_def sample_server_def sample_api_def sample_table_def Build_def)
qed

theorem traffic_as_announced_witness:
  "\<exists>g t. (traffic canonical_lib False)\<^sup>*\<^sup>* (sample_generator, sample_table) (g, t) \<and> buf (ids g) \<noteq> [] \<and>
     (\<forall>i \<in> set (buf (ids g)). \<exists>x \<in> set t. i = canonical (ID x))"
proof -
  let ?g = sample_generator and ?t = sample_table
  obtain g q r where d: "gen_do (api_net sample_server ?t (base ?g)) zero_rand ?g = ((g, q), r)" by (metis surj_pair)
  let ?t' = "htab (serve_sent sample_server ?t (base ?g) q)"
  have ck: "fst (choose_kind ?g zero_rand) = opCreate"
    by (simp add: choose_kind_def pick_def Intn_def mix_def zero_rand_def sample_generator_def)
  have k: "request_fits ?g opCreate q" "request_done (api_net sample_server ?t (base ?g)) ?g opCreate q g"
    using gen_do_kind [OF d prod.collapse [symmetric]] ck by auto
  have inv: "traffic_inv canonical_lib False (?g, ?t)" unfolding sample_generator_def by (rule traffic_start)
  have int: "int64_ok (slowDelay ?g)" by (simp add: sample_generator_def int64_ok_def)
  from do_answered [OF canonical_lib_texts sample_healthy inv int k(1)] obtain out w where a:
    "api_net sample_server ?t (base ?g) q = Reply 201 out w" "extractID (take (2 ^ 20) out) \<in> range canonical"
    by (auto simp: announced_def canonical_lib_def)
  have "canonical i \<noteq> []" for i using parse_canonical_text [of "canonical i"] parse_canonical_canonical [of i] by (auto simp: id_text_def)
  then have "extractID (take (2 ^ 20) out) \<noteq> []" using a(2) by (metis imageE)
  then have "buf (ids g) \<noteq> []"
    using k(2) a(1) by (auto simp: request_done_def outcome_def ring_add_def sample_generator_def newIDRing_def)
  moreover have run: "(traffic canonical_lib False)\<^sup>*\<^sup>* (?g, ?t) (g, ?t')" using traffic.Do [OF sample_healthy d] by blast
  moreover have "\<forall>i \<in> set (buf (ids g)). \<exists>x \<in> set ?t'. i = canonical (ID x)"
    using traffic_as_announced [OF canonical_lib_texts, of Second False "''http://h''" 2048 "Finite 0" ?t g ?t'] run
    by (simp add: sample_generator_def int64_ok_def canonical_lib_def)
  ultimately show ?thesis by blast
qed

theorem post_then_get_witness:
  "\<exists>out d out' ms.
    api_net sample_server sample_table ''http://h''
      \<lparr>sent_method = ''POST'', sent_url = ''http://h'' @ ''/orders'', sent_body = Some (order_text sample_new @ ''x'')\<rparr> =
      Reply 201 out d \<and> parse_value out' = Some (JObj ms, [CHR 0x0A]) \<and>
    map_of ms ''id'' = Some (JStr (extractID (take (2 ^ 20) out))) \<and>
    map_of ms ''customer_id'' = Some (JStr (NewCustomerID sample_new))"
proof -
  let ?q = "\<lparr>sent_method = ''POST'', sent_url = ''http://h'' @ ''/orders'', sent_body = Some (order_text sample_new @ ''x'')\<rparr>"
  let ?t = "htab (serve_sent sample_server sample_table ''http://h'' ?q)"
  have c: "to_valid (NewCustomerID sample_new) = NewCustomerID sample_new" "text_ok (NewCustomerID sample_new)"
    by (simp_all add: sample_new_def to_valid_ascii text_ok_def)
  have s: "s_lib sample_server = canonical_lib" "s_api sample_server = sample_api" "api_reply (s_api sample_server) = ReplyOk"
    "s_zone sample_server = (\<lambda>_. 0)" "pg_time sample_api = (\<lambda>u. u)" "fresh_id sample_api = 9" "api_now sample_api = 70"
    by (simp_all add: sample_server_def sample_api_def)
  have "?t = sample_table @ [stored (\<lambda>u. u) (Build 9 70 sample_new)]"
    using sent_create [of ?q "''http://h''" "order_text sample_new @ ''x''" sample_new sample_server sample_table]
      sample_new_decoded sample_new_valid canonical_lib_ok c(2) sample_healthy
    by (simp add: s healthy_def)
  moreover have "year_ok 0 50" "year_ok 0 30" "year_ok 0 10" "year_ok 0 70" by code_simp+
  ultimately have t: "times_ok (s_zone sample_server) x" if "x \<in> set ?t" for x
    using that by (auto simp: s(4) sample_table_def times_ok_def stored_def Build_def)
  show ?thesis
    using post_then_get [where host = "''http://h''" and junk = "''x''",
        OF canonical_lib_texts sample_healthy sample_new_valid c(2,1) refl refl s(1,3) t] by blast
qed

end
