(* ===== verification/Registry.thy ===== *)
theory Registry
  imports Api Query_Tracers Pool_Metrics
begin

text \<open>
  internal/metrics/registry.go and the registration in the constructors of the other files of the
  package, in the order in which cmd/api/main.go calls them. The Prometheus client is an argument: what
  a registry accepts, how names are built, when a constructor or \<open>WithLabelValues\<close> panics, and the
  descriptors of the collectors it brings; \<open>prom_ok\<close> states what its documentation promises.
\<close>

section \<open>Definitions\<close>

record 'r prom =
  NewRegistry :: 'r
  Register :: "pool_desc list \<Rightarrow> 'r \<Rightarrow> 'r option" \<comment> \<open>of the descriptors of a collector, \<^term>\<open>None\<close> for an error\<close>
  registered :: "'r \<Rightarrow> pool_desc list"
  BuildFQName :: "string \<Rightarrow> string \<Rightarrow> string \<Rightarrow> string"
  histogram_ok :: "rat list \<Rightarrow> string list \<Rightarrow> bool" \<comment> \<open>a histogram constructor does not panic\<close>
  values_ok :: "string list \<Rightarrow> string list \<Rightarrow> bool" \<comment> \<open>\<open>WithLabelValues\<close> does not panic\<close>
  valid_utf8 :: "string \<Rightarrow> bool"
  GoCollector :: "pool_desc list"
  ProcessCollector :: "pool_desc list"
  handler_collectors :: "pool_desc list list" \<comment> \<open>of \<open>InstrumentMetricHandler\<close>\<close>

definition Namespace :: string where "Namespace = ''orders''"

subsection \<open>Buckets\<close>

definition LatencyBuckets :: "rat list" where
  "LatencyBuckets = map f64
     [5 / 10000, 1 / 1000, 25 / 10000, 5 / 1000, 1 / 100, 25 / 1000, 5 / 100, 1 / 10, 25 / 100, 5 / 10, 1, 25 / 10, 5, 10]"

definition ResponseSizeBuckets :: "rat list" where
  "ResponseSizeBuckets = map f64 [64, 256, 1024, 4096, 16384, 65536, 262144, 1048576]"

definition DBLatencyBuckets :: "rat list" where
  "DBLatencyBuckets = map f64
     [1 / 10000, 25 / 100000, 5 / 10000, 1 / 1000, 25 / 10000, 5 / 1000, 1 / 100, 25 / 1000, 5 / 100, 1 / 10, 25 / 100,
      5 / 10, 1, 25 / 10, 5]"

definition AcquireWaitBuckets :: "rat list" where
  "AcquireWaitBuckets = map f64
     [1 / 100000, 1 / 10000, 25 / 100000, 5 / 10000, 1 / 1000, 5 / 1000, 1 / 100, 5 / 100, 1 / 10, 5 / 10, 1, 5]"

definition ProcessingBuckets :: "rat list" where
  "ProcessingBuckets = map f64
     [5 / 1000, 1 / 100, 25 / 1000, 5 / 100, 1 / 10, 25 / 100, 5 / 10, 1, 25 / 10, 5, 10, 30]"

definition workerBatch_buckets :: "rat list" where
  "workerBatch_buckets = map f64 [0, 1, 2, 5, 10, 20, 50, 100]"

subsection \<open>Registering\<close>

definition desc_of :: "'r prom \<Rightarrow> mdesc \<Rightarrow> pool_desc" where
  "desc_of P d = \<lparr>FQName = BuildFQName P Namespace (Subsystem d) (Name d), VarLabels = LabelNames d\<rparr>"

text \<open>\<open>MustRegister\<close> registers its collectors one by one and panics on the first error.\<close>

fun MustRegister :: "'r prom \<Rightarrow> pool_desc list list \<Rightarrow> 'r \<Rightarrow> 'r res" where
  "MustRegister P [] r = Ok r"
| "MustRegister P (c # cs) r =
     (case Register P c r of None \<Rightarrow> Panicked ''MustRegister'' | Some r' \<Rightarrow> MustRegister P cs r')"

text \<open>A constructor call, with the buckets of a histogram.\<close>

definition construct :: "'r prom \<Rightarrow> mdesc \<times> rat list option \<Rightarrow> pool_desc list res" where
  "construct P c =
     (case snd c of
        None \<Rightarrow> Ok [desc_of P (fst c)]
      | Some bs \<Rightarrow> if histogram_ok P bs (LabelNames (fst c)) then Ok [desc_of P (fst c)] else Panicked ''histogram buckets'')"

fun construct_all :: "'r prom \<Rightarrow> (mdesc \<times> rat list option) list \<Rightarrow> pool_desc list list res" where
  "construct_all P [] = Ok []"
| "construct_all P (c # cs) = res_bind (construct P c) (\<lambda>d. res_bind (construct_all P cs) (\<lambda>ds. Ok (d # ds)))"

definition register_all :: "'r prom \<Rightarrow> (mdesc \<times> rat list option) list \<Rightarrow> 'r \<Rightarrow> 'r res" where
  "register_all P cs r = res_bind (construct_all P cs) (\<lambda>ds. MustRegister P ds r)"

text \<open>The calls of \<open>WithLabelValues\<close> in a list of effects.\<close>

fun create_series :: "'r prom \<Rightarrow> effect list \<Rightarrow> unit res" where
  "create_series P [] = Ok ()"
| "create_series P (Metric (WithLabels d vs) # es) =
     (if values_ok P (LabelNames d) vs then create_series P es else Panicked ''WithLabelValues'')"
| "create_series P (Metric (GaugeSet d vs v) # es) =
     (if values_ok P (LabelNames d) vs then create_series P es else Panicked ''WithLabelValues'')"
| "create_series P (e # es) = create_series P es"

definition metrics_New :: "'r prom \<Rightarrow> 'r res" where
  "metrics_New P =
     res_bind (MustRegister P [GoCollector P] (NewRegistry P)) (\<lambda>r. MustRegister P [ProcessCollector P] r)"

definition build_info :: mdesc where
  "build_info =
     \<lparr>Subsystem = [], Name = ''build_info'', Kind = GaugeKind, LabelNames = [''version'', ''commit'', ''go_version'', ''env'']\<rparr>"

type_synonym 'r started = "'r \<times> effect list"

text \<open>A registration followed by the creation of series.\<close>

definition set_up :: "'r prom \<Rightarrow> (mdesc \<times> rat list option) list \<Rightarrow> effect list \<Rightarrow> 'r started \<Rightarrow> 'r started res" where
  "set_up P cs es s =
     res_bind (register_all P cs (fst s)) (\<lambda>r. res_bind (create_series P es) (\<lambda>_. Ok (r, snd s @ es)))"

definition build_collectors :: "(mdesc \<times> rat list option) list" where
  "build_collectors = [(build_info, None)]"

definition BuildInfo :: "'r prom \<Rightarrow> string \<Rightarrow> string \<Rightarrow> string \<Rightarrow> string \<Rightarrow> 'r started \<Rightarrow> 'r started res" where
  "BuildInfo P version commit goVersion env =
     set_up P build_collectors [Metric (GaugeSet build_info [version, commit, goVersion, env] (VNum 1))]"

definition log_collectors :: "(mdesc \<times> rat list option) list" where
  "log_collectors = [(log_records, None), (log_dropped, None)]"

definition http_collectors :: "(mdesc \<times> rat list option) list" where
  "http_collectors =
     [(requests, None), (http_duration, Some LatencyBuckets), (respSize, Some ResponseSizeBuckets), (inFlight, None),
      (panics, None)]"

definition db_collectors :: "(mdesc \<times> rat list option) list" where
  "db_collectors =
     [(db_queryDuration, Some DBLatencyBuckets), (db_queryErrors, None), (acquireWait, Some AcquireWaitBuckets),
      (acquireErrors, None)]"

definition business_collectors :: "(mdesc \<times> rat list option) list" where
  "business_collectors =
     [(created, None), (createdValue, None), (transitions, None), (processing, Some ProcessingBuckets),
      (workerRuns, None), (workerPanics, None), (workerBatch, Some workerBatch_buckets),
      (workerDuration, Some ProcessingBuckets), (backlog, None), (backlogOldest, None), (backlogRefresh, None),
      (backlogErrors, None)]"

definition RegisterPool :: "'r prom \<Rightarrow> 'r started \<Rightarrow> 'r started res" where
  "RegisterPool P s = res_bind (MustRegister P [poolCollector_Describe] (fst s)) (\<lambda>r. Ok (r, snd s))"

text \<open>\<open>InstrumentMetricHandler\<close> in \<open>NewServer\<close>, on a registry that has none of its collectors.\<close>

definition instrument_handler :: "'r prom \<Rightarrow> 'r started \<Rightarrow> 'r started res" where
  "instrument_handler P s = res_bind (MustRegister P (handler_collectors P) (fst s)) (\<lambda>r. Ok (r, snd s))"

text \<open>What \<open>run\<close> does to the registry until both servers are built; \<open>nms\<close> is the map of query names.\<close>

definition startup_metrics ::
  "'r prom \<Rightarrow> (string \<times> string) list \<Rightarrow> string \<Rightarrow> string \<Rightarrow> string \<Rightarrow> string \<Rightarrow> 'r started res" where
  "startup_metrics P nms version commit goVersion env =
     res_bind (metrics_New P) (\<lambda>r0.
     res_bind (set_up P log_collectors NewLogs (r0, [])) (\<lambda>s1.
     res_bind (BuildInfo P version commit goVersion env s1) (\<lambda>s2.
     res_bind (set_up P http_collectors [] s2) (\<lambda>s3.
     res_bind (http_PreInit InstrumentedRoutes) (\<lambda>es.
     res_bind (set_up P [] es s3) (\<lambda>s4.
     res_bind (set_up P db_collectors (snd (NewDB nms)) s4) (\<lambda>s5.
     res_bind (set_up P business_collectors [] s5) (\<lambda>s6.
     res_bind (set_up P [] (business_PreInit SupportedCurrencies AllTransitions) s6) (\<lambda>s7.
     res_bind (RegisterPool P s7) (instrument_handler P))))))))))"

subsection \<open>What the client promises\<close>

definition name_char :: "char \<Rightarrow> bool" where
  "name_char c \<longleftrightarrow> c = CHR ''_'' \<or> (CHR ''a'' \<le> c \<and> c \<le> CHR ''z'') \<or> (CHR ''A'' \<le> c \<and> c \<le> CHR ''Z'')"

definition plain_name :: "string \<Rightarrow> bool" where
  "plain_name s \<longleftrightarrow> s \<noteq> [] \<and> name_char (hd s) \<and> list_all (\<lambda>c. name_char c \<or> (CHR ''0'' \<le> c \<and> c \<le> CHR ''9'')) s"

definition desc_valid :: "pool_desc \<Rightarrow> bool" where
  "desc_valid d \<longleftrightarrow> plain_name (FQName d) \<and> list_all (\<lambda>l. plain_name l \<and> take 2 l \<noteq> ''__'') (VarLabels d) \<and> distinct (VarLabels d)"

definition ascii :: "string \<Rightarrow> bool" where
  "ascii s \<longleftrightarrow> list_all (\<lambda>c. (of_char c :: nat) < 128) s"

text \<open>Collectors of the client: valid descriptors of distinct names with a prefix.\<close>

definition shipped :: "string \<Rightarrow> pool_desc list \<Rightarrow> bool" where
  "shipped pre ds \<longleftrightarrow> list_all desc_valid ds \<and> distinct (map FQName ds) \<and> list_all (\<lambda>d. take (length pre) (FQName d) = pre) ds"

definition prom_ok :: "'r prom \<Rightarrow> bool" where
  "prom_ok P \<longleftrightarrow>
     registered P (NewRegistry P) = [] \<and>
     (\<forall>r ds. list_all desc_valid ds \<and> distinct (map FQName (registered P r @ ds)) \<longrightarrow>
        (\<exists>r'. Register P ds r = Some r' \<and> registered P r' = registered P r @ ds)) \<and>
     (\<forall>ns sub n. n \<noteq> [] \<longrightarrow> BuildFQName P ns sub n = join ''_'' (filter (\<lambda>x. x \<noteq> []) [ns, sub, n])) \<and>
     (\<forall>bs ls. sorted_wrt (<) bs \<and> ''le'' \<notin> set ls \<longrightarrow> histogram_ok P bs ls) \<and>
     (\<forall>ns vs. length vs = length ns \<and> list_all (valid_utf8 P) vs \<longrightarrow> values_ok P ns vs) \<and>
     (\<forall>s. ascii s \<longrightarrow> valid_utf8 P s) \<and>
     shipped ''go_'' (GoCollector P) \<and> shipped ''process_'' (ProcessCollector P) \<and>
     shipped ''promhttp_'' (concat (handler_collectors P))"

text \<open>The descriptors of the service's own metrics, in the order of registration.\<close>

definition own_metrics :: "mdesc list" where
  "own_metrics = map fst (log_collectors @ build_collectors @ http_collectors @ db_collectors @ business_collectors)"

definition own_desc :: "mdesc \<Rightarrow> pool_desc" where
  "own_desc d = \<lparr>FQName = join ''_'' (filter (\<lambda>x. x \<noteq> []) [Namespace, Subsystem d, Name d]), VarLabels = LabelNames d\<rparr>"

definition own_descs :: "pool_desc list" where
  "own_descs = map own_desc own_metrics @ poolCollector_Describe"

text \<open>The content of the registry when the service runs.\<close>

definition everything :: "'r prom \<Rightarrow> pool_desc list" where
  "everything P = GoCollector P @ ProcessCollector P @ own_descs @ concat (handler_collectors P)"

text \<open>What \<open>BuildInfo\<close> sets.\<close>

definition build_series :: "string list \<Rightarrow> effect list" where
  "build_series vs = [Metric (GaugeSet build_info vs (VNum 1))]"

text \<open>A client that keeps the descriptors it accepted.\<close>

definition sample_prom :: "pool_desc list prom" where
  "sample_prom =
     \<lparr>NewRegistry = [],
      Register = (\<lambda>ds r. if list_all desc_valid ds \<and> distinct (map FQName (r @ ds)) then Some (r @ ds) else None),
      registered = (\<lambda>r. r), BuildFQName = (\<lambda>ns sub n. join ''_'' (filter (\<lambda>x. x \<noteq> []) [ns, sub, n])),
      histogram_ok = (\<lambda>bs ls. sorted_wrt (<) bs \<and> ''le'' \<notin> set ls), values_ok = (\<lambda>ns vs. length vs = length ns \<and> list_all ascii vs),
      valid_utf8 = ascii, GoCollector = [\<lparr>FQName = ''go_goroutines'', VarLabels = []\<rparr>],
      ProcessCollector = [\<lparr>FQName = ''process_open_fds'', VarLabels = []\<rparr>],
      handler_collectors = [[\<lparr>FQName = ''promhttp_metric_handler_requests_total'', VarLabels = [''code'']\<rparr>]]\<rparr>"

text \<open>What the client accepts of a constructor and of a new series.\<close>

definition collector_ok :: "mdesc \<times> rat list option \<Rightarrow> bool" where
  "collector_ok c \<longleftrightarrow> Name (fst c) \<noteq> [] \<and> desc_valid (own_desc (fst c)) \<and>
     (\<forall>bs. snd c = Some bs \<longrightarrow> sorted_wrt (<) bs \<and> ''le'' \<notin> set (LabelNames (fst c)))"

fun series_ok :: "(string \<Rightarrow> bool) \<Rightarrow> effect \<Rightarrow> bool" where
  "series_ok V (Metric (WithLabels d vs)) \<longleftrightarrow> length vs = length (LabelNames d) \<and> list_all V vs"
| "series_ok V (Metric (GaugeSet d vs v)) \<longleftrightarrow> length vs = length (LabelNames d) \<and> list_all V vs"
| "series_ok V _ \<longleftrightarrow> True"

section \<open>Lemmas\<close>

subsection \<open>Rounded boundaries\<close>

lemma round_even_error: "\<bar>of_int (round_even y) - y\<bar> \<le> 1 / 2"
  unfolding round_even_def Let_def abs_le_iff by (simp; linarith)

lemma f64_near: "0 \<le> x \<Longrightarrow> 3 / 4 * x \<le> f64 x \<and> f64 x \<le> 5 / 4 * x"
proof (cases "x = 0")
  case False
  assume "0 \<le> x"
  with False have x: "0 < x" by simp
  define u where "u = pow2 (rat_exponent x - 52)"
  have u: "0 < u" by (simp add: u_def)
  have "u * 2 ^ 52 = pow2 (rat_exponent x)" using pow2_add [of "rat_exponent x - 52" 52] by (simp add: u_def pow2_def)
  then have ux: "u * 2 ^ 52 \<le> x" using rat_exponent_le [OF x] by simp
  define k where "k = (of_int (round_even (x / u)) :: rat)"
  have "\<bar>k - x / u\<bar> * u \<le> 1 / 2 * u" using round_even_error [of "x / u"] u unfolding k_def by (intro mult_right_mono) auto
  moreover have "\<bar>k - x / u\<bar> * u = \<bar>k * u - x\<bar>" 
  proof -
    have "(k - x / u) * u = k * u - x" using u by (simp add: field_simps)
    then show ?thesis using u by (metis abs_mult abs_of_pos)
  qed
  ultimately have ab: "\<bar>k * u - x\<bar> \<le> 1 / 2 * u" by simp
  have "k * u - x \<le> 1 / 2 * u" "x - k * u \<le> 1 / 2 * u" using abs_le_D1 [OF ab] abs_le_D2 [OF ab] by simp_all
  moreover have "f64 x = k * u" using x by (simp add: f64_def f64_pos_def k_def u_def Let_def)
  moreover have "u * 4 \<le> x" using ux u by simp
  ultimately show ?thesis using u by linarith
qed (simp add: f64_def)

lemma f64_doubling: "successively (\<lambda>x y. 0 \<le> x \<and> 0 < y \<and> 2 * x \<le> y) xs \<Longrightarrow> sorted_wrt (<) (map f64 xs)"
proof -
  have less: "f64 x < f64 y" if "0 \<le> x" "0 < y" "2 * x \<le> y" for x y using f64_near [of x] f64_near [of y] that by linarith
  assume "successively (\<lambda>x y. 0 \<le> x \<and> 0 < y \<and> 2 * x \<le> y) xs"
  then have "successively (\<lambda>x y. f64 x < f64 y) xs" by (rule successively_mono) (use less in auto)
  then have "successively (<) (map f64 xs)" by (simp add: successively_map)
  then show ?thesis by (simp add: successively_conv_sorted_wrt)
qed

lemma buckets_sorted:
  "sorted_wrt (<) LatencyBuckets" "sorted_wrt (<) ResponseSizeBuckets" "sorted_wrt (<) DBLatencyBuckets"
  "sorted_wrt (<) AcquireWaitBuckets" "sorted_wrt (<) ProcessingBuckets" "sorted_wrt (<) workerBatch_buckets"
  unfolding LatencyBuckets_def ResponseSizeBuckets_def DBLatencyBuckets_def AcquireWaitBuckets_def ProcessingBuckets_def
    workerBatch_buckets_def
  by (intro f64_doubling, simp)+

subsection \<open>Registration\<close>

lemma prom_laws:
  assumes "prom_ok P"
  shows "registered P (NewRegistry P) = []"
    "\<And>r ds. list_all desc_valid ds \<Longrightarrow> distinct (map FQName (registered P r @ ds)) \<Longrightarrow>
       \<exists>r'. Register P ds r = Some r' \<and> registered P r' = registered P r @ ds"
    "\<And>d. Name d \<noteq> [] \<Longrightarrow> desc_of P d = own_desc d"
    "\<And>bs ls. sorted_wrt (<) bs \<Longrightarrow> ''le'' \<notin> set ls \<Longrightarrow> histogram_ok P bs ls"
    "\<And>ns vs. length vs = length ns \<Longrightarrow> list_all (valid_utf8 P) vs \<Longrightarrow> values_ok P ns vs"
    "\<And>s. ascii s \<Longrightarrow> valid_utf8 P s"
  using assms unfolding prom_ok_def by (blast, blast, simp add: desc_of_def own_desc_def, blast, blast, blast)

text \<open>A registration that stays within a list of valid descriptors of distinct names.\<close>

lemma MustRegister_ok:
  assumes "prom_ok P" "list_all desc_valid (concat cs)" "distinct (map FQName (registered P r @ concat cs))"
  shows "\<exists>r'. MustRegister P cs r = Ok r' \<and> registered P r' = registered P r @ concat cs"
  using assms(2,3)
proof (induction cs arbitrary: r)
  case (Cons c cs)
  have "list_all desc_valid c" "distinct (map FQName (registered P r @ c))" using Cons.prems by auto
  from prom_laws(2) [OF assms(1) this] obtain r1 where "Register P c r = Some r1" "registered P r1 = registered P r @ c" by blast
  then show ?case using Cons.IH [of r1] Cons.prems by simp
qed simp

lemma register_all_ok:
  assumes "prom_ok P" "list_all collector_ok cs" "distinct (map FQName (registered P r @ map (own_desc \<circ> fst) cs))"
  shows "\<exists>r'. register_all P cs r = Ok r' \<and> registered P r' = registered P r @ map (own_desc \<circ> fst) cs"
proof -
  have "construct_all P cs = Ok (map (\<lambda>c. [own_desc (fst c)]) cs)"
    using assms(2) prom_laws(3,4) [OF assms(1)]
    by (induction cs) (auto simp: construct_def collector_ok_def split: option.split)
  moreover have "list_all desc_valid (map (own_desc \<circ> fst) cs)"
    using assms(2) by (auto simp: list_all_iff collector_ok_def)
  moreover have "concat (map (\<lambda>c. [own_desc (fst c)]) cs) = map (own_desc \<circ> fst) cs" by (induction cs) auto
  ultimately show ?thesis
    using MustRegister_ok [OF assms(1), of "map (\<lambda>c. [own_desc (fst c)]) cs" r] assms(3) by (simp add: register_all_def comp_def)
qed

lemma create_series_ok: "prom_ok P \<Longrightarrow> list_all (series_ok (valid_utf8 P)) es \<Longrightarrow> create_series P es = Ok ()"
  by (induction P es rule: create_series.induct) (simp_all add: prom_laws(5))

lemma set_up_ok:
  assumes "prom_ok P" "list_all collector_ok cs" "list_all (series_ok (valid_utf8 P)) es"
    and "distinct (map FQName (registered P (fst s) @ map (own_desc \<circ> fst) cs))"
  shows "\<exists>r. set_up P cs es s = Ok (r, snd s @ es) \<and> registered P r = registered P (fst s) @ map (own_desc \<circ> fst) cs"
  using register_all_ok [OF assms(1,2,4)] create_series_ok [OF assms(1,3)] by (auto simp: set_up_def)

subsection \<open>The service's own metrics\<close>

lemmas own_mdescs =
  log_records_def log_dropped_def build_info_def requests_def http_duration_def respSize_def inFlight_def panics_def
  db_queryDuration_def db_queryErrors_def acquireWait_def acquireErrors_def business_defs

lemma own_metrics_eq:
  "own_metrics =
     [log_records, log_dropped, build_info, requests, http_duration, respSize, inFlight, panics, db_queryDuration, db_queryErrors,
      acquireWait, acquireErrors, created, createdValue, transitions, processing, workerRuns, workerPanics, workerBatch,
      workerDuration, backlog, backlogOldest, backlogRefresh, backlogErrors]"
  by (simp add: own_metrics_def log_collectors_def build_collectors_def http_collectors_def db_collectors_def business_collectors_def)

lemma own_names:
  "map FQName own_descs =
     [''orders_log_records_total'', ''orders_log_records_dropped_total'', ''orders_build_info'', ''orders_http_requests_total'',
      ''orders_http_request_duration_seconds'', ''orders_http_response_size_bytes'', ''orders_http_requests_in_flight'',
      ''orders_http_panics_total'', ''orders_db_query_duration_seconds'', ''orders_db_query_errors_total'',
      ''orders_db_pool_acquire_wait_seconds'', ''orders_db_pool_acquire_errors_total'', ''orders_created_total'',
      ''orders_created_value_cents_total'', ''orders_state_transitions_total'', ''orders_processing_duration_seconds'',
      ''orders_worker_runs_total'', ''orders_worker_panics_total'', ''orders_worker_batch_size'',
      ''orders_worker_batch_duration_seconds'', ''orders_backlog_orders'', ''orders_backlog_oldest_age_seconds'',
      ''orders_backlog_last_refresh_timestamp_seconds'', ''orders_backlog_refresh_errors_total'', ''orders_db_pool_connections'',
      ''orders_db_pool_max_connections'', ''orders_db_pool_acquires_total'', ''orders_db_pool_acquire_seconds_total'',
      ''orders_db_pool_empty_acquires_total'', ''orders_db_pool_empty_acquire_wait_seconds_total'',
      ''orders_db_pool_canceled_acquires_total'', ''orders_db_pool_new_connections_total'',
      ''orders_db_pool_connections_destroyed_total'']"
  by (simp add: own_descs_def own_metrics_eq own_desc_def own_mdescs Namespace_def poolCollector_Describe_def pool_descs)

lemma own_labels:
  "concat (map VarLabels own_descs) =
     [''level'', ''level'', ''version'', ''commit'', ''go_version'', ''env'', ''route'', ''method'', ''code'', ''status_class'',
      ''route'', ''method'', ''status_class'', ''route'', ''method'', ''route'', ''query'', ''status'', ''query'', ''kind'',
      ''currency'', ''currency'', ''from'', ''to'', ''outcome'', ''result'', ''stage'', ''status'', ''state'', ''reason'']"
  by (simp add: own_descs_def own_metrics_eq own_desc_def own_mdescs poolCollector_Describe_def pool_descs)

lemma own_names_plain: "list_all plain_name (map FQName own_descs)"
  unfolding own_names by code_simp

lemma own_labels_plain: "list_all (\<lambda>l. plain_name l \<and> take 2 l \<noteq> ''__'' \<and> l \<noteq> ''le'') (concat (map VarLabels own_descs))"
  unfolding own_labels by code_simp

lemma own_labels_distinct: "list_all (\<lambda>d. distinct (VarLabels d)) own_descs"
  by (simp add: own_descs_def own_metrics_eq own_desc_def own_mdescs poolCollector_Describe_def pool_descs)

lemma own_distinct: "distinct (map FQName own_descs)"
  unfolding own_names by simp
lemma own_valid: "list_all desc_valid own_descs"
  using own_names_plain own_labels_plain own_labels_distinct by (auto simp: list_all_iff desc_valid_def)

lemma own_metrics_valid: "d \<in> set own_metrics \<Longrightarrow> Name d \<noteq> [] \<and> desc_valid (own_desc d) \<and> ''le'' \<notin> set (LabelNames d)"
proof -
  assume d: "d \<in> set own_metrics"
  then have m: "own_desc d \<in> set own_descs" by (simp add: own_descs_def)
  have "Name d \<noteq> []" using d by (auto simp: own_metrics_eq own_mdescs)
  moreover have "desc_valid (own_desc d)" using own_valid m by (auto simp: list_all_iff)
  moreover have "''le'' \<notin> set (LabelNames d)" using own_labels_plain m by (fastforce simp: list_all_iff own_desc_def)
  ultimately show ?thesis by blast
qed

lemma collectors_ok:
  "list_all collector_ok log_collectors" "list_all collector_ok build_collectors" "list_all collector_ok http_collectors"
  "list_all collector_ok db_collectors" "list_all collector_ok business_collectors"
proof -
  have ok: "collector_ok (d, b)" if "d \<in> set own_metrics" "\<forall>bs. b = Some bs \<longrightarrow> sorted_wrt (<) bs" for d b
    using own_metrics_valid [OF that(1)] that(2) by (simp add: collector_ok_def)
  show "list_all collector_ok log_collectors" "list_all collector_ok build_collectors" "list_all collector_ok http_collectors"
    "list_all collector_ok db_collectors" "list_all collector_ok business_collectors"
    using buckets_sorted unfolding log_collectors_def build_collectors_def http_collectors_def db_collectors_def business_collectors_def
    by (auto intro!: ok simp: own_metrics_eq)
qed

lemma series_mono: "list_all (series_ok V) es \<Longrightarrow> (\<And>s. V s \<Longrightarrow> V' s) \<Longrightarrow> list_all (series_ok V') es"
proof (induction es)
  case (Cons e es)
  have "series_ok V' e" using Cons.prems by (cases "(V, e)" rule: series_ok.cases) (auto simp: list_all_iff)
  then show ?case using Cons by simp
qed simp

lemma NewLogs_series: "list_all (series_ok ascii) NewLogs"
  by code_simp

lemma http_series: "case http_PreInit InstrumentedRoutes of Ok es \<Rightarrow> list_all (series_ok ascii) es | _ \<Rightarrow> False"
  by code_simp

lemma business_series: "list_all (series_ok ascii) (business_PreInit SupportedCurrencies AllTransitions)"
  by code_simp

lemma query_names_ascii: "list_all ascii (map snd QueryNames @ [''ok'', ''error'', ''other''] @ enumerableErrorKinds)"
proof -
  have "map snd QueryNames = [''insert_order'', ''get_order_by_id'', ''list_orders'', ''count_orders_by_status'',
      ''claim_pending_orders'', ''mark_order_status'', ''oldest_pending_age'', ''sleep'']" by (simp add: QueryNames_def)
  then show ?thesis by (simp only:) code_simp
qed

lemma snd_normalised: "x \<in> snd ` set (fold (\<lambda>(sql, name) m. AList.update (f sql) name m) nms m) \<Longrightarrow> x \<in> snd ` set nms \<union> snd ` set m"
proof (induction nms arbitrary: m)
  case (Cons a nms)
  then show ?case using snd_update [of x "f (fst a)" "snd a" m] by (fastforce simp: case_prod_unfold)
qed simp

lemma db_series: "set nms \<subseteq> set QueryNames \<Longrightarrow> list_all (series_ok ascii) (snd (NewDB nms))"
proof -
  assume n: "set nms \<subseteq> set QueryNames"
  have "ascii (snd x)" if "x \<in> set (fst (NewDB nms))" for x
  proof -
    have "snd x \<in> snd ` set nms"
      using snd_normalised [of "snd x" normaliseSQL nms "[]"] that by (auto simp: NewDB_def Let_def normalised_names_def)
    then show ?thesis using n query_names_ascii by (auto simp: list_all_iff)
  qed
  then show ?thesis using query_names_ascii
    by (auto simp: NewDB_def Let_def DB_preInit_def list_all_iff db_queryDuration_def db_queryErrors_def)
qed

subsection \<open>Names across collectors\<close>

lemma own_shipped: "shipped ''orders_'' own_descs"
proof -
  have "list_all (\<lambda>n. take (length ''orders_'') n = ''orders_'') (map FQName own_descs)" unfolding own_names by simp
  then show ?thesis using own_valid own_distinct by (simp add: shipped_def list_all_iff)
qed

lemma shipped_prefix:
  assumes "shipped pre ds" "k \<le> length pre" "n \<in> FQName ` set ds"
  shows "take k n = take k pre"
proof -
  have "take (length pre) n = pre" using assms(1,3) by (auto simp: shipped_def list_all_iff)
  then show ?thesis using take_take [of k "length pre" n] assms(2) by (simp add: min_absorb1)
qed

lemma shipped_disjoint:
  assumes "shipped p ds" "shipped q es" "k \<le> length p" "k \<le> length q" "take k p \<noteq> take k q"
  shows "FQName ` set ds \<inter> FQName ` set es = {}"
  using shipped_prefix [OF assms(1,3)] shipped_prefix [OF assms(2,4)] assms(5) by fastforce

lemma everything_ok:
  assumes "prom_ok P"
  shows "distinct (map FQName (everything P))" "list_all desc_valid (everything P)"
proof -
  have s: "shipped ''go_'' (GoCollector P)" "shipped ''process_'' (ProcessCollector P)"
    "shipped ''promhttp_'' (concat (handler_collectors P))" using assms by (simp_all add: prom_ok_def)
  have "FQName ` set (GoCollector P) \<inter> FQName ` set (ProcessCollector P) = {}"
    "FQName ` set (GoCollector P) \<inter> FQName ` set own_descs = {}"
    "FQName ` set (GoCollector P) \<inter> FQName ` set (concat (handler_collectors P)) = {}"
    by (rule shipped_disjoint [OF s(1,2), of 3] shipped_disjoint [OF s(1) own_shipped, of 3] shipped_disjoint [OF s(1,3), of 3]; simp)+
  moreover have "FQName ` set (ProcessCollector P) \<inter> FQName ` set own_descs = {}"
    "FQName ` set (ProcessCollector P) \<inter> FQName ` set (concat (handler_collectors P)) = {}"
    "FQName ` set own_descs \<inter> FQName ` set (concat (handler_collectors P)) = {}"
    by (rule shipped_disjoint [OF s(2) own_shipped, of 4] shipped_disjoint [OF s(2,3), of 4] shipped_disjoint [OF own_shipped s(3), of 4]; simp)+
  ultimately show "distinct (map FQName (everything P))"
    using s own_distinct unfolding everything_def map_append distinct_append shipped_def set_map set_append by (simp add: Int_Un_distrib)
  show "list_all desc_valid (everything P)" using s own_valid by (simp add: everything_def shipped_def)
qed

text \<open>Each step of the start-up takes the next descriptors off what is still to be registered.\<close>

lemma MustRegister_step:
  assumes "prom_ok P" "registered P r @ concat cs @ rest = everything P"
  shows "\<exists>r'. MustRegister P cs r = Ok r' \<and> registered P r' @ rest = everything P"
proof -
  have "distinct (map FQName ((registered P r @ concat cs) @ rest))" "list_all desc_valid (registered P r @ concat cs @ rest)"
    using everything_ok [OF assms(1)] assms(2) by simp_all
  then have "distinct (map FQName (registered P r @ concat cs))" "list_all desc_valid (concat cs)"
    by (simp_all only: map_append distinct_append list_all_append)
  from MustRegister_ok [OF assms(1) this(2,1)] assms(2) show ?thesis by auto
qed

lemma set_up_step:
  assumes "prom_ok P" "list_all collector_ok cs" "list_all (series_ok (valid_utf8 P)) es"
    and "registered P (fst s) @ map (own_desc \<circ> fst) cs @ rest = everything P"
  shows "\<exists>r. set_up P cs es s = Ok (r, snd s @ es) \<and> registered P r @ rest = everything P"
proof -
  have "distinct (map FQName ((registered P (fst s) @ map (own_desc \<circ> fst) cs) @ rest))"
    using everything_ok [OF assms(1)] assms(4) by simp
  then have "distinct (map FQName (registered P (fst s) @ map (own_desc \<circ> fst) cs))" by (simp only: map_append distinct_append)
  from set_up_ok [OF assms(1-3) this] assms(4) show ?thesis by auto
qed

lemma set_up_nothing: "prom_ok P \<Longrightarrow> list_all (series_ok (valid_utf8 P)) es \<Longrightarrow> set_up P [] es s = Ok (fst s, snd s @ es)"
  by (simp add: set_up_def register_all_def create_series_ok)

lemma own_split:
  "everything P = GoCollector P @ ProcessCollector P @ map (own_desc \<circ> fst) log_collectors @
     map (own_desc \<circ> fst) build_collectors @ map (own_desc \<circ> fst) http_collectors @ map (own_desc \<circ> fst) db_collectors @
     map (own_desc \<circ> fst) business_collectors @ poolCollector_Describe @ concat (handler_collectors P)"
  by (simp add: everything_def own_descs_def own_metrics_def)

lemma ascii_series: "prom_ok P \<Longrightarrow> list_all (series_ok ascii) es \<Longrightarrow> list_all (series_ok (valid_utf8 P)) es"
  by (erule series_mono) (rule prom_laws(6))

text \<open>Up to the HTTP metrics, and the rest.\<close>

lemma startup_first:
  assumes "prom_ok P" "list_all (valid_utf8 P) [version, commit, goVersion, env]"
  shows "\<exists>b c d e. metrics_New P = Ok b \<and> set_up P log_collectors NewLogs (b, []) = Ok (c, NewLogs) \<and>
    BuildInfo P version commit goVersion env (c, NewLogs) = Ok (d, NewLogs @ build_series [version, commit, goVersion, env]) \<and>
    (\<forall>es. set_up P http_collectors [] (d, es) = Ok (e, es)) \<and>
    registered P e @ map (own_desc \<circ> fst) db_collectors @ map (own_desc \<circ> fst) business_collectors @
      poolCollector_Describe @ concat (handler_collectors P) = everything P"
proof -
  note step = set_up_step [OF assms(1)] and must = MustRegister_step [OF assms(1)]
  let ?F = "map (own_desc \<circ> fst) db_collectors @ map (own_desc \<circ> fst) business_collectors @ poolCollector_Describe @
    concat (handler_collectors P)"
  let ?E = "map (own_desc \<circ> fst) http_collectors @ ?F"
  let ?C = "map (own_desc \<circ> fst) log_collectors @ map (own_desc \<circ> fst) build_collectors @ ?E"
  let ?B = "build_series [version, commit, goVersion, env]"
  obtain a where a: "MustRegister P [GoCollector P] (NewRegistry P) = Ok a" "registered P a @ ProcessCollector P @ ?C = everything P"
    using must [of "NewRegistry P" "[GoCollector P]"] prom_laws(1) [OF assms(1)] own_split [of P] by auto
  obtain b where b: "MustRegister P [ProcessCollector P] a = Ok b" "registered P b @ ?C = everything P"
    using must [of a "[ProcessCollector P]"] a(2) by auto
  obtain c where c: "set_up P log_collectors NewLogs (b, []) = Ok (c, NewLogs)"
      "registered P c @ map (own_desc \<circ> fst) build_collectors @ ?E = everything P"
    using step [OF collectors_ok(1) ascii_series [OF assms(1) NewLogs_series], of "(b, [])"] b(2) by auto
  have "list_all (series_ok (valid_utf8 P)) ?B" using assms(2) by (simp add: build_series_def build_info_def)
  then obtain d where d: "BuildInfo P version commit goVersion env (c, NewLogs) = Ok (d, NewLogs @ ?B)" "registered P d @ ?E = everything P"
    using step [OF collectors_ok(2), of ?B "(c, NewLogs)"] c(2) by (auto simp: BuildInfo_def build_series_def)
  obtain e where "register_all P http_collectors d = Ok e" "registered P e @ ?F = everything P"
    using step [OF collectors_ok(3), of "[]" "(d, [])"] d(2) by (auto simp: set_up_def)
  then show ?thesis using a(1) b(1) c(1) d(1) by (auto simp: metrics_New_def set_up_def)
qed

lemma startup_rest:
  assumes "prom_ok P" "set nms \<subseteq> set QueryNames"
    and "registered P e @ map (own_desc \<circ> fst) db_collectors @ map (own_desc \<circ> fst) business_collectors @
      poolCollector_Describe @ concat (handler_collectors P) = everything P"
  shows "\<exists>g h j k. set_up P db_collectors (snd (NewDB nms)) (e, es) = Ok (g, es @ snd (NewDB nms)) \<and>
    (\<forall>fs. set_up P business_collectors [] (g, fs) = Ok (h, fs)) \<and> MustRegister P [poolCollector_Describe] h = Ok j \<and>
    MustRegister P (handler_collectors P) j = Ok k \<and> registered P k = everything P"
proof -
  note step = set_up_step [OF assms(1)] and must = MustRegister_step [OF assms(1)]
  let ?H = "poolCollector_Describe @ concat (handler_collectors P)"
  obtain g where g: "set_up P db_collectors (snd (NewDB nms)) (e, es) = Ok (g, es @ snd (NewDB nms))"
      "registered P g @ map (own_desc \<circ> fst) business_collectors @ ?H = everything P"
    using step [OF collectors_ok(4) ascii_series [OF assms(1) db_series [OF assms(2)]], of "(e, es)"] assms(3) by auto
  obtain h where h: "register_all P business_collectors g = Ok h" "registered P h @ ?H = everything P"
    using step [OF collectors_ok(5), of "[]" "(g, [])"] g(2) by (auto simp: set_up_def)
  obtain j where j: "MustRegister P [poolCollector_Describe] h = Ok j" "registered P j @ concat (handler_collectors P) = everything P"
    using must [of h "[poolCollector_Describe]"] h(2) by auto
  obtain k where "MustRegister P (handler_collectors P) j = Ok k" "registered P k = everything P"
    using must [of j "handler_collectors P" "[]"] j(2) by auto
  then show ?thesis using g(1) h(1) j(1) by (auto simp: set_up_def)
qed

lemma sample_prom_ok: "prom_ok sample_prom"
proof -
  have "shipped ''go_'' (GoCollector sample_prom)" "shipped ''process_'' (ProcessCollector sample_prom)"
    "shipped ''promhttp_'' (concat (handler_collectors sample_prom))" by code_simp+
  then show ?thesis by (simp add: prom_ok_def) (simp add: sample_prom_def)
qed

section \<open>Properties\<close>

text \<open>
  (C40) The service's metrics register. Given what the Prometheus client documents, start-up never panics
  in a metric constructor, in \<open>MustRegister\<close> or in \<open>WithLabelValues\<close>, for any order of the map of query
  names, as long as the build information is valid UTF-8: every name is valid and used once, across the
  service's own collectors and the client's, no label is reserved, and the boundaries of every
  histogram still increase strictly after rounding to \<open>float64\<close>. Afterwards the registry holds exactly the
  runtime's, the process's, the service's and the handler's descriptors, and all series of closed
  label sets have been created.
\<close>

theorem startup_registers:
  assumes "prom_ok P" "set nms \<subseteq> set QueryNames" "list_all (valid_utf8 P) [version, commit, goVersion, env]"
  shows "\<exists>r es. startup_metrics P nms version commit goVersion env = Ok (r, NewLogs @
      build_series [version, commit, goVersion, env] @ es @ snd (NewDB nms) @ business_PreInit SupportedCurrencies AllTransitions) \<and>
    http_PreInit InstrumentedRoutes = Ok es \<and> registered P r = everything P \<and> distinct (map FQName (registered P r))"
proof -
  obtain es where es: "http_PreInit InstrumentedRoutes = Ok es" "list_all (series_ok ascii) es"
    using http_series by (auto split: res.splits)
  note none = set_up_nothing [OF assms(1) ascii_series [OF assms(1)]]
  let ?E = "NewLogs @ build_series [version, commit, goVersion, env] @ es"
  obtain b c d e where first: "metrics_New P = Ok b" "set_up P log_collectors NewLogs (b, []) = Ok (c, NewLogs)"
    "BuildInfo P version commit goVersion env (c, NewLogs) = Ok (d, NewLogs @ build_series [version, commit, goVersion, env])"
    "\<And>es. set_up P http_collectors [] (d, es) = Ok (e, es)"
    and e: "registered P e @ map (own_desc \<circ> fst) db_collectors @ map (own_desc \<circ> fst) business_collectors @
      poolCollector_Describe @ concat (handler_collectors P) = everything P"
    using startup_first [OF assms(1,3)] by blast
  obtain g h j k where rest: "set_up P db_collectors (snd (NewDB nms)) (e, ?E) = Ok (g, ?E @ snd (NewDB nms))"
    "\<And>fs. set_up P business_collectors [] (g, fs) = Ok (h, fs)" "MustRegister P [poolCollector_Describe] h = Ok j"
    "MustRegister P (handler_collectors P) j = Ok k" and k: "registered P k = everything P"
    using startup_rest [OF assms(1,2) e, of ?E] by blast
  have "startup_metrics P nms version commit goVersion env =
      Ok (k, ?E @ snd (NewDB nms) @ business_PreInit SupportedCurrencies AllTransitions)"
    by (simp only: startup_metrics_def RegisterPool_def instrument_handler_def res_bind.simps first es(1) rest
        none [OF es(2)] none [OF business_series] fst_conv snd_conv append_assoc)
  then show ?thesis using es(1) k everything_ok(1) [OF assms(1)] by auto
qed

theorem startup_registers_witness:
  "\<exists>r es. startup_metrics sample_prom QueryNames ''v1'' ''abc'' ''go1.25'' ''dev'' = Ok (r, es) \<and> r = everything sample_prom"
proof -
  have "list_all (valid_utf8 sample_prom) [''v1'', ''abc'', ''go1.25'', ''dev'']" by code_simp
  from startup_registers [OF sample_prom_ok order_refl this] show ?thesis by (auto simp: sample_prom_def)
qed

end
