(* ===== verification/Spec2Isabelle.thy ===== *)
theory Spec2Isabelle
  imports System Backlog Query_Tracers Pool_Metrics Migrations Admin Service Alert_Sink Traffic Registry
begin

text \<open>
  Verification of the orders service (Go, module metrics-log-trace-application).

  The program. An HTTP API (src/cmd/api/main.go, src/internal/httpapi) creates, reads and lists
  orders in PostgreSQL (src/internal/store, src/migrations); a background worker
  (src/internal/worker/worker.go) claims pending orders in batches and marks them paid or failed; a
  refresher (src/internal/worker/backlog.go) recomputes the backlog gauges. Every part reports to three
  pillars: Prometheus metrics (src/internal/metrics), structured logs (src/internal/logging) and
  OpenTelemetry spans (src/internal/tracing). Two tools go with it: a traffic generator
  (src/cmd/loadgen) and a receiver of alert notifications (src/cmd/alertsink).

  How the parts correspond to the theories.

  \<^item> \<open>Prelude\<close>: Go errors with \<open>errors.Is\<close>/\<open>errors.As\<close>, results with
    panics, 64-bit integers, the string functions of the Go library that the code uses.
  \<^item> \<open>Go_Numbers\<close>: rounding to \<open>float64\<close>, comparisons with NaN, \<open>strconv.ParseInt\<close>,
    \<open>time.ParseDuration\<close>, \<open>Duration.String\<close>; \<open>Duration_Text\<close>: parsing what \<open>Duration.String\<close> prints
    gives the duration back; \<open>File_Paths\<close>: the functions of \<open>path/filepath\<close> the logger uses;
    \<open>Window\<close>: the contract of a bounded history.
  \<^item> \<open>Telemetry\<close>: the calls made on the Prometheus client, the tracer and the logger, as a
    list of effects, and functions that count them; exemplars (metrics/exemplar.go).
  \<^item> \<open>Domain\<close>: statuses, transitions, currencies, validation and construction of orders
    (domain/order.go).
  \<^item> \<open>Orders_Store\<close>, \<open>Store_Properties\<close>, \<open>Uuid_Text\<close>: the orders table, every SQL statement of
    store/orders.go with the constraints of migrations/0001_init.sql, and the methods of
    \<open>Store\<close>; the answers of the server (success, failure, refusal, a lost answer after the
    commit, a panic of the driver) are an argument of every round trip.
  \<^item> \<open>Business_Metrics\<close>, \<open>Worker\<close>, \<open>Backlog\<close>: the business metrics, the worker's ticker loop down
    to one order, the backlog refresher.
  \<^item> \<open>Logging\<close>: context attributes, request ids, levels, redaction, pseudonyms, the
    sampler, the handler chain with \<open>WithAttrs\<close> and \<open>WithGroup\<close> over a store of sampler states that
    handlers point to, the choice of the encoder and what a line holds (logging/context.go, handler.go, logging.go, metrics/logs.go).
  \<^item> \<open>Http\<close>, \<open>Api\<close>: response writers, the three status recorders and the middleware in the order
    of main.go; the endpoints and the routing table (httpapi, metrics/http.go, tracing/http.go).
  \<^item> \<open>Json\<close>, \<open>Order_Json\<close>, \<open>Wire\<close>: encoding/json on bytes (UTF-8, string literals with
    their escapes, numbers, nesting), how \<open>createOrder\<close> decodes its body into a new order behind the
    64 KiB limit, what the generator marshals and extracts, timestamps, and the text of every
    response body (httpapi/handlers.go, response.go, the struct tags of domain/order.go).
  \<^item> \<open>System\<close>: any number of workers and requests interleaved on one table.
  \<^item> \<open>Query_Tracers\<close>, \<open>Pool_Metrics\<close>: the SQL constants and their names, the three
    tracers around every query and connection acquisition, their fan-out, the pool collector
    (metrics/db.go, logging/pgx.go, tracing/pgx.go, store/tracer.go).
  \<^item> \<open>Migrations\<close>: \<open>Migrate\<close> of store/store.go, one transaction per file, over a database whose answers
    can fail or be lost at every round trip.
  \<^item> \<open>Config\<close>: \<open>Load\<close> of config/config.go with its environment readers, and the tracing set-up of
    tracing/tracing.go (exporter, sampler, \<open>Init\<close>, \<open>Shutdown\<close>).
  \<^item> \<open>Admin\<close>: the runtime log level endpoint (logging/level.go) and the routes of the admin port
    with its landing page (metrics/server.go).
  \<^item> \<open>Registry\<close>: the registry, the build information, the histogram boundaries and every registration of
    the start-up (metrics/registry.go and the constructors of the other files), over a Prometheus
    client given by what it documents.
  \<^item> \<open>Service\<close>: \<open>Open\<close> of store/store.go and \<open>run\<close> and \<open>main\<close> of cmd/api/main.go, as the
    sequence of steps that acquire, start, stop and release, on every path.
  \<^item> \<open>Loadgen\<close>: cmd/loadgen/main.go: the weighted mix, the requests, the ring of ids, the results and
    the report, and the ticker with its channel and workers as a step relation. \<open>Traffic\<close>: its requests parsed and answered by the
    API, in runs interleaved with other changes of the table.
  \<^item> \<open>Alert_Sink\<close>: cmd/alertsink/main.go: webhooks, the history and its page.

  What the lemmas show. Store: claims take the oldest pending orders atomically, marks are
  compare-and-set, pages of a listing partition it up to ties of creation time, what is created is read back. Worker and system: every change
  of a row is a legal transition, no two workers own an order, the transition counters account
  for the table, a batch settles its claims, panics are isolated. HTTP: for every handler the
  request counter, the access line and the span agree with what the client receives; the in-flight
  gauge balances; panics become 500s that all three see. JSON: what is printed is read back, whatever
  follows it; a value cut short is not a value; every string read is UTF-8; so an order posted as bytes is
  fetched as bytes through the whole middleware. Logging: no attribute with a
  sensitive key leaves with its value (the names of groups are not checked), every line carries its context,
  the sampler loses no count while the messages fit its map, and all loggers derived from one point to its
  state and stay within its budget together. Query tracers: one sample, one line and one span per query
  under one name.
  Start-up: migrations are applied once across failed restarts, \<open>Load\<close> accepts exactly the well-formed
  environments, the metrics register without a panic, the pool is released once on every path and
  shutdown has its order. Tools: every tick
  of the generator is accounted for in every interleaving and its run ends, each call sends the
  request its kind stands for and is answered by the service with the status it announces, and ring and
  history are sliding windows.

  Interfaces as locales. \<open>status_recorder\<close> is what the middleware relies on in a response
  recorder, interpreted by the metrics, access-log and tracing recorders; \<open>keyed_start\<close> is
  what the tracer fan-out relies on in a member, interpreted by the five start callbacks;
  \<open>sliding_window\<close> is what a bounded history promises, interpreted by the generator's ring and the
  sink's history.

  Bounds. The loops of the worker and of the refresher run over a finite list of ticks, so they
  are structural; \<open>ParseDuration\<close> terminates because every part consumes a unit; the generator's run
  decreases a measure once its context has ended. The JSON parser has fuel, one more than twice the length of its
  input; \<open>parse_fuel\<close> shows that more makes no difference, and its depth limit is the scanner's 10000.
  No other definition needs fuel. Integers that can wrap (\<open>int64\<close> arithmetic, the FNV
  hash) are wrapped explicitly or are words; durations and instants are integers, and
  \<open>Time.Sub\<close> saturates as in Go.

  Not modelled: the scrape handler and the inside of the Prometheus client, the text of a log line, flag parsing and the
  terminal formatting of the tools, \<open>strconv.ParseFloat\<close> (an argument), the decoding of the alert
  sink's payload (an argument), the time zone database (its offsets are an argument), the wire protocols of
  PostgreSQL, Prometheus and OTLP, the inside of SDK objects, and the goroutine scheduler inside
  one request (a request's calls are one sequence).
\<close>

end
